(* ===== verification/KPrelude.thy ===== *)
theory KPrelude
  imports Main "HOL-Library.Word"
begin

text \<open>
  Shared vocabulary of the development: the machine integer types of the ia32
  target, the result type of code that may panic, the byte interval of an
  address range, and the generic facts on words and lists that the component
  theories use.
\<close>

unbundle bit_operations_syntax

type_synonym u8 = "8 word"
type_synonym u16 = "16 word"
type_synonym u32 = "32 word"
type_synonym u64 = "64 word"

text \<open>
  \<open>panic\<close> (utils/panic.c) and \<open>assert\<close> (include/assert.h) print a message and
  never return: a computation that reaches one is an \<open>Inl\<close>.  A dereference of
  the null pointer is kept apart from the deliberate stops.
\<close>

datatype kerror = Panic string | Assert string | NullDeref

type_synonym 'a kres = "kerror + 'a"

definition kbind :: "'a kres \<Rightarrow> ('a \<Rightarrow> 'b kres) \<Rightarrow> 'b kres" where
  "kbind m f = (case m of Inl e \<Rightarrow> Inl e | Inr x \<Rightarrow> f x)"

definition kassert :: "bool \<Rightarrow> string \<Rightarrow> unit kres" where
  "kassert b msg = (if b then Inr () else Inl (Assert msg))"

definition option_kres :: "kerror \<Rightarrow> 'a option \<Rightarrow> 'a kres" where
  "option_kres e x = (case x of None \<Rightarrow> Inl e | Some v \<Rightarrow> Inr v)"

text \<open>The bytes that a range of an address and a size covers.\<close>

definition byte_range :: "u32 \<Rightarrow> u32 \<Rightarrow> nat set" where
  "byte_range a n = {unat a ..< unat a + unat n}"

named_theorems kres_simps
named_theorems word_nat
named_theorems range_simps

section \<open>Results\<close>

lemma kbind_simps [simp, kres_simps]:
  "kbind (Inl e) f = Inl e"
  "kbind (Inr x) f = f x"
  by (simp_all add: kbind_def)

lemma kbind_eq_Inr [kres_simps]:
  "kbind m f = Inr y \<longleftrightarrow> (\<exists>x. m = Inr x \<and> f x = Inr y)"
  by (cases m) simp_all

lemma kbind_eq_Inl [kres_simps]:
  "kbind m f = Inl e \<longleftrightarrow> m = Inl e \<or> (\<exists>x. m = Inr x \<and> f x = Inl e)"
  by (cases m) simp_all

lemma kbind_InrE:
  assumes "kbind m f = Inr y"
  obtains x where "m = Inr x" "f x = Inr y"
  using assms by (cases m) auto

lemma kassert_eq [simp, kres_simps]:
  "kassert b msg = Inr u \<longleftrightarrow> b"
  "kassert b msg = Inl e \<longleftrightarrow> \<not> b \<and> e = Assert msg"
  by (auto simp: kassert_def)

lemma kassert_True [simp]: "kassert True msg = Inr ()"
  by (simp add: kassert_def)

lemma kbind_assoc: "kbind (kbind m f) g = kbind m (\<lambda>x. kbind (f x) g)"
  by (cases m) simp_all

section \<open>Words read as natural numbers\<close>

lemmas word_order_nat [word_nat] = word_le_nat_alt word_less_nat_alt

lemma unat_bound: "unat (w :: 'a::len word) < 2 ^ LENGTH('a)"
  by (rule unsigned_less)

lemma unat_add_small [word_nat]:
  fixes a b :: "'a::len word"
  assumes "unat a + unat b < 2 ^ LENGTH('a)"
  shows "unat (a + b) = unat a + unat b"
  using assms by (simp add: unat_word_ariths)

lemma unat_diff_le [word_nat]:
  fixes a b :: "'a::len word"
  assumes "unat b \<le> unat a"
  shows "unat (a - b) = unat a - unat b"
  using assms by (simp add: unat_sub word_le_nat_alt)

lemma unat_diff_less:
  fixes a b :: "'a::len word"
  assumes "unat a < unat b"
  shows "unat (a - b) = unat a + 2 ^ LENGTH('a) - unat b"
  using assms by (simp add: unat_sub_if' not_le)

lemma unat_u32_less [simp]: "unat (w :: u32) < 4294967296"
  using unat_bound [of w] by simp

lemma unat_u32_of_nat [simp]:
  "n < 4294967296 \<Longrightarrow> unat (of_nat n :: u32) = n"
  by (simp add: unat_of_nat)

lemma unat_pow2 [simp]:
  "n < LENGTH('a) \<Longrightarrow> unat ((2 :: 'a::len word) ^ n) = 2 ^ n"
  using unat_of_nat [of "2 ^ n", where ?'a = 'a] by simp

lemma unat_and_mask:
  "unat (w AND mask n :: 'a::len word) = unat w mod 2 ^ n"
  unfolding take_bit_eq_mask [symmetric] unsigned_take_bit_eq
  by (rule take_bit_eq_mod)

lemma and_not_mask_add:
  "(w AND NOT (mask n)) + (w AND mask n) = (w :: 'a::len word)"
proof -
  have "(w AND NOT (mask n)) + (w AND mask n) = (w AND NOT (mask n)) OR (w AND mask n)"
    by (rule disjunctive_add) (auto simp: bit_simps)
  also have "\<dots> = w"
    by (rule bit_word_eqI) (auto simp: bit_simps)
  finally show ?thesis .
qed

lemma unat_and_not_mask:
  "unat (w AND NOT (mask n) :: 'a::len word) = unat w - unat w mod 2 ^ n"
proof -
  have "w AND NOT (mask n) = w - (w AND mask n)"
    using and_not_mask_add [of w n] by (simp add: eq_diff_eq)
  then show ?thesis
    by (simp add: unat_diff_le unat_and_mask)
qed

lemma unat_drop_bit: "unat (drop_bit k w :: 'a::len word) = unat w div 2 ^ k"
  unfolding unat_drop_bit_eq by (rule drop_bit_eq_div)

lemma unat_half_less: "1 < w \<Longrightarrow> unat (drop_bit 1 w :: 'a::len word) < unat w"
  unfolding unat_drop_bit by (simp add: word_less_nat_alt)

lemma dvd_unat_add_minus:
  assumes "n \<le> LENGTH('a)"
  shows "2 ^ n dvd unat a + unat (- a :: 'a::len word)"
proof -
  have "(unat a + unat (- a)) mod 2 ^ LENGTH('a) = 0"
    using unat_word_ariths(1) [of a "- a"] by simp
  then show ?thesis
    using assms by (meson dvd_trans le_imp_power_dvd mod_0_imp_dvd)
qed

section \<open>Byte ranges\<close>

lemma mem_byte_range [range_simps]:
  "x \<in> byte_range a n \<longleftrightarrow> unat a \<le> x \<and> x < unat a + unat n"
  by (simp add: byte_range_def)

lemma byte_range_empty [simp, range_simps]: "byte_range a n = {} \<longleftrightarrow> n = 0"
  by (auto simp: byte_range_def unat_eq_0)

lemma byte_range_zero [simp]: "byte_range a 0 = {}"
  by simp

end
