(* ===== verification/Bits.thy ===== *)
theory Bits
  imports KPrelude
begin

text \<open>
  The bit macros of sys/param.h: bit maps over byte arrays, bit fields of a
  32-bit register, rounding, minimum and maximum, and the byte halves of a
  word.  The gate descriptors, the interrupt controllers and the serial port
  build their registers with these fields.
\<close>

section \<open>Definitions\<close>

definition NBBY :: nat where "NBBY = 8"

text \<open>A bit map is an array of bytes; the macros index it by bit number.\<close>

definition setbit :: "(nat \<Rightarrow> u8) \<Rightarrow> nat \<Rightarrow> (nat \<Rightarrow> u8)" where
  "setbit a i = a (i div NBBY := a (i div NBBY) OR push_bit (i mod NBBY) 1)"

definition clrbit :: "(nat \<Rightarrow> u8) \<Rightarrow> nat \<Rightarrow> (nat \<Rightarrow> u8)" where
  "clrbit a i = a (i div NBBY := a (i div NBBY) AND NOT (push_bit (i mod NBBY) 1))"

definition isset :: "(nat \<Rightarrow> u8) \<Rightarrow> nat \<Rightarrow> u8" where
  "isset a i = a (i div NBBY) AND push_bit (i mod NBBY) 1"

definition isclr :: "(nat \<Rightarrow> u8) \<Rightarrow> nat \<Rightarrow> bool" where
  "isclr a i \<longleftrightarrow> a (i div NBBY) AND push_bit (i mod NBBY) 1 = 0"

text \<open>Bit fields: the bits from \<open>i\<close> to \<open>j\<close>, both included, of an unsigned int.\<close>

definition bitmask :: "nat \<Rightarrow> nat \<Rightarrow> u32" where
  "bitmask a b = drop_bit (31 - b) (- 1) AND NOT (push_bit a 1 - 1)"

definition getbits :: "u32 \<Rightarrow> nat \<Rightarrow> nat \<Rightarrow> u32" where
  "getbits a i j = drop_bit i (a AND bitmask i j)"

definition getbit :: "u32 \<Rightarrow> nat \<Rightarrow> u32" where
  "getbit a i = getbits a i i"

definition withbits :: "u32 \<Rightarrow> nat \<Rightarrow> nat \<Rightarrow> u32 \<Rightarrow> u32" where
  "withbits a i j v = (a AND NOT (bitmask i j)) OR (push_bit i v AND bitmask i j)"

definition withbit :: "u32 \<Rightarrow> nat \<Rightarrow> u32 \<Rightarrow> u32" where
  "withbit a i v = withbits a i i v"

text \<open>Counting and rounding.\<close>

definition howmany :: "u32 \<Rightarrow> u32 \<Rightarrow> u32" where
  "howmany x y = (x + (y - 1)) div y"

definition rounddown :: "u32 \<Rightarrow> u32 \<Rightarrow> u32" where
  "rounddown x y = (x div y) * y"

definition rounddown2 :: "u32 \<Rightarrow> u32 \<Rightarrow> u32" where
  "rounddown2 x y = x AND NOT (y - 1)"

definition roundup :: "u32 \<Rightarrow> u32 \<Rightarrow> u32" where
  "roundup x y = ((x + (y - 1)) div y) * y"

definition roundup2 :: "u32 \<Rightarrow> u32 \<Rightarrow> u32" where
  "roundup2 x y = (x + (y - 1)) AND NOT (y - 1)"

definition powerof2 :: "u32 \<Rightarrow> bool" where
  "powerof2 x \<longleftrightarrow> (x - 1) AND x = 0"

definition MAX_int :: "'a::linorder \<Rightarrow> 'a \<Rightarrow> 'a" where
  "MAX_int a b = (if a > b then a else b)"

definition MIN_int :: "'a::linorder \<Rightarrow> 'a \<Rightarrow> 'a" where
  "MIN_int a b = (if a < b then a else b)"

definition LOW_BYTE :: "u32 \<Rightarrow> u32" where
  "LOW_BYTE w = w AND 0xff"

definition HIGH_BYTE :: "u32 \<Rightarrow> u32" where
  "HIGH_BYTE w = LOW_BYTE (drop_bit 8 w)"

section \<open>Bit fields\<close>

named_theorems bitfield_simps

lemma push_one_minus_one: "push_bit n 1 - 1 = (mask n :: 'a::len word)"
  by (simp add: mask_eq_exp_minus_1)

lemma bit_bitmask [bitfield_simps]:
  assumes "j < 32"
  shows "bit (bitmask i j) k \<longleftrightarrow> i \<le> k \<and> k \<le> j"
  using assms unfolding bitmask_def push_one_minus_one
  by (auto simp: bit_simps)

lemma bit_getbits [bitfield_simps]:
  assumes "j < 32"
  shows "bit (getbits a i j) k \<longleftrightarrow> i + k \<le> j \<and> bit a (i + k)"
  using assms by (auto simp: getbits_def bit_simps bitfield_simps)

lemma bit_withbits [bitfield_simps]:
  assumes "j < 32"
  shows "bit (withbits a i j v) k \<longleftrightarrow>
    (if i \<le> k \<and> k \<le> j then bit v (k - i) else bit a k)"
  using assms
  by (auto simp: withbits_def bit_simps bitfield_simps dest: bit_imp_le_length)

lemma getbits_withbits_same:
  assumes "i \<le> j" "j < 32"
  shows "getbits (withbits a i j v) i j = take_bit (Suc (j - i)) v"
  using assms by (intro bit_word_eqI) (auto simp: bitfield_simps bit_simps)

lemma getbits_withbits_other:
  assumes "j < 32" "j' < 32" "j < i' \<or> j' < i"
  shows "getbits (withbits a i j v) i' j' = getbits a i' j'"
  using assms by (intro bit_word_eqI) (auto simp: bitfield_simps bit_simps)

lemma withbits_same:
  assumes "j < 32"
  shows "withbits a i j (getbits a i j) = a"
  using assms by (intro bit_word_eqI) (auto simp: bitfield_simps)

lemma withbits_overwrite:
  assumes "j < 32"
  shows "withbits (withbits a i j v) i j w = withbits a i j w"
  using assms by (intro bit_word_eqI) (auto simp: bitfield_simps)

lemma withbits_commute:
  assumes "j < 32" "j' < 32" "j < i' \<or> j' < i"
  shows "withbits (withbits a i j v) i' j' w = withbits (withbits a i' j' w) i j v"
  using assms by (intro bit_word_eqI) (auto simp: bitfield_simps)

section \<open>Bit maps\<close>

lemma isset_iff_bit: "isset a i \<noteq> 0 \<longleftrightarrow> bit (a (i div 8)) (i mod 8)"
proof -
  have "isset a i = (if bit (a (i div 8)) (i mod 8) then push_bit (i mod 8) 1 else 0)"
    by (rule bit_word_eqI) (auto simp: isset_def NBBY_def bit_simps)
  moreover have "push_bit (i mod 8) 1 \<noteq> (0 :: u8)"
    by (simp add: push_bit_eq_mult)
  ultimately show ?thesis by simp
qed

lemma isclr_iff: "isclr a i \<longleftrightarrow> isset a i = 0"
  by (simp add: isclr_def isset_def)

lemma div_mod_eq_8: "i div 8 = j div 8 \<Longrightarrow> i mod 8 = j mod 8 \<Longrightarrow> i = (j :: nat)"
  by (metis div_mult_mod_eq)

lemma isset_setbit: "isset (setbit a i) j \<noteq> 0 \<longleftrightarrow> i = j \<or> isset a j \<noteq> 0"
  unfolding isset_iff_bit
  by (auto simp: setbit_def NBBY_def bit_simps dest: div_mod_eq_8)

lemma isset_clrbit: "isset (clrbit a i) j \<noteq> 0 \<longleftrightarrow> i \<noteq> j \<and> isset a j \<noteq> 0"
  unfolding isset_iff_bit
  by (auto simp: clrbit_def NBBY_def bit_simps dest: div_mod_eq_8)

section \<open>Rounding\<close>

lemma len32: "LENGTH(32) = 32"
  by simp

lemma unat_exp_minus_one:
  assumes "n < 32"
  shows "unat ((2 :: u32) ^ n - 1) = 2 ^ n - 1"
  using assms by (simp add: unat_diff_le)

lemma roundup2_mask: "n < 32 \<Longrightarrow> roundup2 x (2 ^ n) = (x + mask n) AND NOT (mask n)"
  by (simp add: roundup2_def mask_eq_exp_minus_1)

lemma rounddown2_mask: "rounddown2 x (2 ^ n) = x AND NOT (mask n)"
  by (simp add: rounddown2_def mask_eq_exp_minus_1)

lemma unat_rounddown2: "unat (rounddown2 x (2 ^ n)) = unat x - unat x mod 2 ^ n"
  by (simp add: rounddown2_mask unat_and_not_mask)

lemma bit_word_div: "bit (w :: 'a::len word) n \<longleftrightarrow> odd (unat w div 2 ^ n)"
proof -
  have "bit (unat w) n \<longleftrightarrow> bit w n"
    by (auto simp: bit_unsigned_iff possible_bit_def)
  then show ?thesis
    by (simp add: bit_iff_odd)
qed

lemma powerof2_iff: "powerof2 x \<longleftrightarrow> x = 0 \<or> (\<exists>n<32. x = 2 ^ n)"
proof (cases "x = 0")
  case False
  then obtain n where n: "2 ^ n \<le> unat x" "unat x < 2 ^ Suc n"
    using ex_power_ivl1 [of 2 "unat x"] by (auto simp: unat_gt_0 Suc_le_eq)
  have "(2 :: nat) ^ n < 2 ^ 32"
    using n(1) unat_bound [of x] by (simp add: le_less_trans)
  then have n32: "n < 32"
    by (rule power_less_imp_less_exp [rotated]) simp
  show ?thesis
  proof (cases "x = 2 ^ n")
    case True
    have "(x - 1) AND x = 0"
      by (rule bit_word_eqI)
        (auto simp: True bit_simps simp flip: mask_eq_exp_minus_1)
    then show ?thesis
      using True n32 by (auto simp: powerof2_def)
  next
    case neq: False
    have "unat x \<noteq> 2 ^ n"
      using neq n32 by (simp add: word_unat_eq_iff)
    then have "unat x div 2 ^ n = 1" "(unat x - 1) div 2 ^ n = 1"
      using n by (auto intro!: div_nat_eqI)
    moreover have "unat (x - 1) = unat x - 1"
      using False by (simp add: unat_diff_le Suc_le_eq unat_gt_0)
    ultimately have "bit ((x - 1) AND x) n"
      unfolding bit_and_iff by (simp add: bit_word_div)
    then have "(x - 1) AND x \<noteq> 0"
      by auto
    moreover have "x \<noteq> 2 ^ m" if "m < 32" for m
    proof
      assume "x = 2 ^ m"
      then have "unat x = 2 ^ m"
        using that by simp
      then have "(2::nat) ^ n < 2 ^ m" "(2::nat) ^ m < 2 ^ Suc n"
        using n \<open>unat x \<noteq> 2 ^ n\<close> by auto
      then show False
        by (simp only: power_strict_increasing_iff)
    qed
    ultimately show ?thesis
      using False by (auto simp: powerof2_def)
  qed
qed (simp add: powerof2_def)

lemma roundup2_eq_roundup:
  assumes "n < 32" "unat x + 2 ^ n \<le> 2 ^ 32"
  shows "roundup2 x (2 ^ n) = roundup x (2 ^ n)"
proof (rule iffD2 [OF word_unat_eq_iff])
  have add: "unat (x + mask n) = unat x + (2 ^ n - 1)"
    using assms unat_exp_minus_one [of n]
    by (subst unat_add_small) (auto simp: mask_eq_exp_minus_1)
  let ?s = "unat x + (2 ^ n - 1)"
  have "?s div 2 ^ n * 2 ^ n \<le> ?s"
    by simp
  also have "?s < 2 ^ 32"
    using assms(2) by simp
  finally have lt: "?s div 2 ^ n * 2 ^ n < 2 ^ 32" .
  have "unat ((x + mask n) div 2 ^ n * 2 ^ n) = ?s div 2 ^ n * 2 ^ n mod 2 ^ 32"
    using assms(1) add by (simp only: unat_word_ariths(2) unat_div unat_pow2 len32)
  then have "unat (roundup x (2 ^ n)) = ?s div 2 ^ n * 2 ^ n"
    using lt by (simp add: roundup_def mask_eq_exp_minus_1)
  moreover have "unat (roundup2 x (2 ^ n)) = ?s - ?s mod 2 ^ n"
    using assms(1) add by (simp add: roundup2_mask unat_and_not_mask)
  ultimately show "unat (roundup2 x (2 ^ n)) = unat (roundup x (2 ^ n))"
    by (simp add: minus_mod_eq_div_mult)
qed

section \<open>Properties\<close>

text \<open>
  \<open>getbits\<close> after \<open>withbits\<close> on the same field reads the low bits of the value that
  fit the field; a disjoint field reads as before; writing back what a field
  holds changes nothing.
\<close>

theorem withbits_getbits:
  assumes "i \<le> j" "j < 32" "i' \<le> j'" "j' < 32" "j < i' \<or> j' < i"
  shows "getbits (withbits a i j v) i j = take_bit (Suc (j - i)) v
    \<and> getbits (withbits a i j v) i' j' = getbits a i' j'
    \<and> withbits a i j (getbits a i j) = a"
  using assms by (simp add: getbits_withbits_same getbits_withbits_other withbits_same)

theorem withbits_getbits_witness:
  "getbits (withbits 0xABCD1234 8 15 0x77) 8 15 = 0x77
   \<and> getbits (withbits 0xABCD1234 8 15 0x77) 16 23 = getbits 0xABCD1234 16 23"
  using withbits_getbits [of 8 15 16 23 "0xABCD1234" "0x77"] by simp

end
