(* ===== verification/MemUtils.thy ===== *)
theory MemUtils
  imports Bits
begin

text \<open>
  utils/mem.c and mm/layout.c: alignment of addresses, integer logarithms,
  the byte-level memory routines over an explicit byte store, and the static
  bump allocator that serves the kernel before its memory maps exist.
\<close>

section \<open>Definitions\<close>

definition PAGE_SIZE :: u32 where "PAGE_SIZE = 0x1000"

definition PT_ENTRIES :: u32 where "PT_ENTRIES = 1024"

definition MAX_VA :: u32 where "MAX_VA = - 1"

text \<open>
  The units are kept as the number of steps of the loop: the enum has five
  members and \<open>human_memory_suffixes\<close> five entries, the counter has no such bound.
\<close>

datatype human_memory_units = BYTES | KILOBYTES | MEGABYTES | GIGABYTES | TERABYTES

definition human_memory_suffixes :: string where
  "human_memory_suffixes = ''BKMGT''"

fun human_size_loop :: "nat \<Rightarrow> nat \<Rightarrow> nat \<times> nat" where
  "human_size_loop sz units =
     (if 1024 \<le> sz then human_size_loop (sz div 1024) (Suc units) else (sz, units))"

declare human_size_loop.simps [simp del]

definition memory_calc_human_size :: "u64 \<Rightarrow> u32 \<times> nat" where
  "memory_calc_human_size sz =
     (let (r, u) = human_size_loop (unat sz) 0 in (of_nat r, u))"

definition align_address :: "u32 \<Rightarrow> u32 \<Rightarrow> u32" where
  "align_address address align = (address + align - 1) AND NOT (align - 1)"

definition align_padding :: "u32 \<Rightarrow> u32 \<Rightarrow> u32" where
  "align_padding address align = (- address) AND (align - 1)"

definition align_address_down :: "u32 \<Rightarrow> u32 \<Rightarrow> u32" where
  "align_address_down address align = address AND NOT (align - 1)"

definition align_padding_down :: "u32 \<Rightarrow> u32 \<Rightarrow> u32" where
  "align_padding_down address align = address AND (align - 1)"

definition page_align :: "u32 \<Rightarrow> u32" where
  "page_align addr = align_address addr PAGE_SIZE"

definition page_align_down :: "u32 \<Rightarrow> u32" where
  "page_align_down addr = align_address_down addr PAGE_SIZE"

text \<open>The loop that the four logarithms share, at the width of its argument.\<close>

function log2_loop :: "'a::len word \<Rightarrow> nat \<Rightarrow> nat" where
  "log2_loop n i = (if n > 1 then log2_loop (drop_bit 1 n) (Suc i) else i)"
  by pat_completeness auto
termination
  by (relation "measure (\<lambda>(n, _). unat n)")
    (simp_all only: wf_measure in_measure prod.case unat_half_less)

declare log2_loop.simps [simp del]

definition log2_i :: "u32 \<Rightarrow> nat" where "log2_i n = log2_loop n 0"

definition log2_l :: "u32 \<Rightarrow> nat" where "log2_l n = log2_loop n 0"

definition log2_32 :: "u32 \<Rightarrow> nat" where "log2_32 n = log2_loop n 0"

definition log2_64 :: "u64 \<Rightarrow> nat" where "log2_64 n = log2_loop n 0"

text \<open>
  Memory is a total store of bytes.  A counted loop over an array is a fold
  over its indices; no index of these loops wraps, since each loop counts up
  to (or down from) a \<open>size_t\<close> and \<open>len_middle\<close> is a multiple of four.
\<close>

type_synonym memory = "u32 \<Rightarrow> u8"

definition store32 :: "memory \<Rightarrow> u32 \<Rightarrow> u32 \<Rightarrow> memory" where
  "store32 m a w =
     m (a := ucast w, a + 1 := ucast (drop_bit 8 w),
        a + 2 := ucast (drop_bit 16 w), a + 3 := ucast (drop_bit 24 w))"

definition load32 :: "memory \<Rightarrow> u32 \<Rightarrow> u32" where
  "load32 m a =
     ucast (m a) OR push_bit 8 (ucast (m (a + 1)))
       OR push_bit 16 (ucast (m (a + 2))) OR push_bit 24 (ucast (m (a + 3)))"

definition FILL_LONG_WITH_BYTE :: "u8 \<Rightarrow> u32" where
  "FILL_LONG_WITH_BYTE b =
     ucast b OR push_bit 8 (ucast b) OR push_bit 16 (ucast b) OR push_bit 24 (ucast b)"

definition fill_bytes :: "memory \<Rightarrow> u32 \<Rightarrow> u8 \<Rightarrow> nat \<Rightarrow> memory" where
  "fill_bytes m b v n = fold (\<lambda>i m. m (b + of_nat i := v)) [0..<n] m"

definition fill_longs :: "memory \<Rightarrow> u32 \<Rightarrow> u32 \<Rightarrow> nat \<Rightarrow> memory" where
  "fill_longs m b w n = fold (\<lambda>i m. store32 m (b + of_nat (4 * i)) w) [0..<n div 4] m"

definition memset :: "memory \<Rightarrow> u32 \<Rightarrow> u8 \<Rightarrow> u32 \<Rightarrow> memory \<times> u32" where
  "memset m addr val len =
     (let word_value = FILL_LONG_WITH_BYTE val;
          len_beginning = align_padding addr 4;
          len_middle = len - len_beginning;
          len_end = align_padding_down len_middle 4;
          len_middle = len_middle - len_end;
          m = fill_bytes m addr val (unat len_beginning);
          word_addr = addr + len_beginning;
          m = fill_longs m word_addr word_value (unat len_middle);
          b_addr = word_addr + len_middle;
          m = fill_bytes m b_addr val (unat len_end)
      in (m, addr))"

definition kmemcpy_b_fwd :: "memory \<Rightarrow> u32 \<Rightarrow> u32 \<Rightarrow> u32 \<Rightarrow> memory" where
  "kmemcpy_b_fwd m dest src len =
     fold (\<lambda>i m. m (dest + of_nat i := m (src + of_nat i))) [0..<unat len] m"

definition kmemcpy_b_rev :: "memory \<Rightarrow> u32 \<Rightarrow> u32 \<Rightarrow> u32 \<Rightarrow> memory" where
  "kmemcpy_b_rev m dest src len =
     fold (\<lambda>i m. m (dest + of_nat i - 1 := m (src + of_nat i - 1)))
       (rev [1..<Suc (unat len)]) m"

text \<open>\<open>memmove\<close> has no return statement, so only the store is modelled.\<close>

definition memmove :: "memory \<Rightarrow> u32 \<Rightarrow> u32 \<Rightarrow> u32 \<Rightarrow> memory" where
  "memmove m dest src len =
     (if dest < src then kmemcpy_b_fwd m dest src len else kmemcpy_b_rev m dest src len)"

definition memcpy :: "memory \<Rightarrow> u32 \<Rightarrow> u32 \<Rightarrow> u32 \<Rightarrow> memory" where
  "memcpy m dest src len = memmove m dest src len"

record layout =
  segment_start :: u32
  memory_start :: u32
  memory_end :: u32

text \<open>
  \<open>KERNEL_VMA\<close> and \<open>_end\<close> are symbols of the linker script, parameters here.
\<close>

definition layout_init :: "u32 \<Rightarrow> u32 \<Rightarrow> layout" where
  "layout_init KERNEL_VMA end_sym =
     \<lparr> segment_start = KERNEL_VMA,
       memory_start = end_sym + 0x1000,
       memory_end = align_address end_sym (PAGE_SIZE * PT_ENTRIES) \<rparr>"

definition physical_address :: "layout \<Rightarrow> u32 \<Rightarrow> u32" where
  "physical_address l kernel_address = kernel_address - segment_start l"

definition kalloc_static :: "layout \<Rightarrow> u32 \<Rightarrow> u32 \<Rightarrow> (u32 \<times> layout) kres" where
  "kalloc_static l sz align =
     (let align = (if align = 0 then 4 else align);
          addr = align_address (memory_start l) align;
          l = l \<lparr> memory_start := addr + sz \<rparr>
      in if memory_start l > memory_end l
         then Inl (Panic ''kalloc_static start > end. OOM'')
         else Inr (addr, l))"

definition kalloc_dup_static ::
    "layout \<Rightarrow> memory \<Rightarrow> u32 \<Rightarrow> u32 \<Rightarrow> u32 \<Rightarrow> (u32 \<times> layout \<times> memory) kres" where
  "kalloc_dup_static l m src sz align =
     kbind (kalloc_static l sz align)
       (\<lambda>(dest, l). Inr (dest, l, memcpy m dest src sz))"

section \<open>Alignment\<close>

named_theorems align_simps

lemma exp_minus_one_mask [align_simps]: "(2 :: u32) ^ n - 1 = mask n"
  by (simp add: mask_eq_exp_minus_1)

lemma align_address_roundup2 [align_simps]: "align_address a y = roundup2 a y"
  by (simp add: align_address_def roundup2_def algebra_simps)

lemma align_address_down_rounddown2 [align_simps]:
  "align_address_down a y = rounddown2 a y"
  by (simp add: align_address_down_def rounddown2_def)

lemma unat_align_address_down:
  "unat (align_address_down a (2 ^ n)) = unat a - unat a mod 2 ^ n"
  by (simp add: align_simps unat_rounddown2)

lemma unat_align_padding_down:
  "unat (align_padding_down a (2 ^ n)) = unat a mod 2 ^ n"
  by (simp add: align_padding_down_def align_simps unat_and_mask)

lemma unat_align_padding:
  "unat (align_padding a (2 ^ n)) = unat (- a) mod 2 ^ n"
  by (simp add: align_padding_def align_simps unat_and_mask)

lemma align_padding_less: "unat (align_padding a (2 ^ n)) < 2 ^ n"
  by (simp add: unat_align_padding)

lemma align_padding_aligns:
  assumes "n < 32"
  shows "2 ^ n dvd unat a + unat (align_padding a (2 ^ n))"
  using dvd_unat_add_minus [of n a] assms
  by (simp add: unat_align_padding dvd_eq_mod_eq_0 mod_add_right_eq)

lemma unat_align_address:
  assumes "n < 32" "unat a + 2 ^ n \<le> 2 ^ 32"
  shows "unat (align_address a (2 ^ n)) = (unat a + (2 ^ n - 1)) div 2 ^ n * 2 ^ n"
proof -
  have "unat (a + mask n) = unat a + (2 ^ n - 1)"
    using assms unat_exp_minus_one [of n]
    by (subst unat_add_small) (auto simp: mask_eq_exp_minus_1)
  then show ?thesis
    using assms(1)
    by (simp add: align_address_roundup2 roundup2_mask unat_and_not_mask minus_mod_eq_div_mult)
qed

lemma align_address_bounds:
  assumes "n < 32" "unat a + 2 ^ n \<le> 2 ^ 32"
  shows "2 ^ n dvd unat (align_address a (2 ^ n))"
    and "unat a \<le> unat (align_address a (2 ^ n))"
    and "unat (align_address a (2 ^ n)) < unat a + 2 ^ n"
proof -
  let ?r = "(unat a + (2 ^ n - 1)) div 2 ^ n * 2 ^ n"
  have eq: "unat (align_address a (2 ^ n)) = ?r"
    using assms by (rule unat_align_address)
  show "2 ^ n dvd unat (align_address a (2 ^ n))"
    by (simp add: eq)
  have "?r + (unat a + (2 ^ n - 1)) mod 2 ^ n = unat a + (2 ^ n - 1)"
    by (rule div_mult_mod_eq)
  moreover have "(unat a + (2 ^ n - 1)) mod 2 ^ n < 2 ^ n"
    by simp
  ultimately show "unat a \<le> unat (align_address a (2 ^ n))"
    and "unat (align_address a (2 ^ n)) < unat a + 2 ^ n"
    unfolding eq by linarith+
qed

lemma aligned_unique:
  assumes "d dvd x" "d dvd y" "a \<le> x" "a \<le> y" "x < a + d" "y < a + (d :: nat)"
  shows "x = y"
proof (rule ccontr)
  assume "x \<noteq> y"
  then consider "x < y" | "y < x"
    by linarith
  then show False
  proof cases
    case 1
    then have "d dvd y - x" "0 < y - x" "y - x < d"
      using assms by (auto intro: dvd_diff_nat)
    then show False
      using nat_dvd_not_less by blast
  next
    case 2
    then have "d dvd x - y" "0 < x - y" "x - y < d"
      using assms by (auto intro: dvd_diff_nat)
    then show False
      using nat_dvd_not_less by blast
  qed
qed

lemma align_address_eq_add_padding:
  assumes "n < 32" "unat a + 2 ^ n \<le> 2 ^ 32"
  shows "unat (align_address a (2 ^ n)) = unat a + unat (align_padding a (2 ^ n))"
  using align_address_bounds [OF assms] align_padding_aligns [OF assms(1), of a]
    align_padding_less [of a n]
  by (intro aligned_unique [of "2 ^ n" _ _ "unat a"]) auto

section \<open>Logarithms and sizes\<close>

lemma log2_loop_spec:
  assumes "n \<noteq> 0"
  shows "2 ^ (log2_loop n i - i) \<le> unat n \<and> unat n < 2 ^ Suc (log2_loop n i - i) \<and> i \<le> log2_loop n i"
  using assms
proof (induction n i rule: log2_loop.induct)
  case (1 n i)
  show ?case
  proof (cases "n > 1")
    case True
    let ?h = "drop_bit 1 n"
    have half: "unat ?h = unat n div 2"
      by (simp only: unat_drop_bit power_one_right)
    have h0: "?h \<noteq> 0"
      using True half by (auto simp: word_less_nat_alt simp flip: unat_eq_zero)
    have ih: "2 ^ (log2_loop ?h (Suc i) - Suc i) \<le> unat n div 2"
        "unat n div 2 < 2 ^ Suc (log2_loop ?h (Suc i) - Suc i)" "Suc i \<le> log2_loop ?h (Suc i)"
      using 1(1) [OF True h0] unfolding half by blast+
    then have "log2_loop ?h (Suc i) - i = Suc (log2_loop ?h (Suc i) - Suc i)"
      by simp
    moreover have "log2_loop n i = log2_loop ?h (Suc i)"
      using True by (subst log2_loop.simps) simp
    ultimately show ?thesis
      using ih by auto
  next
    case False
    then have "unat n = 1"
      using 1(2) by (auto simp: word_less_nat_alt not_less le_Suc_eq unat_eq_zero)
    then show ?thesis
      using False by (subst (1 2 3) log2_loop.simps) simp
  qed
qed

lemma human_size_loop_spec:
  assumes "human_size_loop s u = (r, v)"
  shows "u \<le> v \<and> r < 1024 \<and> r = s div 1024 ^ (v - u) \<and> (u < v \<longrightarrow> 0 < r)"
  using assms
proof (induction s u rule: human_size_loop.induct)
  case (1 s u)
  show ?case
  proof (cases "1024 \<le> s")
    case True
    then have eq: "human_size_loop (s div 1024) (Suc u) = (r, v)"
      using 1(2) by (subst (asm) human_size_loop.simps) simp
    have *: "Suc u \<le> v" "r < 1024" "r = s div 1024 div 1024 ^ (v - Suc u)"
        "Suc u < v \<longrightarrow> 0 < r"
      using 1(1) [OF True eq] by auto
    moreover have "v - u = Suc (v - Suc u)"
      using *(1) by simp
    moreover have "0 < r"
    proof (cases "Suc u = v")
      case True
      then show ?thesis using * \<open>1024 \<le> s\<close> by (simp add: div_greater_zero_iff)
    qed (use * in simp)
    ultimately show ?thesis
      by (simp add: div_mult2_eq)
  next
    case False
    then show ?thesis
      using 1(2) by (subst (asm) human_size_loop.simps) simp
  qed
qed

section \<open>Filling and copying\<close>

lemma word_offset_iff:
  assumes "n \<le> 2 ^ 32"
  shows "(\<exists>i<n. x = b + of_nat i) \<longleftrightarrow> unat (x - b :: u32) < n"
proof
  assume "\<exists>i<n. x = b + of_nat i"
  then show "unat (x - b) < n"
    using assms by (auto simp: unat_of_nat)
next
  assume "unat (x - b) < n"
  then show "\<exists>i<n. x = b + of_nat i"
    by (intro exI [of _ "unat (x - b)"]) simp
qed

lemma fill_bytes_Suc: "fill_bytes m b v (Suc n) = (fill_bytes m b v n) (b + of_nat n := v)"
  by (simp add: fill_bytes_def)

lemma fill_bytes_apply:
  assumes "n \<le> 2 ^ 32"
  shows "fill_bytes m b v n x = (if unat (x - b) < n then v else m x)"
proof -
  have "fill_bytes m b v n x = (if \<exists>i<n. x = b + of_nat i then v else m x)"
    by (induction n) (auto simp: fill_bytes_Suc less_Suc_eq, simp_all add: fill_bytes_def)
  then show ?thesis
    using assms by (simp only: word_offset_iff)
qed

lemma fill_long_bytes:
  "ucast (FILL_LONG_WITH_BYTE b) = b"
  "ucast (drop_bit 8 (FILL_LONG_WITH_BYTE b)) = b"
  "ucast (drop_bit 16 (FILL_LONG_WITH_BYTE b)) = b"
  "ucast (drop_bit 24 (FILL_LONG_WITH_BYTE b)) = b"
  by (rule bit_word_eqI; auto simp: FILL_LONG_WITH_BYTE_def bit_simps dest: bit_imp_le_length)+

lemma store32_fill:
  "store32 m a (FILL_LONG_WITH_BYTE v) = fill_bytes m a v 4"
  by (simp add: store32_def fill_long_bytes fill_bytes_def upt_rec)

lemma fill_bytes_add:
  "fill_bytes m b v (k + n) = fill_bytes (fill_bytes m b v k) (b + of_nat k) v n"
  by (induction n) (simp_all add: fill_bytes_Suc algebra_simps, simp add: fill_bytes_def)

lemma fill_longs_fill:
  "fill_longs m b (FILL_LONG_WITH_BYTE v) (4 * n) = fill_bytes m b v (4 * n)"
proof (induction n)
  case (Suc n)
  have "fill_longs m b (FILL_LONG_WITH_BYTE v) (4 * Suc n)
      = fill_bytes (fill_bytes m b v (4 * n)) (b + of_nat (4 * n)) v 4"
    using Suc by (simp add: fill_longs_def store32_fill)
  also have "\<dots> = fill_bytes m b v (4 * n + 4)"
    by (simp only: fill_bytes_add)
  finally show ?case
    by (simp add: add.commute)
qed (simp add: fill_longs_def fill_bytes_def)

text \<open>The lengths of the three loops of \<open>memset\<close> add up to \<open>len\<close> modulo \<open>2 ^ 32\<close>.\<close>

lemma memset_fill:
  "memset m a v len =
     (fill_bytes m a v (unat (align_padding a 4) + unat (len - align_padding a 4)), a)"
proof -
  let ?p = "align_padding a 4"
  let ?mid = "len - ?p"
  let ?e = "align_padding_down ?mid 4"
  have e: "unat ?e = unat ?mid mod 4"
    using unat_align_padding_down [of ?mid 2] by simp
  then have "unat (?mid - ?e) = unat ?mid - unat ?mid mod 4"
    by (simp add: unat_diff_le)
  then have mid: "unat (?mid - ?e) = 4 * (unat ?mid div 4)"
    by (simp add: minus_mod_eq_mult_div)
  have "memset m a v len =
      (fill_bytes (fill_bytes (fill_bytes m a v (unat ?p)) (a + ?p) v (4 * (unat ?mid div 4)))
        (a + ?p + (?mid - ?e)) v (unat ?mid mod 4), a)"
    by (simp only: memset_def Let_def mid e fill_longs_fill)
  also have "\<dots> = (fill_bytes m a v (unat ?p + (4 * (unat ?mid div 4) + unat ?mid mod 4)), a)"
  proof -
    have "?mid - ?e = of_nat (4 * (unat ?mid div 4))"
      by (metis mid of_nat_unat ucast_id)
    then show ?thesis
      by (simp only: fill_bytes_add of_nat_unat ucast_id)
  qed
  finally show ?thesis
    by simp
qed

lemma two_pow_32: "(4294967296 :: u32) = 0"
  by simp

lemma memset_apply:
  "fst (memset m a v len) x =
     (if len < align_padding a 4 \<or> x - a < len then v else m x)"
proof -
  let ?p = "align_padding a 4"
  have p4: "unat ?p < 4"
    using align_padding_less [of a 2] by simp
  show ?thesis
  proof (cases "len < ?p")
    case True
    then have "unat ?p + unat (len - ?p) = 2 ^ 32 + unat len"
      using p4 by (simp add: word_less_nat_alt unat_diff_less)
    then have "fst (memset m a v len) = fill_bytes (fill_bytes m a v (2 ^ 32)) a v (unat len)"
      using fill_bytes_add [of m a v "2 ^ 32" "unat len"] two_pow_32
      by (simp add: memset_fill)
    then show ?thesis
      using True unat_u32_less [of len] by (simp add: fill_bytes_apply less_imp_le)
  next
    case False
    then have "unat ?p + unat (len - ?p) = unat len"
      by (simp add: word_less_nat_alt unat_diff_le not_less)
    then show ?thesis
      using False unat_u32_less [of len]
      by (simp add: memset_fill fill_bytes_apply word_less_nat_alt less_imp_le)
  qed
qed

lemma word_offset_eq: "n < 2 ^ 32 \<Longrightarrow> x = b + of_nat n \<longleftrightarrow> unat (x - b :: u32) = n"
  by (auto simp: unat_of_nat)

lemma copy_fwd_apply:
  fixes m :: memory
  assumes "dest < src" "unat src + n \<le> 2 ^ 32"
  shows "fold (\<lambda>i m. m (dest + of_nat i := m (src + of_nat i))) [0..<n] m x
    = (if unat (x - dest) < n then m (src + (x - dest)) else m x)"
  using assms(2)
proof (induction n arbitrary: x)
  case (Suc n)
  define G where "G = fold (\<lambda>i m. m (dest + of_nat i := m (src + of_nat i))) [0..<n] m"
  have ih: "G y = (if unat (y - dest) < n then m (src + (y - dest)) else m y)" for y
    unfolding G_def using Suc.prems by (intro Suc.IH) simp
  have "unat (src + of_nat n) = unat src + n"
    using Suc.prems by (subst unat_add_small) (auto simp: unat_of_nat)
  moreover from this have "unat (src + of_nat n - dest) = unat src + n - unat dest"
    using assms(1) by (subst unat_diff_le) (auto simp: word_less_nat_alt)
  ultimately have "\<not> unat (src + of_nat n - dest) < n"
    using assms(1) by (simp add: word_less_nat_alt)
  then have src: "G (src + of_nat n) = m (src + of_nat n)"
    by (simp only: ih if_False)
  have n: "n < 2 ^ 32"
    using Suc.prems by simp
  define F where "F = fold (\<lambda>i m. m (dest + of_nat i := m (src + of_nat i))) [0..<Suc n] m"
  have F: "F = G (dest + of_nat n := G (src + of_nat n))"
    by (simp add: F_def G_def)
  have "F x = (if unat (x - dest) < Suc n then m (src + (x - dest)) else m x)"
  proof (cases "unat (x - dest) = n")
    case True
    then have "x = dest + of_nat n"
      using word_offset_eq [OF n] by simp
    then show ?thesis
      using True by (simp add: F src)
  next
    case False
    then have "x \<noteq> dest + of_nat n"
      using word_offset_eq [OF n] by simp
    then show ?thesis
      using False by (simp add: F less_Suc_eq ih)
  qed
  then show ?case
    by (simp only: F_def)
qed simp

lemma copy_rev_apply:
  fixes m :: memory
  assumes "src \<le> dest" "unat dest + n \<le> 2 ^ 32"
  shows "fold (\<lambda>i m. m (dest + of_nat i - 1 := m (src + of_nat i - 1))) (rev [1..<Suc n]) m x
    = (if unat (x - dest) < n then m (src + (x - dest)) else m x)"
  using assms(2)
proof (induction n arbitrary: x m)
  case (Suc n)
  let ?m = "m (dest + of_nat n := m (src + of_nat n))"
  have n: "n < 2 ^ 32"
    using Suc.prems by simp
  have keep: "?m (src + of_nat k) = m (src + of_nat k)" if "k < n" for k
  proof -
    have "unat (dest + of_nat n) = unat dest + n" "unat (src + of_nat k) = unat src + k"
      using Suc.prems assms(1) that
      by (subst unat_add_small; force simp: unat_of_nat word_le_nat_alt)+
    then have "src + of_nat k \<noteq> dest + of_nat n"
      using assms(1) that by (auto simp: word_unat_eq_iff word_le_nat_alt)
    then show ?thesis
      by simp
  qed
  let ?f = "\<lambda>i m. m (dest + of_nat i - 1 := m (src + of_nat i - 1))"
  define F where "F = fold ?f (rev [1..<Suc (Suc n)]) m"
  have "rev [1..<Suc (Suc n)] = Suc n # rev [1..<Suc n]" "?f (Suc n) m = ?m"
    by (simp_all add: algebra_simps)
  then have "F = fold ?f (rev [1..<Suc n]) ?m"
    by (simp only: F_def fold_Cons o_apply)
  then have "F x = (if unat (x - dest) < n then ?m (src + (x - dest)) else ?m x)"
    using Suc.prems by (simp only: Suc.IH)
  moreover have "?m (src + (x - dest)) = m (src + (x - dest))" if "unat (x - dest) < n"
    using keep [OF that] by simp
  moreover have "x = dest + of_nat n \<longleftrightarrow> unat (x - dest) = n"
    using word_offset_eq [OF n] .
  ultimately show ?case
    unfolding F_def [symmetric] by (auto simp: less_Suc_eq)
qed simp

lemma memmove_apply:
  assumes "unat src + unat len \<le> 2 ^ 32" "unat dest + unat len \<le> 2 ^ 32"
  shows "memmove m dest src len x = (if x - dest < len then m (src + (x - dest)) else m x)"
proof (cases "dest < src")
  case True
  then have "kmemcpy_b_fwd m dest src len x
      = (if unat (x - dest) < unat len then m (src + (x - dest)) else m x)"
    unfolding kmemcpy_b_fwd_def using assms(1) by (rule copy_fwd_apply)
  then show ?thesis
    using True by (simp add: memmove_def word_less_nat_alt)
next
  case False
  then have "kmemcpy_b_rev m dest src len x
      = (if unat (x - dest) < unat len then m (src + (x - dest)) else m x)"
    unfolding kmemcpy_b_rev_def using assms(2) by (intro copy_rev_apply) (simp_all add: not_less)
  then show ?thesis
    using False by (simp add: memmove_def word_less_nat_alt)
qed

lemma load32_store32: "load32 (store32 m a w) a = w"
proof -
  have "a + 1 \<noteq> a" "a + 2 \<noteq> a" "a + 3 \<noteq> a" "a + 2 \<noteq> a + 1" "a + 3 \<noteq> a + 1" "a + 3 \<noteq> a + 2"
    by simp_all
  note neq = this
  show ?thesis
  proof (rule bit_word_eqI)
    fix n
    assume "n < LENGTH(32)"
    then consider "n < 8" | "8 \<le> n" "n < 16" | "16 \<le> n" "n < 24" | "24 \<le> n" "n < 32"
      by fastforce
    then show "bit (load32 (store32 m a w) a) n = bit w n"
      using neq by cases (auto simp: load32_def store32_def bit_simps)
  qed
qed

section \<open>The static allocator\<close>

text \<open>The part of the layout that is still free: an interval of addresses.\<close>

definition static_ok :: "layout \<Rightarrow> bool" where
  "static_ok l \<longleftrightarrow> memory_start l \<le> memory_end l"

lemma kalloc_static_align0: "kalloc_static l sz 0 = kalloc_static l sz 4"
  by (simp add: kalloc_static_def)

lemma kalloc_static_cases:
  assumes "n < 32" "unat (memory_start l) + 2 ^ n + unat sz \<le> 2 ^ 32"
  defines "a \<equiv> align_address (memory_start l) (2 ^ n)"
  shows "kalloc_static l sz (2 ^ n) =
    (if unat a + unat sz \<le> unat (memory_end l)
     then Inr (a, l \<lparr> memory_start := a + sz \<rparr>)
     else Inl (Panic ''kalloc_static start > end. OOM''))"
proof -
  have "unat a < unat (memory_start l) + 2 ^ n"
    unfolding a_def using assms by (intro align_address_bounds) auto
  then have "unat (a + sz) = unat a + unat sz"
    using assms(2) by (intro unat_add_small) simp
  moreover have "(2 :: u32) ^ n \<noteq> 0"
    using assms(1) by simp
  ultimately show ?thesis
    by (simp add: kalloc_static_def Let_def a_def [symmetric] word_less_nat_alt not_le)
qed

lemma kalloc_static_ok:
  assumes "kalloc_static l sz (2 ^ n) = Inr (a, l')" "n < 32"
    and "unat (memory_start l) + 2 ^ n + unat sz \<le> 2 ^ 32"
  shows "2 ^ n dvd unat a" "memory_start l \<le> a" "unat (memory_start l') = unat a + unat sz"
    and "static_ok l'" "memory_end l' = memory_end l" "segment_start l' = segment_start l"
proof -
  let ?a = "align_address (memory_start l) (2 ^ n)"
  have le: "unat (memory_start l) + 2 ^ n \<le> 2 ^ 32"
    using assms(3) by simp
  have *: "a = ?a" "l' = l \<lparr> memory_start := ?a + sz \<rparr>" "unat ?a + unat sz \<le> unat (memory_end l)"
    using assms(1) kalloc_static_cases [OF assms(2,3)] by (auto split: if_splits)
  show "2 ^ n dvd unat a" "memory_start l \<le> a"
    using align_address_bounds [OF assms(2) le] * by (auto simp: word_le_nat_alt)
  have "unat (?a + sz) = unat ?a + unat sz"
    using *(3) unat_bound [of "memory_end l"] by (intro unat_add_small) (rule le_less_trans)
  then show "unat (memory_start l') = unat a + unat sz" "static_ok l'"
    "memory_end l' = memory_end l" "segment_start l' = segment_start l"
    using * by (simp_all add: static_ok_def word_le_nat_alt)
qed

section \<open>Properties\<close>

text \<open>
  For a power of two, \<open>align_address\<close> gives the least multiple that is not below
  the address, \<open>align_padding\<close> is the distance to it, and \<open>align_address_down\<close> is the
  greatest multiple that is not above.
\<close>

theorem align_address_least:
  assumes "n < 32" "unat a + 2 ^ n \<le> 2 ^ 32"
  shows "2 ^ n dvd unat (align_address a (2 ^ n)) \<and> a \<le> align_address a (2 ^ n)
    \<and> (\<forall>m. 2 ^ n dvd m \<longrightarrow> unat a \<le> m \<longrightarrow> unat (align_address a (2 ^ n)) \<le> m)
    \<and> unat (align_address a (2 ^ n)) = unat a + unat (align_padding a (2 ^ n))
    \<and> unat (align_address_down a (2 ^ n)) = unat a div 2 ^ n * 2 ^ n"
proof (intro conjI allI impI)
  note b = align_address_bounds [OF assms]
  show "2 ^ n dvd unat (align_address a (2 ^ n))" "a \<le> align_address a (2 ^ n)"
    using b by (simp_all add: word_le_nat_alt)
  show "unat (align_address a (2 ^ n)) \<le> m" if "2 ^ n dvd m" "unat a \<le> m" for m
  proof (rule ccontr)
    assume "\<not> unat (align_address a (2 ^ n)) \<le> m"
    then show False
      using aligned_unique [of "2 ^ n" "unat (align_address a (2 ^ n))" m "unat a"] b that by auto
  qed
  show "unat (align_address a (2 ^ n)) = unat a + unat (align_padding a (2 ^ n))"
    using assms by (rule align_address_eq_add_padding)
  show "unat (align_address_down a (2 ^ n)) = unat a div 2 ^ n * 2 ^ n"
    by (simp add: unat_align_address_down minus_mod_eq_div_mult)
qed

theorem align_address_least_witness:
  "unat (align_address 0x1234 (2 ^ 12)) = 0x1234 + unat (align_padding 0x1234 (2 ^ 12))"
  using align_address_least [of 12 "0x1234"] by simp

text \<open>
  C36: \<open>memset\<close> writes exactly the \<open>len\<close> bytes from \<open>addr\<close> when \<open>len\<close> reaches the next
  word boundary; when it does not, the length of the middle part wraps around
  and every byte of the address space is overwritten.
\<close>

theorem memset_exact:
  "fst (memset m a v len) x =
     (if len < align_padding a 4 then v else if x - a < len then v else m x)"
  by (simp add: memset_apply)

text \<open>
  C37: \<open>memmove\<close> copies the source bytes as they were before the call, also when the
  two buffers overlap, and leaves the rest of memory alone.
\<close>

theorem memmove_copies:
  assumes "unat src + unat len \<le> 2 ^ 32" "unat dest + unat len \<le> 2 ^ 32"
  shows "memmove m dest src len x = (if x - dest < len then m (src + (x - dest)) else m x)"
  using assms by (rule memmove_apply)

theorem memmove_copies_witness:
  "memmove (\<lambda>a. if a = 0x10 then 7 else 0) 0x12 0x10 4 0x12 = 7"
  using memmove_copies [of "0x10" 4 "0x12" "\<lambda>a. if a = 0x10 then 7 else 0" "0x12"] by simp

text \<open>
  Two blocks taken one after the other with \<open>kalloc_static\<close> are aligned, disjoint
  and inside the static memory; the second starts where the first ended or later.
\<close>

theorem kalloc_static_disjoint:
  assumes "kalloc_static l sz (2 ^ n) = Inr (a, l')" "kalloc_static l' sz' (2 ^ k) = Inr (b, l'')"
    and "n < 32" "k < 32" "unat (memory_start l) + 2 ^ n + unat sz \<le> 2 ^ 32"
    and "unat (memory_end l) + 2 ^ k + unat sz' \<le> 2 ^ 32"
  shows "2 ^ n dvd unat a \<and> 2 ^ k dvd unat b
    \<and> byte_range a sz \<inter> byte_range b sz' = {}
    \<and> byte_range a sz \<union> byte_range b sz' \<subseteq> {unat (memory_start l) ..< unat (memory_end l)}"
proof -
  note a = kalloc_static_ok [OF assms(1,3,5)]
  have "memory_start l' \<le> memory_end l"
    using a(4,5) by (simp add: static_ok_def)
  then have "unat (memory_start l') + 2 ^ k + unat sz' \<le> 2 ^ 32"
    using assms(6) by (simp add: word_le_nat_alt)
  note b = kalloc_static_ok [OF assms(2,4) this]
  have "unat a + unat sz \<le> unat b" "unat (memory_start l) \<le> unat a"
    "unat b + unat sz' \<le> unat (memory_end l)"
    using a b by (auto simp: word_le_nat_alt static_ok_def)
  then show ?thesis
    using a(1) b(1) by (auto simp: byte_range_def)
qed

theorem kalloc_static_disjoint_witness:
  "byte_range 0x1004 20 \<inter> byte_range 0x2000 16 = {}"
proof -
  let ?l = "\<lparr> segment_start = 0xC0000000, memory_start = 0x1001, memory_end = 0x400000 \<rparr>"
  have "kalloc_static ?l 20 (2 ^ 2) = Inr (0x1004, ?l \<lparr> memory_start := 0x1018 \<rparr>)"
    "kalloc_static (?l \<lparr> memory_start := 0x1018 \<rparr>) 16 (2 ^ 12)
       = Inr (0x2000, ?l \<lparr> memory_start := 0x2010 \<rparr>)"
    by (simp_all add: kalloc_static_def align_address_def)
  then show ?thesis
    using kalloc_static_disjoint [of ?l 20 2 "0x1004" "?l \<lparr> memory_start := 0x1018 \<rparr>" 16 12 "0x2000"]
    by simp
qed

end
