(* ===== verification/UtList.thy ===== *)
theory UtList
  imports KPrelude "HOL-Library.Multiset" "HOL-Library.Sublist"
begin

text \<open>
  The intrusive list macros of libs/uthash/src/utlist.h.  A structure's link
  fields are functions from its address to an optional address (the null
  pointer is \<open>None\<close>); a macro takes the fields it is passed and the head and
  returns the updated ones.  The outer option of a result is \<open>None\<close> when a loop
  over the links never ends, the inner sum holds failed asserts and null
  dereferences.  The last part is the contract of the lists: under the relation
  between links and the list of the nodes, each macro is the list operation of
  the same name, so that the other components may be read at the level of lists.
\<close>

section \<open>Singly linked lists\<close>

type_synonym 'p links = "'p \<Rightarrow> 'p option"

definition LL_PREPEND2 :: "'p links \<times> 'p option \<Rightarrow> 'p \<Rightarrow> ('p links \<times> 'p option) kres option" where
  "LL_PREPEND2 s add = (let (nxt, head) = s in Some (Inr (nxt (add := head), Some add)))"

partial_function (option) ll_find_tail :: "'p links \<Rightarrow> 'p \<Rightarrow> 'p option" where
  "ll_find_tail nxt t = (case nxt t of None \<Rightarrow> Some t | Some u \<Rightarrow> ll_find_tail nxt u)"

definition LL_CONCAT2 :: "'p links \<Rightarrow> 'p option \<Rightarrow> 'p option \<Rightarrow> ('p links \<times> 'p option) option" where
  "LL_CONCAT2 nxt head1 head2 =
     (case head1 of
        None \<Rightarrow> Some (nxt, head2)
      | Some h \<Rightarrow> map_option (\<lambda>t. (nxt (t := head2), head1)) (ll_find_tail nxt h))"

definition LL_APPEND2 :: "'p links \<times> 'p option \<Rightarrow> 'p \<Rightarrow> ('p links \<times> 'p option) kres option" where
  "LL_APPEND2 s add =
     (let (nxt, head) = s; nxt = nxt (add := None) in
      case head of
        None \<Rightarrow> Some (Inr (nxt, Some add))
      | Some h \<Rightarrow> map_option (\<lambda>t. Inr (nxt (t := Some add), head)) (ll_find_tail nxt h))"

text \<open>\<open>while (_tmp->next && (_tmp->next != (el))) _tmp = _tmp->next;\<close>\<close>

partial_function (option) ll_find_prev :: "'p links \<Rightarrow> 'p \<Rightarrow> 'p \<Rightarrow> 'p option" where
  "ll_find_prev nxt el t =
     (case nxt t of
        None \<Rightarrow> Some t
      | Some u \<Rightarrow> if u = el then Some t else ll_find_prev nxt el u)"

definition LL_DELETE2 :: "'p links \<times> 'p option \<Rightarrow> 'p \<Rightarrow> ('p links \<times> 'p option) kres option" where
  "LL_DELETE2 s del =
     (let (nxt, head) = s in
      if head = Some del then Some (Inr (nxt, nxt del))
      else case head of
        None \<Rightarrow> Some (Inl NullDeref)
      | Some h \<Rightarrow>
          map_option
            (\<lambda>t. Inr (if nxt t \<noteq> None then nxt (t := nxt del) else nxt, head))
            (ll_find_prev nxt del h))"

definition LL_PREPEND_ELEM ::
    "'p links \<times> 'p option \<Rightarrow> 'p \<Rightarrow> 'p \<Rightarrow> ('p links \<times> 'p option) kres option" where
  "LL_PREPEND_ELEM s el add =
     (let (nxt, head) = s in
      case head of
        None \<Rightarrow> Some (Inl (Assert ''head != NULL''))
      | Some h \<Rightarrow>
          (let nxt = nxt (add := Some el) in
           if h = el then Some (Inr (nxt, Some add))
           else map_option
             (\<lambda>t. Inr (if nxt t \<noteq> None then nxt (t := Some add) else nxt, head))
             (ll_find_prev nxt el h)))"

partial_function (option) ll_count_from :: "'p links \<Rightarrow> 'p option \<Rightarrow> nat \<Rightarrow> nat option" where
  "ll_count_from nxt el counter =
     (case el of None \<Rightarrow> Some counter | Some e \<Rightarrow> ll_count_from nxt (nxt e) (Suc counter))"

definition LL_COUNT2 :: "'p links \<Rightarrow> 'p option \<Rightarrow> nat option" where
  "LL_COUNT2 nxt head = ll_count_from nxt head 0"

section \<open>Doubly linked lists\<close>

text \<open>The state is the next links, the previous links and the head.\<close>

type_synonym 'p dlist = "'p links \<times> 'p links \<times> 'p option"

definition DL_PREPEND2 :: "'p dlist \<Rightarrow> 'p \<Rightarrow> 'p dlist kres option" where
  "DL_PREPEND2 s add =
     (let (nxt, prv, head) = s; nxt = nxt (add := head) in
      case head of
        Some h \<Rightarrow>
          (let prv = prv (add := prv h); prv = prv (h := Some add) in
           Some (Inr (nxt, prv, Some add)))
      | None \<Rightarrow> Some (Inr (nxt, prv (add := Some add), Some add)))"

definition DL_APPEND2 :: "'p dlist \<Rightarrow> 'p \<Rightarrow> 'p dlist kres option" where
  "DL_APPEND2 s add =
     (let (nxt, prv, head) = s in
      case head of
        Some h \<Rightarrow>
          (let prv = prv (add := prv h) in
           case prv h of
             None \<Rightarrow> Some (Inl NullDeref)
           | Some t \<Rightarrow>
               (let nxt = nxt (t := Some add);
                    prv = prv (h := Some add);
                    nxt = nxt (add := None)
                in Some (Inr (nxt, prv, head))))
      | None \<Rightarrow> Some (Inr (nxt (add := None), prv (add := Some add), Some add)))"

definition DL_DELETE2 :: "'p dlist \<Rightarrow> 'p \<Rightarrow> 'p dlist kres option" where
  "DL_DELETE2 s del =
     (let (nxt, prv, head) = s in
      case prv del of
        None \<Rightarrow> Some (Inl (Assert ''(del)->prev != NULL''))
      | Some p \<Rightarrow>
          if p = del then Some (Inr (nxt, prv, None))
          else if Some del = head then
            (case nxt del of
               None \<Rightarrow> Some (Inl NullDeref)
             | Some n \<Rightarrow> Some (Inr (nxt, prv (n := prv del), nxt del)))
          else
            (let nxt' = nxt (p := nxt del) in
             case nxt' del of
               Some n \<Rightarrow> Some (Inr (nxt', prv (n := prv del), head))
             | None \<Rightarrow>
                 (case head of
                    None \<Rightarrow> Some (Inl NullDeref)
                  | Some h \<Rightarrow> Some (Inr (nxt', prv (h := prv del), head)))))"

definition DL_COUNT2 :: "'p dlist \<Rightarrow> nat option" where
  "DL_COUNT2 s = (let (nxt, _, head) = s in ll_count_from nxt head 0)"

section \<open>Merge sort\<close>

text \<open>
  \<open>LL_SORT2\<close> and \<open>DL_SORT2\<close> at the level of the list of nodes: \<open>p\<close> and \<open>q\<close> are the
  rest of the list from \<open>_ls_p\<close> and \<open>_ls_q\<close>, the result is the run appended to
  the output and the rest from \<open>_ls_q\<close>.
\<close>

function ls_merge ::
    "('a \<Rightarrow> 'a \<Rightarrow> int) \<Rightarrow> nat \<Rightarrow> nat \<Rightarrow> 'a list \<Rightarrow> 'a list \<Rightarrow> 'a list \<times> 'a list" where
  "ls_merge cmp psize qsize p q =
     (if psize = 0 then
        (if qsize > 0 \<and> q \<noteq> [] then
           (let (out, r) = ls_merge cmp psize (qsize - 1) p (tl q) in (hd q # out, r))
         else ([], q))
      else if qsize = 0 \<or> q = [] then
        (let (out, r) = ls_merge cmp (psize - 1) qsize (tl p) q in (hd p # out, r))
      else if cmp (hd p) (hd q) \<le> 0 then
        (let (out, r) = ls_merge cmp (psize - 1) qsize (tl p) q in (hd p # out, r))
      else
        (let (out, r) = ls_merge cmp psize (qsize - 1) p (tl q) in (hd q # out, r)))"
  by pat_completeness auto
termination
  by (relation "measure (\<lambda>(_, psize, qsize, _, _). psize + qsize)") auto

declare ls_merge.simps [simp del]

text \<open>
  One pass over the list: \<open>_ls_psize\<close> is the number of steps \<open>_ls_q\<close> takes, at
  most \<open>insize\<close>.  The third result counts the merges.
\<close>

definition ls_psize :: "nat \<Rightarrow> 'a list \<Rightarrow> nat" where
  "ls_psize insize p = min insize (length p)"

lemma ls_merge_rest: "suffix (snd (ls_merge cmp ps qs p q)) q"
  by (induction cmp ps qs p q rule: ls_merge.induct)
    (subst ls_merge.simps, auto simp: Let_def split: prod.splits
      intro: suffix_order.trans [OF _ suffix_tl])

function ls_pass :: "('a \<Rightarrow> 'a \<Rightarrow> int) \<Rightarrow> nat \<Rightarrow> 'a list \<Rightarrow> 'a list \<times> nat" where
  "ls_pass cmp insize p =
     (if p = [] \<or> insize = 0 then ([], 0)
      else
        (let psize = ls_psize insize p;
             (out, q) = ls_merge cmp psize insize p (drop psize p);
             (outs, nmerges) = ls_pass cmp insize q
         in (out @ outs, Suc nmerges)))"
  by pat_completeness auto
termination
proof (relation "measure (\<lambda>(_, _, p). length p)")
  fix cmp :: "'a \<Rightarrow> 'a \<Rightarrow> int" and insize :: nat and p :: "'a list" and ps x out q
  assume *: "\<not> (p = [] \<or> insize = 0)" "ps = ls_psize insize p"
    "x = ls_merge cmp ps insize p (drop ps p)" "(out, q) = x"
  then have "suffix q (drop ps p)"
    using ls_merge_rest [of cmp ps insize p "drop ps p"] by (metis snd_conv)
  then have "length q \<le> length (drop ps p)"
    by (rule suffix_length_le)
  also have "\<dots> < length p"
    using * by (cases p) (auto simp: ls_psize_def)
  finally show "((cmp, insize, q), (cmp, insize, p)) \<in> measure (\<lambda>(_, _, p). length p)"
    by simp
qed simp

declare ls_pass.simps [simp del]

fun merge_runs :: "('a \<Rightarrow> 'a \<Rightarrow> int) \<Rightarrow> 'a list \<Rightarrow> 'a list \<Rightarrow> 'a list" where
  "merge_runs cmp [] ys = ys"
| "merge_runs cmp xs [] = xs"
| "merge_runs cmp (x # xs) (y # ys) =
     (if cmp x y \<le> 0 then x # merge_runs cmp xs (y # ys)
      else y # merge_runs cmp (x # xs) ys)"

lemma merge_runs_Nil2 [simp]: "merge_runs cmp xs [] = xs"
  by (cases xs) simp_all

lemma ls_merge_eq:
  "ps \<le> length p \<Longrightarrow>
   ls_merge cmp ps qs p q = (merge_runs cmp (take ps p) (take qs q), drop qs q)"
proof (induction cmp ps qs p q rule: ls_merge.induct)
  case (1 cmp ps qs p q)
  show ?case
  proof (cases "ps = 0")
    case True
    then show ?thesis
      using 1(1) by (subst ls_merge.simps) (cases q; cases qs; auto simp: Let_def)
  next
    case False
    then obtain x p' k where p: "p = x # p'" "ps = Suc k"
      using 1(5) by (cases p; cases ps) auto
    show ?thesis
    proof (cases "qs = 0 \<or> q = []")
      case True
      then show ?thesis
        using 1(2,5) p by (subst ls_merge.simps) (auto simp: Let_def)
    next
      case nq: False
      then obtain y q' j where q: "q = y # q'" "qs = Suc j"
        by (cases q; cases qs) auto
      show ?thesis
        using 1(3,4,5) p q by (subst ls_merge.simps) (auto simp: Let_def)
    qed
  qed
qed

lemma mset_merge_runs: "mset (merge_runs cmp xs ys) = mset xs + mset ys"
  by (induction cmp xs ys rule: merge_runs.induct) simp_all

lemma set_merge_runs: "set (merge_runs cmp xs ys) = set xs \<union> set ys"
  using arg_cong [OF mset_merge_runs, of set_mset] by simp

lemma length_merge_runs: "length (merge_runs cmp xs ys) = length xs + length ys"
  using arg_cong [OF mset_merge_runs, of "size" cmp xs ys] by simp

lemma ls_pass_step:
  assumes "p \<noteq> []" "0 < k"
  shows "ls_pass cmp k p =
    (merge_runs cmp (take k p) (take k (drop k p)) @ fst (ls_pass cmp k (drop (2 * k) p)),
     Suc (snd (ls_pass cmp k (drop (2 * k) p))))"
proof (cases "k \<le> length p")
  case True
  then show ?thesis
    using assms by (subst ls_pass.simps)
      (simp add: ls_psize_def ls_merge_eq min_def Let_def mult_2 split_beta)
next
  case False
  then show ?thesis
    using assms by (subst ls_pass.simps)
      (simp add: ls_psize_def ls_merge_eq min_def Let_def ls_pass.simps split_beta)
qed

lemma ls_pass_Nil [simp]: "ls_pass cmp k [] = ([], 0)"
  by (simp add: ls_pass.simps)

lemma pass_induct [case_names Nil step]:
  assumes "P []" "\<And>p. p \<noteq> [] \<Longrightarrow> P (drop (2 * k) p) \<Longrightarrow> P p" "0 < (k :: nat)"
  shows "P p"
proof (induction p rule: length_induct)
  case (1 p)
  then show ?case
    using assms by (cases "p = []") (auto simp: length_greater_0_conv)
qed

lemma mset_ls_pass:
  assumes "0 < k"
  shows "mset (fst (ls_pass cmp k p)) = mset p"
  using assms
proof (induction p rule: pass_induct [of _ k])
  case (step p)
  have "p = take k p @ take k (drop k p) @ drop (2 * k) p"
    by (metis append_take_drop_id drop_drop mult_2)
  then have "mset p = mset (take k p) + mset (take k (drop k p)) + mset (drop (2 * k) p)"
    by (metis mset_append union_assoc)
  then show ?case
    using step assms by (simp add: ls_pass_step mset_merge_runs)
qed (use assms in simp_all)

lemma length_ls_pass:
  assumes "0 < k"
  shows "length (fst (ls_pass cmp k p)) = length p"
  using mset_ls_pass [OF assms, of cmp p] by (metis size_mset)

lemma ls_pass_merges:
  assumes "length p \<le> k" "0 < k"
  shows "snd (ls_pass cmp k p) \<le> 1"
  using assms by (cases "p = []") (auto simp: ls_pass_step)

function ls_sort_loop :: "('a \<Rightarrow> 'a \<Rightarrow> int) \<Rightarrow> nat \<Rightarrow> 'a list \<Rightarrow> 'a list" where
  "ls_sort_loop cmp insize xs =
     (let (out, nmerges) = ls_pass cmp insize xs in
      if nmerges \<le> 1 then out else ls_sort_loop cmp (insize * 2) out)"
  by pat_completeness auto
termination
proof (relation "measure (\<lambda>(_, insize, xs). length xs - insize)")
  fix cmp :: "'a \<Rightarrow> 'a \<Rightarrow> int" and k :: nat and xs :: "'a list" and x out n
  assume *: "x = ls_pass cmp k xs" "(out, n) = x" "\<not> n \<le> 1"
  have k: "0 < k"
    using * by (cases k) (auto simp: ls_pass.simps split: if_splits)
  then have "k < length xs"
    using * ls_pass_merges [of xs k cmp] by (metis not_less snd_conv)
  moreover have "length out = length xs"
    using * length_ls_pass [OF k, of cmp xs] by (metis fst_conv)
  ultimately show "((cmp, k * 2, out), (cmp, k, xs)) \<in> measure (\<lambda>(_, insize, xs). length xs - insize)"
    using k by simp
qed simp

declare ls_sort_loop.simps [simp del]

definition LL_SORT :: "('a \<Rightarrow> 'a \<Rightarrow> int) \<Rightarrow> 'a list \<Rightarrow> 'a list" where
  "LL_SORT cmp xs = (if xs \<noteq> [] then ls_sort_loop cmp 1 xs else xs)"

definition DL_SORT :: "('a \<Rightarrow> 'a \<Rightarrow> int) \<Rightarrow> 'a list \<Rightarrow> 'a list" where
  "DL_SORT cmp xs = (if xs \<noteq> [] then ls_sort_loop cmp 1 xs else xs)"

section \<open>The list operations the macros implement\<close>

definition ll_append :: "'p list \<Rightarrow> 'p \<Rightarrow> 'p list" where
  "ll_append xs add = xs @ [add]"

definition ll_delete :: "'p list \<Rightarrow> 'p \<Rightarrow> 'p list" where
  "ll_delete xs del = remove1 del xs"

fun ll_prepend_elem :: "'p list \<Rightarrow> 'p \<Rightarrow> 'p \<Rightarrow> 'p list" where
  "ll_prepend_elem [] el add = []"
| "ll_prepend_elem (x # xs) el add =
     (if x = el then add # x # xs else x # ll_prepend_elem xs el add)"

fun ll_next :: "'p list \<Rightarrow> 'p \<Rightarrow> 'p option" where
  "ll_next [] el = None"
| "ll_next [x] el = None"
| "ll_next (x # y # xs) el = (if x = el then Some y else ll_next (y # xs) el)"

section \<open>Sorting with a total preorder\<close>

locale comparator =
  fixes cmp :: "'a \<Rightarrow> 'a \<Rightarrow> int"
  assumes cmp_trans: "cmp x y \<le> 0 \<Longrightarrow> cmp y z \<le> 0 \<Longrightarrow> cmp x z \<le> 0"
    and cmp_total: "cmp x y \<le> 0 \<or> cmp y x \<le> 0"
begin

definition le :: "'a \<Rightarrow> 'a \<Rightarrow> bool" where
  "le x y \<longleftrightarrow> cmp x y \<le> 0"

lemma le_total: "\<not> le x y \<Longrightarrow> le y x"
  using cmp_total by (auto simp: le_def)

lemma le_trans: "le x y \<Longrightarrow> le y z \<Longrightarrow> le x z"
  using cmp_trans by (simp add: le_def)

lemma sorted_merge_runs:
  assumes "sorted_wrt le xs" "sorted_wrt le ys"
  shows "sorted_wrt le (merge_runs cmp xs ys)"
proof -
  have "sorted_wrt le (merge_runs c xs ys)" if "c = cmp" for c
    using that assms
  proof (induction c xs ys rule: merge_runs.induct)
    case (3 c x xs y ys)
    then show ?case
      by (auto simp: set_merge_runs le_def [symmetric] intro: le_trans dest: le_total)
  qed simp_all
  then show ?thesis
    by simp
qed

text \<open>Each run of \<open>k\<close> elements, from the front, is sorted.\<close>

definition runs_sorted :: "nat \<Rightarrow> 'a list \<Rightarrow> bool" where
  "runs_sorted k p \<longleftrightarrow> (\<forall>i. sorted_wrt le (take k (drop (i * k) p)))"

lemma runs_sorted_drop: "runs_sorted k p \<Longrightarrow> runs_sorted k (drop (j * k) p)"
  unfolding runs_sorted_def by (auto simp: add_mult_distrib [symmetric] simp del: add_mult_distrib)

lemma runs_sorted_append:
  assumes "sorted_wrt le xs" "length xs = k \<or> (length xs \<le> k \<and> ys = [])" "runs_sorted k ys"
  shows "runs_sorted k (xs @ ys)"
  unfolding runs_sorted_def
proof
  fix i
  show "sorted_wrt le (take k (drop (i * k) (xs @ ys)))"
  proof (cases i)
    case (Suc j)
    then show ?thesis
      using assms(2,3) by (auto simp: runs_sorted_def)
  qed (use assms in auto)
qed

lemma runs_sorted_pass:
  assumes "0 < k" "runs_sorted k p"
  shows "runs_sorted (2 * k) (fst (ls_pass cmp k p))"
  using assms(1) assms(2)
proof (induction p rule: pass_induct [of _ k])
  case (step p)
  let ?r = "drop (2 * k) p"
  have "sorted_wrt le (take k p)" "sorted_wrt le (take k (drop k p))"
    using step.prems(2) unfolding runs_sorted_def by (metis mult_0 drop_0, metis mult_1)
  then have "sorted_wrt le (merge_runs cmp (take k p) (take k (drop k p)))"
    by (rule sorted_merge_runs)
  moreover have "runs_sorted (2 * k) (fst (ls_pass cmp k ?r))"
    using step runs_sorted_drop [of k p 2] by (simp add: mult.commute)
  moreover have "length (merge_runs cmp (take k p) (take k (drop k p))) = min (2 * k) (length p)"
    by (auto simp: length_merge_runs)
  moreover have "fst (ls_pass cmp k ?r) = []" if "length p \<le> 2 * k"
    using that by simp
  ultimately show ?case
    using step.hyps step.prems(1)
    by (auto simp: ls_pass_step intro!: runs_sorted_append)
qed (use assms(1) in \<open>simp_all add: runs_sorted_def\<close>)

lemma pass_single:
  assumes "0 < k" "snd (ls_pass cmp k p) \<le> 1"
  shows "length p \<le> 2 * k"
proof (cases "p = []")
  case False
  then have "snd (ls_pass cmp k (drop (2 * k) p)) = 0"
    using assms by (simp add: ls_pass_step)
  then show ?thesis
    using assms(1) by (cases "drop (2 * k) p = []") (auto simp: ls_pass_step)
qed simp

lemma ls_sort_loop_sorts:
  assumes "0 < k" "runs_sorted k xs"
  shows "sorted_wrt le (ls_sort_loop cmp k xs) \<and> mset (ls_sort_loop cmp k xs) = mset xs"
  using assms
proof (induction "length xs - k" arbitrary: k xs rule: less_induct)
  case less
  obtain out n where on: "ls_pass cmp k xs = (out, n)"
    by force
  have out: "runs_sorted (2 * k) out" "mset out = mset xs" "length out = length xs"
    using runs_sorted_pass [OF less.prems] mset_ls_pass [OF less.prems(1), of cmp xs]
      length_ls_pass [OF less.prems(1), of cmp xs] by (simp_all add: on)
  show ?case
  proof (cases "n \<le> 1")
    case True
    then have "take (2 * k) (drop (0 * (2 * k)) out) = out"
      using pass_single [OF less.prems(1), of xs] on out by simp
    then have "sorted_wrt le out"
      using out(1) unfolding runs_sorted_def by metis
    then show ?thesis
      using True out by (subst (1 2) ls_sort_loop.simps) (simp add: on)
  next
    case False
    then have "k < length xs"
      using ls_pass_merges [of xs k cmp] less.prems(1) on by (metis not_less snd_conv)
    then have "sorted_wrt le (ls_sort_loop cmp (2 * k) out) \<and> mset (ls_sort_loop cmp (2 * k) out) = mset out"
      using less.prems(1) out by (intro less.hyps) auto
    moreover have "ls_sort_loop cmp k xs = ls_sort_loop cmp (2 * k) out"
      using False by (subst ls_sort_loop.simps) (simp add: on mult.commute)
    ultimately show ?thesis
      using out(2) by simp
  qed
qed

lemma runs_sorted_1: "runs_sorted 1 xs"
proof -
  have "sorted_wrt le (take 1 ys)" for ys
    by (cases ys) auto
  then show ?thesis
    by (simp add: runs_sorted_def)
qed

lemma LL_SORT_sorts: "sorted_wrt le (LL_SORT cmp xs) \<and> mset (LL_SORT cmp xs) = mset xs"
  using ls_sort_loop_sorts [of 1 xs] runs_sorted_1 by (simp add: LL_SORT_def)

lemma DL_SORT_sorts: "sorted_wrt le (DL_SORT cmp xs) \<and> mset (DL_SORT cmp xs) = mset xs"
  using ls_sort_loop_sorts [of 1 xs] runs_sorted_1 by (simp add: DL_SORT_def)

end

section \<open>Links as lists\<close>

fun lst :: "'p links \<Rightarrow> 'p option \<Rightarrow> 'p list \<Rightarrow> bool" where
  "lst nxt h [] \<longleftrightarrow> h = None"
| "lst nxt h (x # xs) \<longleftrightarrow> h = Some x \<and> lst nxt (nxt x) xs"

lemma lst_unique: "lst nxt h xs \<Longrightarrow> lst nxt h ys \<Longrightarrow> xs = ys"
proof (induction xs arbitrary: h ys)
  case Nil
  then show ?case by (cases ys) auto
next
  case (Cons x xs)
  then show ?case by (cases ys) auto
qed

lemma lst_append: "lst nxt h (xs @ y # ys) \<Longrightarrow> lst nxt (Some y) (y # ys)"
  by (induction xs arbitrary: h) auto

lemma lst_distinct: "lst nxt h xs \<Longrightarrow> distinct xs"
proof (induction xs arbitrary: h)
  case (Cons x xs)
  have "x \<notin> set xs"
  proof
    assume "x \<in> set xs"
    then obtain as bs where xs: "xs = as @ x # bs"
      by (meson split_list)
    then have "lst nxt (Some x) (x # bs)"
      using Cons.prems lst_append [of nxt h "x # as" x bs] by simp
    moreover have "lst nxt (Some x) (x # xs)"
      using Cons.prems by simp
    ultimately have "x # xs = x # bs"
      by (rule lst_unique [rotated])
    then show False
      using xs by (metis append_eq_conv_conj length_append length_Cons not_add_less2 less_Suc_eq list.inject lessI length_append)
  qed
  then show ?case
    using Cons by auto
qed simp

lemma lst_cong: "(\<And>x. x \<in> set xs \<Longrightarrow> nxt' x = nxt x) \<Longrightarrow> lst nxt' h xs = lst nxt h xs"
  by (induction xs arbitrary: h) auto

lemma lst_upd_other [simp]: "a \<notin> set xs \<Longrightarrow> lst (nxt (a := v)) h xs = lst nxt h xs"
  by (rule lst_cong) auto

fun lseg :: "'p links \<Rightarrow> 'p option \<Rightarrow> 'p list \<Rightarrow> 'p option \<Rightarrow> bool" where
  "lseg nxt h [] e \<longleftrightarrow> h = e"
| "lseg nxt h (x # xs) e \<longleftrightarrow> h = Some x \<and> lseg nxt (nxt x) xs e"

lemma lst_append_iff:
  "lst nxt h (xs @ y # ys) \<longleftrightarrow> lseg nxt h xs (Some y) \<and> lst nxt (nxt y) ys"
  by (induction xs arbitrary: h) auto

lemma lseg_upd_other [simp]: "a \<notin> set xs \<Longrightarrow> lseg (nxt (a := v)) h xs e = lseg nxt h xs e"
  by (induction xs arbitrary: h) auto

lemma ll_find_tail_last:
  "lst nxt (Some h) (h # xs) \<Longrightarrow> ll_find_tail nxt h = Some (last (h # xs))"
proof (induction xs arbitrary: h)
  case Nil
  then show ?case by (subst ll_find_tail.simps) simp
next
  case (Cons x xs)
  then show ?case by (subst ll_find_tail.simps) simp
qed

lemma ll_find_prev_mem:
  "lst nxt (Some h) (h # xs) \<Longrightarrow> h # xs = as @ t # el # bs \<Longrightarrow>
   ll_find_prev nxt el h = Some t"
proof (induction xs arbitrary: h as)
  case (Cons x xs)
  have dist: "distinct (h # x # xs)"
    using Cons.prems(1) by (rule lst_distinct)
  show ?case
  proof (cases as)
    case Nil
    then show ?thesis
      using Cons.prems by (subst ll_find_prev.simps) simp
  next
    case as: (Cons a as')
    then have x: "x # xs = as' @ t # el # bs"
      using Cons.prems(2) by simp
    have nx: "lst nxt (Some x) (x # xs)" "nxt h = Some x"
      using Cons.prems(1) by simp_all
    have "x \<noteq> el"
      using x dist by (cases as') auto
    then show ?thesis
      using Cons.IH [OF nx(1) x] nx(2) by (subst ll_find_prev.simps) simp
  qed
qed simp

lemma lst_snoc:
  assumes "lst nxt h xs" "xs \<noteq> []" "a \<notin> set xs"
  shows "lst (nxt (a := None, last xs := Some a)) h (xs @ [a])"
proof -
  obtain ys y where xs: "xs = ys @ [y]"
    using assms(2) by (cases xs rule: rev_cases) auto
  then have "y \<notin> set ys" "a \<noteq> y" "a \<notin> set ys"
    using lst_distinct [OF assms(1)] assms(3) by auto
  then show ?thesis
    using assms(1) by (simp add: xs lst_append_iff)
qed

lemma LL_PREPEND2_list:
  assumes "lst nxt head xs" "a \<notin> set xs"
  shows "\<exists>nxt' head'. LL_PREPEND2 (nxt, head) a = Some (Inr (nxt', head')) \<and> lst nxt' head' (a # xs)"
  using assms by (simp add: LL_PREPEND2_def)

lemma LL_APPEND2_list:
  assumes "lst nxt head xs" "a \<notin> set xs"
  shows "\<exists>nxt' head'. LL_APPEND2 (nxt, head) a = Some (Inr (nxt', head')) \<and> lst nxt' head' (xs @ [a])"
proof (cases xs)
  case Nil
  then show ?thesis
    using assms by (simp add: LL_APPEND2_def)
next
  case (Cons h ys)
  then have "lst (nxt (a := None)) (Some h) (h # ys)"
    using assms by auto
  then have "ll_find_tail (nxt (a := None)) h = Some (last xs)"
    using Cons ll_find_tail_last by metis
  then have "LL_APPEND2 (nxt, head) a = Some (Inr (nxt (a := None, last xs := Some a), head))"
    using assms Cons by (simp add: LL_APPEND2_def Let_def)
  then show ?thesis
    using lst_snoc assms Cons by (metis list.distinct(1))
qed

lemma LL_DELETE2_list:
  assumes "lst nxt head xs" "d \<in> set xs"
  shows "\<exists>nxt' head'. LL_DELETE2 (nxt, head) d = Some (Inr (nxt', head')) \<and> lst nxt' head' (remove1 d xs)"
proof (cases xs)
  case (Cons h ys)
  show ?thesis
  proof (cases "d = h")
    case True
    then show ?thesis
      using assms Cons by (auto simp: LL_DELETE2_def)
  next
    case False
    have dist: "distinct xs"
      using assms(1) by (rule lst_distinct)
    have "d \<in> set ys"
      using assms(2) False Cons by simp
    then obtain as bs where ys: "ys = as @ d # bs"
      by (meson split_list)
    obtain zs t where zs: "h # as = zs @ [t]"
      by (cases "h # as" rule: rev_cases) auto
    have "xs = (h # as) @ d # bs"
      using Cons ys by simp
    then have xs: "xs = zs @ t # d # bs"
      unfolding zs by simp
    have "lst nxt (Some h) (h # ys)"
      using assms(1) Cons by simp
    then have prev: "ll_find_prev nxt d h = Some t"
      by (rule ll_find_prev_mem) (rule Cons [symmetric, THEN trans, OF xs])
    have nt: "nxt t = Some d" "lseg nxt head zs (Some t)" "lst nxt (nxt d) bs"
      using assms(1) unfolding xs lst_append_iff by simp_all
    have rm: "remove1 d xs = zs @ t # bs"
      using dist unfolding xs by (simp add: remove1_append)
    have "LL_DELETE2 (nxt, head) d = Some (Inr (nxt (t := nxt d), head))"
      using assms(1) Cons False prev nt(1) by (auto simp: LL_DELETE2_def)
    moreover have "lst (nxt (t := nxt d)) head (remove1 d xs)"
      using nt dist [unfolded xs] unfolding rm lst_append_iff by auto
    ultimately show ?thesis
      by blast
  qed
qed (use assms in simp)

lemma LL_PREPEND_ELEM_list:
  assumes "lst nxt head xs" "el \<in> set xs" "a \<notin> set xs"
  shows "\<exists>nxt' head'. LL_PREPEND_ELEM (nxt, head) el a = Some (Inr (nxt', head'))
    \<and> lst nxt' head' (ll_prepend_elem xs el a)"
proof (cases xs)
  case (Cons h ys)
  let ?n = "nxt (a := Some el)"
  have dist: "distinct xs"
    using assms(1) by (rule lst_distinct)
  have n: "lst ?n head xs"
    using assms by simp
  show ?thesis
  proof (cases "el = h")
    case True
    then show ?thesis
      using assms Cons n by (auto simp: LL_PREPEND_ELEM_def)
  next
    case False
    then obtain as bs where ys: "ys = as @ el # bs"
      using assms(2) Cons by (metis set_ConsD split_list)
    obtain zs t where zs: "h # as = zs @ [t]"
      by (cases "h # as" rule: rev_cases) auto
    have "xs = (h # as) @ el # bs"
      using Cons ys by simp
    then have xs: "xs = zs @ t # el # bs"
      unfolding zs by simp
    have "lst ?n (Some h) (h # ys)"
      using n Cons by simp
    then have prev: "ll_find_prev ?n el h = Some t"
      by (rule ll_find_prev_mem) (rule Cons [symmetric, THEN trans, OF xs])
    have nt: "?n t = Some el" "lseg ?n head zs (Some t)" "lst ?n (?n el) bs"
      using n unfolding xs lst_append_iff by simp_all
    have ins: "ll_prepend_elem (zs @ t # el # bs) el a = zs @ t # a # el # bs"
      using dist unfolding xs by (induction zs) auto
    have "LL_PREPEND_ELEM (nxt, head) el a = Some (Inr (?n (t := Some a), head))"
      using assms(1) Cons False prev nt(1) by (auto simp: LL_PREPEND_ELEM_def Let_def)
    moreover have "lst (?n (t := Some a)) head (zs @ t # a # el # bs)"
      using nt dist [unfolded xs] assms(3) [unfolded xs] unfolding lst_append_iff by auto
    ultimately show ?thesis
      unfolding xs ins by blast
  qed
qed (use assms in simp)

lemma ll_count_from_length: "lst nxt h xs \<Longrightarrow> ll_count_from nxt h n = Some (n + length xs)"
proof (induction xs arbitrary: h n)
  case Nil
  then show ?case by (subst ll_count_from.simps) simp
next
  case (Cons x xs)
  then show ?case by (subst ll_count_from.simps) simp
qed

text \<open>The previous links of a list whose first element's predecessor is \<open>p\<close>.\<close>

fun prvs :: "'p links \<Rightarrow> 'p \<Rightarrow> 'p list \<Rightarrow> bool" where
  "prvs prv p [] \<longleftrightarrow> True"
| "prvs prv p (x # xs) \<longleftrightarrow> prv x = Some p \<and> prvs prv x xs"

definition dlst :: "'p dlist \<Rightarrow> 'p list \<Rightarrow> bool" where
  "dlst s xs \<longleftrightarrow>
     (let (nxt, prv, head) = s in lst nxt head xs \<and> (xs \<noteq> [] \<longrightarrow> prvs prv (last xs) xs))"

lemma prvs_upd_other [simp]: "a \<notin> set xs \<Longrightarrow> prvs (prv (a := v)) p xs = prvs prv p xs"
  by (induction xs arbitrary: p) auto

lemma prvs_append: "prvs prv p (xs @ ys) \<longleftrightarrow> prvs prv p xs \<and> prvs prv (last (p # xs)) ys"
  by (induction xs arbitrary: p) auto

lemma dlst_distinct: "dlst s xs \<Longrightarrow> distinct xs"
  by (cases s) (auto simp: dlst_def intro: lst_distinct)

lemma DL_PREPEND2_list:
  assumes "dlst s xs" "a \<notin> set xs"
  shows "\<exists>s'. DL_PREPEND2 s a = Some (Inr s') \<and> dlst s' (a # xs)"
  using assms dlst_distinct [OF assms(1)]
  by (cases s; cases xs) (auto simp: dlst_def DL_PREPEND2_def)

lemma DL_APPEND2_list:
  assumes "dlst s xs" "a \<notin> set xs"
  shows "\<exists>s'. DL_APPEND2 s a = Some (Inr s') \<and> dlst s' (xs @ [a])"
proof (cases xs)
  case Nil
  then show ?thesis
    using assms by (cases s) (auto simp: dlst_def DL_APPEND2_def)
next
  case (Cons h ys)
  obtain nxt prv where s: "s = (nxt, prv, Some h)"
    using assms(1) Cons by (cases s) (auto simp: dlst_def)
  have l: "lst nxt (Some h) xs" and p: "prvs prv (last xs) xs"
    using assms(1) Cons s by (auto simp: dlst_def)
  have ph: "prv h = Some (last xs)" and ys: "prvs prv h ys"
    using p Cons by auto
  have neq: "a \<noteq> h" "a \<notin> set ys" "h \<notin> set ys" "last xs \<noteq> a"
    using assms(2) Cons lst_distinct [OF l] last_in_set [of xs] by auto
  let ?nxt = "nxt (last xs := Some a, a := None)"
  let ?prv = "prv (a := Some (last xs), h := Some a)"
  have "DL_APPEND2 s a = Some (Inr (?nxt, ?prv, Some h))"
    using ph neq by (simp add: DL_APPEND2_def s Let_def)
  moreover have "lst ?nxt (Some h) (xs @ [a])"
    using lst_snoc [OF l _ assms(2)] Cons neq(4) by (simp add: fun_upd_twist)
  moreover have "prvs ?prv a (xs @ [a])"
    using ys neq by (simp add: Cons prvs_append)
  ultimately show ?thesis
    by (auto simp: dlst_def)
qed

lemma DL_DELETE2_head:
  assumes "dlst s (d # xs)"
  shows "\<exists>s'. DL_DELETE2 s d = Some (Inr s') \<and> dlst s' xs"
proof (cases xs)
  case Nil
  then show ?thesis
    using assms by (cases s) (auto simp: dlst_def DL_DELETE2_def)
next
  case (Cons y ys)
  then obtain nxt prv where s: "s = (nxt, prv, Some d)"
    using assms by (cases s) (auto simp: dlst_def)
  have dist: "distinct (d # xs)"
    using assms s lst_distinct [of nxt "Some d" "d # xs"] by (simp add: dlst_def)
  have *: "prv d = Some (last xs)" "nxt d = Some y" "lst nxt (Some y) xs" "prvs prv y ys"
    using assms s Cons by (auto simp: dlst_def)
  have "last xs \<noteq> d"
    using dist Cons last_in_set [of xs] by auto
  then have "DL_DELETE2 s d = Some (Inr (nxt, prv (y := Some (last xs)), Some y))"
    using * by (simp add: DL_DELETE2_def s)
  then show ?thesis
    using * dist Cons by (auto simp: dlst_def)
qed

lemma DL_DELETE2_inner:
  assumes "dlst s (as @ p # d # bs)"
  shows "\<exists>s'. DL_DELETE2 s d = Some (Inr s') \<and> dlst s' (as @ p # bs)"
proof -
  obtain nxt prv h where s: "s = (nxt, prv, h)"
    by (cases s)
  have l: "lst nxt h (as @ p # d # bs)" and pr: "prvs prv (last (d # bs)) (as @ p # d # bs)"
    using assms by (auto simp: dlst_def s)
  have dist: "distinct (as @ p # d # bs)"
    using l by (rule lst_distinct)
  have n: "lseg nxt h as (Some p)" "nxt p = Some d" "lst nxt (nxt d) bs"
    using l unfolding lst_append_iff by auto
  have q: "prvs prv (last (d # bs)) (as @ [p])" "prv d = Some p" "prvs prv d bs"
    using pr by (auto simp: prvs_append)
  obtain hd' where h: "h = Some hd'" "hd' \<in> set (as @ [p])"
    using n(1) by (cases as) auto
  have hd: "h \<noteq> Some d" "p \<noteq> d"
    using h dist by auto
  let ?nxt = "nxt (p := nxt d)"
  have l': "lst ?nxt h (as @ p # bs)"
    using n dist unfolding lst_append_iff by auto
  show ?thesis
  proof (cases bs)
    case Nil
    then have nd: "nxt d = None"
      using n(3) by simp
    have "DL_DELETE2 s d = Some (Inr (?nxt, prv (hd' := Some p), h))"
      using q(2) hd nd h by (simp add: DL_DELETE2_def s Let_def)
    moreover have "prvs (prv (hd' := Some p)) p (as @ [p])"
    proof (cases as)
      case (Cons a as')
      then show ?thesis
        using q(1) h n(1) dist by (auto simp: prvs_append)
    qed (use h in auto)
    ultimately show ?thesis
      using l' Nil by (auto simp: dlst_def)
  next
    case (Cons b bs')
    then have nd: "nxt d = Some b"
      using n(3) by simp
    have "DL_DELETE2 s d = Some (Inr (?nxt, prv (b := Some p), h))"
      using q(2) hd nd by (simp add: DL_DELETE2_def s Let_def)
    moreover have "prvs (prv (b := Some p)) (last bs) (as @ p # bs)"
      using q dist Cons by (auto simp: prvs_append)
    ultimately show ?thesis
      using l' Cons by (auto simp: dlst_def)
  qed
qed

lemma DL_DELETE2_list:
  assumes "dlst s xs" "d \<in> set xs"
  shows "\<exists>s'. DL_DELETE2 s d = Some (Inr s') \<and> dlst s' (remove1 d xs)"
proof -
  obtain as bs where xs: "xs = as @ d # bs" "d \<notin> set as"
    using assms(2) by (meson split_list_first)
  then have rm: "remove1 d xs = as @ bs"
    by (simp add: remove1_append)
  show ?thesis
  proof (cases as rule: rev_cases)
    case Nil
    then show ?thesis
      using DL_DELETE2_head [of s d bs] assms(1) xs rm by simp
  next
    case (snoc zs p)
    then show ?thesis
      using DL_DELETE2_inner [of s zs p d bs] assms(1) xs rm by simp
  qed
qed

section \<open>The contract of the lists\<close>

text \<open>
  What a user of a list macro relies on, whichever links the list has: adding a
  node that is not in the list and deleting one that is do not fail, end, and
  have the effect of the list operation.
\<close>

locale node_list =
  fixes repr :: "'s \<Rightarrow> 'p list \<Rightarrow> bool"
    and prepend :: "'s \<Rightarrow> 'p \<Rightarrow> 's kres option"
    and append_node :: "'s \<Rightarrow> 'p \<Rightarrow> 's kres option"
    and delete_node :: "'s \<Rightarrow> 'p \<Rightarrow> 's kres option"
  assumes repr_distinct: "repr s xs \<Longrightarrow> distinct xs"
    and prepend_repr: "repr s xs \<Longrightarrow> a \<notin> set xs \<Longrightarrow> \<exists>s'. prepend s a = Some (Inr s') \<and> repr s' (a # xs)"
    and append_repr: "repr s xs \<Longrightarrow> a \<notin> set xs \<Longrightarrow> \<exists>s'. append_node s a = Some (Inr s') \<and> repr s' (xs @ [a])"
    and delete_repr: "repr s xs \<Longrightarrow> d \<in> set xs \<Longrightarrow> \<exists>s'. delete_node s d = Some (Inr s') \<and> repr s' (remove1 d xs)"
begin

text \<open>A node moved to the back: the rotation of a run queue.\<close>

lemma move_to_back:
  assumes "repr s xs" "d \<in> set xs"
  shows "\<exists>s' s''. delete_node s d = Some (Inr s') \<and> append_node s' d = Some (Inr s'')
    \<and> repr s'' (remove1 d xs @ [d])"
proof -
  obtain s' where s': "delete_node s d = Some (Inr s')" "repr s' (remove1 d xs)"
    using delete_repr [OF assms] by auto
  moreover have "d \<notin> set (remove1 d xs)"
    using repr_distinct [OF assms(1)] by simp
  ultimately show ?thesis
    using append_repr by metis
qed

lemma prepend_delete:
  assumes "repr s xs" "a \<notin> set xs"
  shows "\<exists>s' s''. prepend s a = Some (Inr s') \<and> delete_node s' a = Some (Inr s'') \<and> repr s'' xs"
proof -
  obtain s' where "prepend s a = Some (Inr s')" "repr s' (a # xs)"
    using prepend_repr [OF assms] by auto
  then show ?thesis
    using delete_repr [of s' "a # xs" a] by auto
qed

lemma append_delete:
  assumes "repr s xs" "a \<notin> set xs"
  shows "\<exists>s' s''. append_node s a = Some (Inr s') \<and> delete_node s' a = Some (Inr s'') \<and> repr s'' xs"
proof -
  obtain s' where "append_node s a = Some (Inr s')" "repr s' (xs @ [a])"
    using append_repr [OF assms] by auto
  then show ?thesis
    using delete_repr [of s' "xs @ [a]" a] assms(2) by (auto simp: remove1_append)
qed

end

interpretation ll: node_list "\<lambda>(nxt, head). lst nxt head" LL_PREPEND2 LL_APPEND2 LL_DELETE2
  by unfold_locales
    (use lst_distinct LL_PREPEND2_list LL_APPEND2_list LL_DELETE2_list in \<open>fastforce+\<close>)

interpretation dl: node_list dlst DL_PREPEND2 DL_APPEND2 DL_DELETE2
  by unfold_locales
    (fact dlst_distinct DL_PREPEND2_list DL_APPEND2_list DL_DELETE2_list)+

section \<open>Properties\<close>

text \<open>
  The singly linked macros implement the list operations: on the links of a list
  they end without failing, and prepend, append, insert before a node and
  delete a node.
\<close>

theorem LL_macros_refine_lists:
  assumes "lst nxt head xs" "a \<notin> set xs" "d \<in> set xs"
  shows "(\<exists>nxt' head'. LL_PREPEND2 (nxt, head) a = Some (Inr (nxt', head')) \<and> lst nxt' head' (a # xs))
    \<and> (\<exists>nxt' head'. LL_APPEND2 (nxt, head) a = Some (Inr (nxt', head')) \<and> lst nxt' head' (ll_append xs a))
    \<and> (\<exists>nxt' head'. LL_DELETE2 (nxt, head) d = Some (Inr (nxt', head')) \<and> lst nxt' head' (ll_delete xs d))
    \<and> (\<exists>nxt' head'. LL_PREPEND_ELEM (nxt, head) d a = Some (Inr (nxt', head'))
         \<and> lst nxt' head' (ll_prepend_elem xs d a))
    \<and> LL_COUNT2 nxt head = Some (length xs)"
  using assms LL_PREPEND2_list LL_APPEND2_list LL_DELETE2_list LL_PREPEND_ELEM_list
    ll_count_from_length [of nxt head xs 0]
  unfolding ll_append_def ll_delete_def LL_COUNT2_def by fastforce

theorem LL_macros_refine_lists_witness:
  "LL_COUNT2 (\<lambda>x :: nat. if x = 1 then Some 2 else None) (Some 1) = Some 2"
  using LL_macros_refine_lists [of "\<lambda>x :: nat. if x = 1 then Some 2 else None" "Some 1" "[1, 2]" 3 2]
  by (simp add: numeral_2_eq_2)

text \<open>
  C34: the doubly linked macros implement the same operations on lists whose head's
  previous link is the tail; deleting a node and appending it again, the rotation
  of the run queue, moves it to the back.
\<close>

theorem DL_macros_refine_lists:
  assumes "dlst s xs" "a \<notin> set xs" "d \<in> set xs"
  shows "(\<exists>s'. DL_PREPEND2 s a = Some (Inr s') \<and> dlst s' (a # xs))
    \<and> (\<exists>s'. DL_APPEND2 s a = Some (Inr s') \<and> dlst s' (xs @ [a]))
    \<and> (\<exists>s'. DL_DELETE2 s d = Some (Inr s') \<and> dlst s' (remove1 d xs))
    \<and> (\<exists>s' s''. DL_DELETE2 s d = Some (Inr s') \<and> DL_APPEND2 s' d = Some (Inr s'')
         \<and> dlst s'' (remove1 d xs @ [d]))"
  using assms dl.prepend_repr dl.append_repr dl.delete_repr dl.move_to_back by meson

theorem DL_macros_refine_lists_witness:
  "\<exists>s'. DL_DELETE2 (\<lambda>x :: nat. if x = 1 then Some 2 else None,
     \<lambda>x. if x = 1 then Some 2 else Some 1, Some 1) 1 = Some (Inr s') \<and> dlst s' [2]"
  using DL_macros_refine_lists [of "(\<lambda>x :: nat. if x = 1 then Some 2 else None,
     \<lambda>x. if x = 1 then Some 2 else Some 1, Some 1)" "[1, 2]" 3 1]
  by (simp add: dlst_def)



end
