(* ===== verification/Range.thy ===== *)
theory Range
  imports MemUtils UtList
begin

text \<open>
  mm/range.h: the macros that generate, for a region type, the operations on
  sorted lists of address ranges.  A region is a record that the instances
  extend with their own fields; a map's list is the list of the addresses of
  its region structures, whose contents are in a store.  The helper functions
  that an instance provides (\<open>name##_alloc\<close>, \<open>name##_free\<close>, \<open>name##_pre_merge\<close>) are
  arguments.  The theory proves what the macros promise: merging is union,
  cutting is difference, adding and subtracting keep the list sorted and
  disjoint and change the set of bytes as they should.
\<close>

section \<open>Ranges\<close>

record mr_region =
  address :: u32
  rsize :: u32

definition END_POINT_LT_END_POINT :: "u32 \<Rightarrow> u32 \<Rightarrow> u32 \<Rightarrow> u32 \<Rightarrow> bool" where
  "END_POINT_LT_END_POINT p_start p_size r_start r_size \<longleftrightarrow>
     p_size \<le> r_size - (p_start - r_start)"

definition END_POINT_GT_START_POINT :: "u32 \<Rightarrow> u32 \<Rightarrow> u32 \<Rightarrow> u32 \<Rightarrow> bool" where
  "END_POINT_GT_START_POINT p_start p_size r_start r_size \<longleftrightarrow>
     p_start \<ge> r_start \<or> p_size \<ge> r_start - p_start"

definition START_POINT_IN_RANGE :: "u32 \<Rightarrow> u32 \<Rightarrow> u32 \<Rightarrow> bool" where
  "START_POINT_IN_RANGE p start sz \<longleftrightarrow> p \<ge> start \<and> p - start < sz"

definition END_POINT_IN_RANGE :: "u32 \<Rightarrow> u32 \<Rightarrow> u32 \<Rightarrow> u32 \<Rightarrow> bool" where
  "END_POINT_IN_RANGE p_start p_size r_start r_size \<longleftrightarrow>
     END_POINT_GT_START_POINT p_start p_size r_start r_size \<and>
     END_POINT_LT_END_POINT p_start p_size r_start r_size"

definition POINT_IN_RANGE :: "u32 \<Rightarrow> u32 \<Rightarrow> u32 \<Rightarrow> bool" where
  "POINT_IN_RANGE p start fin \<longleftrightarrow> p \<ge> start \<and> p \<le> fin"

definition mr_sort_range ::
    "'a mr_region_scheme \<Rightarrow> 'a mr_region_scheme \<Rightarrow> 'a mr_region_scheme \<times> 'a mr_region_scheme" where
  "mr_sort_range r1 r2 = (if address r1 > address r2 then (r2, r1) else (r1, r2))"

definition mr_overlap :: "'a mr_region_scheme \<Rightarrow> 'a mr_region_scheme \<Rightarrow> bool \<times> u32" where
  "mr_overlap a b =
     (if address b \<ge> address a
      then (address b - address a \<le> rsize a,
            MIN_int (rsize b) (rsize a - (address b - address a)))
      else (address a - address b \<le> rsize b,
            MIN_int (rsize a) (rsize b - (address a - address b))))"

text \<open>\<open>Some a'\<close> is the return value true with \<open>*a\<close> updated, \<open>None\<close> is false.\<close>

definition mr_merge ::
    "('a mr_region_scheme \<Rightarrow> 'a mr_region_scheme \<Rightarrow> bool) \<Rightarrow>
     'a mr_region_scheme \<Rightarrow> 'a mr_region_scheme \<Rightarrow> 'a mr_region_scheme option" where
  "mr_merge pre_merge out_param b0 =
     (if \<not> pre_merge out_param b0 then None
      else
        (let (a, b) = mr_sort_range out_param b0 in
         if START_POINT_IN_RANGE (address b) (address a) (rsize a)
            \<and> END_POINT_IN_RANGE (address b) (rsize b) (address a) (rsize a)
         then Some (out_param \<lparr> address := address a, rsize := rsize a \<rparr>)
         else if START_POINT_IN_RANGE (address b) (address a) (rsize a)
            \<and> END_POINT_IN_RANGE (address a) (rsize a) (address b) (rsize b)
         then Some (out_param \<lparr> address := address a,
                                rsize := rsize b + (address b - address a) \<rparr>)
         else if address b - address a = rsize a
         then Some (out_param \<lparr> address := address a, rsize := rsize a + rsize b \<rparr>)
         else None))"

text \<open>The result is the return value and the new contents of \<open>*a\<close> and \<open>*b\<close>.\<close>

definition mr_cut ::
    "'a mr_region_scheme \<Rightarrow> 'a mr_region_scheme \<Rightarrow>
     bool \<times> 'a mr_region_scheme \<times> 'a mr_region_scheme" where
  "mr_cut a b =
     (if START_POINT_IN_RANGE (address b) (address a) (rsize a) then
        (if END_POINT_IN_RANGE (address b) (rsize b) (address a) (rsize a) then
           (let first_size = address b - address a;
                second_address = address b + rsize b;
                second_size = rsize a - (second_address - address a)
            in (True, a \<lparr> rsize := first_size \<rparr>,
                b \<lparr> address := second_address, rsize := second_size \<rparr>))
         else (True, a \<lparr> rsize := address b - address a \<rparr>, b \<lparr> rsize := 0 \<rparr>))
      else if address b < address a then
        (if END_POINT_IN_RANGE (address b) (rsize b) (address a) (rsize a) then
           (True,
            a \<lparr> address := address b + rsize b,
                rsize := rsize a - (rsize b - (address a - address b)) \<rparr>,
            b \<lparr> rsize := 0 \<rparr>)
         else if START_POINT_IN_RANGE (address a) (address b) (rsize b) then
           (True, a \<lparr> rsize := 0 \<rparr>, b \<lparr> rsize := 0 \<rparr>)
         else (False, a, b))
      else (False, a, b))"

section \<open>Lists of ranges\<close>

text \<open>
  The store of the region structures of one instance: their contents by
  address, the instance's list of free structures, and the static memory from
  which more are taken.
\<close>

record 'r region_pool =
  cell :: "u32 \<Rightarrow> 'r"
  free_regions :: "u32 list"
  klayout :: layout

definition set_cell :: "u32 \<Rightarrow> 'r \<Rightarrow> 'r region_pool \<Rightarrow> 'r region_pool" where
  "set_cell x r p = p \<lparr> cell := (cell p) (x := r) \<rparr>"

definition mrl_insert ::
    "(u32 \<Rightarrow> 'a mr_region_scheme) \<Rightarrow> u32 list \<Rightarrow> u32 \<Rightarrow> u32 list" where
  "mrl_insert c regions elem =
     (case List.find (\<lambda>cur. address (c elem) < address (c cur)) regions of
        Some cur \<Rightarrow> ll_prepend_elem regions cur elem
      | None \<Rightarrow> ll_append regions elem)"

definition mr_cut_and_stitch ::
    "('a mr_region_scheme region_pool \<Rightarrow> (u32 \<times> 'a mr_region_scheme region_pool) kres) \<Rightarrow>
     ('a mr_region_scheme region_pool \<Rightarrow> u32 \<Rightarrow> 'a mr_region_scheme region_pool) \<Rightarrow>
     u32 list \<Rightarrow> 'a mr_region_scheme region_pool \<Rightarrow> u32 \<Rightarrow> 'a mr_region_scheme \<Rightarrow>
     (u32 list \<times> 'a mr_region_scheme region_pool) kres" where
  "mr_cut_and_stitch alloc free regions p region hole =
     (let (overlap, r, tmp) = mr_cut (cell p region) hole in
      if \<not> overlap then Inr (regions, p)
      else
        (let p = set_cell region r p in
         kbind
           (if rsize tmp \<noteq> 0 then
              kbind (alloc p) (\<lambda>(new_piece, p).
                let p = set_cell new_piece
                          ((cell p region) \<lparr> address := address tmp, rsize := rsize tmp \<rparr>) p
                in Inr (mrl_insert (cell p) regions new_piece, p))
            else Inr (regions, p))
           (\<lambda>(regions, p).
              if rsize (cell p region) = 0
              then Inr (ll_delete regions region, free p region)
              else Inr (regions, p))))"

text \<open>
  \<open>LL_FOREACH_SAFE\<close> saves the next node before the body runs; the body may
  insert nodes and delete the current one.
\<close>

partial_function (option) mrl_subtract_from ::
    "('a mr_region_scheme region_pool \<Rightarrow> (u32 \<times> 'a mr_region_scheme region_pool) kres) \<Rightarrow>
     ('a mr_region_scheme region_pool \<Rightarrow> u32 \<Rightarrow> 'a mr_region_scheme region_pool) \<Rightarrow>
     u32 list \<Rightarrow> 'a mr_region_scheme region_pool \<Rightarrow> u32 option \<Rightarrow> 'a mr_region_scheme \<Rightarrow>
     (u32 list \<times> 'a mr_region_scheme region_pool) kres option" where
  "mrl_subtract_from alloc free regions p current hole =
     (case current of
        None \<Rightarrow> Some (Inr (regions, p))
      | Some cur \<Rightarrow>
          (let tmp = ll_next regions cur in
           case mr_cut_and_stitch alloc free regions p cur hole of
             Inl e \<Rightarrow> Some (Inl e)
           | Inr r \<Rightarrow> mrl_subtract_from alloc free (fst r) (snd r) tmp hole))"

definition ll_head :: "u32 list \<Rightarrow> u32 option" where
  "ll_head xs = (case xs of [] \<Rightarrow> None | x # _ \<Rightarrow> Some x)"

definition mrl_subtract ::
    "('a mr_region_scheme region_pool \<Rightarrow> (u32 \<times> 'a mr_region_scheme region_pool) kres) \<Rightarrow>
     ('a mr_region_scheme region_pool \<Rightarrow> u32 \<Rightarrow> 'a mr_region_scheme region_pool) \<Rightarrow>
     u32 list \<Rightarrow> 'a mr_region_scheme region_pool \<Rightarrow> 'a mr_region_scheme \<Rightarrow>
     (u32 list \<times> 'a mr_region_scheme region_pool) kres option" where
  "mrl_subtract alloc free regions p hole =
     mrl_subtract_from alloc free regions p (ll_head regions) hole"

text \<open>The third list argument is the rest of the list from \<open>cur_region\<close>.\<close>

fun mrl_add_from ::
    "('a mr_region_scheme region_pool \<Rightarrow> u32 \<Rightarrow> 'a mr_region_scheme region_pool) \<Rightarrow>
     ('a mr_region_scheme \<Rightarrow> 'a mr_region_scheme \<Rightarrow> bool) \<Rightarrow>
     u32 list \<Rightarrow> 'a mr_region_scheme region_pool \<Rightarrow> u32 \<Rightarrow> u32 list \<Rightarrow>
     u32 list \<times> 'a mr_region_scheme region_pool" where
  "mrl_add_from free pre_merge regions p region [] = (ll_append regions region, p)"
| "mrl_add_from free pre_merge regions p region (cur # rest) =
     (case mr_merge pre_merge (cell p cur) (cell p region) of
        Some m \<Rightarrow>
          (let p = free (set_cell cur m p) region in
           case rest of
             [] \<Rightarrow> (regions, p)
           | nx # _ \<Rightarrow>
               (case mr_merge pre_merge (cell p nx) (cell p cur) of
                  Some m' \<Rightarrow> (ll_delete regions cur, free (set_cell nx m' p) cur)
                | None \<Rightarrow> (regions, p)))
      | None \<Rightarrow>
          if address (cell p region) < address (cell p cur)
          then (ll_prepend_elem regions cur region, p)
          else mrl_add_from free pre_merge regions p region rest)"

definition mrl_add ::
    "('a mr_region_scheme region_pool \<Rightarrow> u32 \<Rightarrow> 'a mr_region_scheme region_pool) \<Rightarrow>
     ('a mr_region_scheme \<Rightarrow> 'a mr_region_scheme \<Rightarrow> bool) \<Rightarrow>
     u32 list \<Rightarrow> 'a mr_region_scheme region_pool \<Rightarrow> u32 \<Rightarrow>
     u32 list \<times> 'a mr_region_scheme region_pool" where
  "mrl_add free pre_merge regions p region = mrl_add_from free pre_merge regions p region regions"

definition mrl_find_address ::
    "(u32 \<Rightarrow> 'a mr_region_scheme) \<Rightarrow> u32 list \<Rightarrow> u32 \<Rightarrow> u32 option" where
  "mrl_find_address c regions addr = List.find (\<lambda>cur. address (c cur) = addr) regions"

section \<open>Bytes of a region\<close>

definition rbytes :: "'a mr_region_scheme \<Rightarrow> nat set" where
  "rbytes r = byte_range (address r) (rsize r)"

definition rstart :: "'a mr_region_scheme \<Rightarrow> nat" where
  "rstart r = unat (address r)"

definition rend :: "'a mr_region_scheme \<Rightarrow> nat" where
  "rend r = unat (address r) + unat (rsize r)"

definition valid_region :: "'a mr_region_scheme \<Rightarrow> bool" where
  "valid_region r \<longleftrightarrow> rsize r \<noteq> 0 \<and> rend r \<le> 2 ^ 32"

text \<open>Two regions that together reach both ends of the address space.\<close>

definition no_span :: "'a mr_region_scheme \<Rightarrow> 'b mr_region_scheme \<Rightarrow> bool" where
  "no_span a b \<longleftrightarrow> max (rend a) (rend b) - min (rstart a) (rstart b) < 2 ^ 32"

lemma rbytes_eq: "rbytes r = {rstart r ..< rend r}"
  by (simp add: rbytes_def byte_range_def rstart_def rend_def)

lemma rstart_less_rend: "valid_region r \<Longrightarrow> rstart r < rend r"
  by (simp add: valid_region_def rstart_def rend_def unat_gt_0)

lemma START_POINT_IN_RANGE_iff:
  "START_POINT_IN_RANGE p s z \<longleftrightarrow> unat s \<le> unat p \<and> unat p < unat s + unat z"
  by (auto simp: START_POINT_IN_RANGE_def word_le_nat_alt word_less_nat_alt unat_diff_le)

lemma END_POINT_IN_RANGE_inside:
  assumes "unat s \<le> unat p" "unat p \<le> unat s + unat z"
  shows "END_POINT_IN_RANGE p n s z \<longleftrightarrow> unat p + unat n \<le> unat s + unat z"
  using assms
  by (auto simp: END_POINT_IN_RANGE_def END_POINT_GT_START_POINT_def END_POINT_LT_END_POINT_def
      word_le_nat_alt unat_diff_le)

lemma END_POINT_IN_RANGE_before:
  assumes "unat p < unat s" "unat s + unat z - unat p < 2 ^ 32"
  shows "END_POINT_IN_RANGE p n s z \<longleftrightarrow>
    unat s \<le> unat p + unat n \<and> unat p + unat n \<le> unat s + unat z"
proof -
  have eq: "z - (p - s) = z + (s - p)"
    by (simp add: algebra_simps)
  have "unat (z + (s - p)) = unat z + (unat s - unat p)"
    using assms by (subst unat_add_small) (auto simp: unat_diff_le)
  then have "unat (z - (p - s)) = unat z + (unat s - unat p)"
    by (simp only: eq)
  moreover have "unat (s - p) = unat s - unat p"
    using assms by (simp add: unat_diff_le)
  ultimately show ?thesis
    using assms(1)
    by (auto simp: END_POINT_IN_RANGE_def END_POINT_GT_START_POINT_def END_POINT_LT_END_POINT_def
        word_le_nat_alt)
qed

section \<open>Merging is union\<close>

text \<open>The start and the size that merging gives, for ranges in order of their start.\<close>

definition merged_size :: "u32 \<Rightarrow> u32 \<Rightarrow> u32 \<Rightarrow> u32 \<Rightarrow> u32 option" where
  "merged_size a n b m =
     (if START_POINT_IN_RANGE b a n \<and> END_POINT_IN_RANGE b m a n then Some n
      else if START_POINT_IN_RANGE b a n \<and> END_POINT_IN_RANGE a n b m then Some (m + (b - a))
      else if b - a = n then Some (n + m)
      else None)"

lemma mr_merge_sorted:
  "mr_merge pre a b =
     (if \<not> pre a b then None
      else let (x, y) = mr_sort_range a b in
        map_option (\<lambda>n. a \<lparr> address := address x, rsize := n \<rparr>)
          (merged_size (address x) (rsize x) (address y) (rsize y)))"
  by (auto simp: mr_merge_def merged_size_def Let_def split: prod.splits)

lemma merged_size_spec:
  assumes "unat a \<le> unat b" "n \<noteq> 0" "unat a + unat n \<le> 2 ^ 32" "unat b + unat m \<le> 2 ^ 32"
    and "max (unat a + unat n) (unat b + unat m) - unat a < 2 ^ 32"
  shows "merged_size a n b m =
    (if unat b \<le> unat a + unat n
     then Some (of_nat (max (unat a + unat n) (unat b + unat m) - unat a)) else None)"
proof -
  have ba: "unat (b - a) = unat b - unat a"
    using assms(1) by (simp add: unat_diff_le)
  have adj: "b - a = n \<longleftrightarrow> unat b = unat a + unat n"
    using assms(1) ba by (auto simp: word_unat_eq_iff)
  consider "unat b < unat a + unat n" | "unat b = unat a + unat n" | "unat a + unat n < unat b"
    by linarith
  then show ?thesis
  proof cases
    case 1
    have e1: "END_POINT_IN_RANGE b m a n \<longleftrightarrow> unat b + unat m \<le> unat a + unat n"
      using 1 assms(1) by (intro END_POINT_IN_RANGE_inside) auto
    have e2: "END_POINT_IN_RANGE a n b m" if "unat a + unat n < unat b + unat m"
    proof (cases "unat a = unat b")
      case True
      then show ?thesis
        using that by (subst END_POINT_IN_RANGE_inside) auto
    next
      case False
      then show ?thesis
        using that 1 assms by (subst END_POINT_IN_RANGE_before) auto
    qed
    have "n = of_nat (unat n)" "m + (b - a) = of_nat (unat m + (unat b - unat a))"
      using ba by (simp, metis of_nat_add of_nat_unat ucast_id)
    then show ?thesis
      using 1 e1 e2 assms(1)
      by (auto simp: merged_size_def START_POINT_IN_RANGE_iff max_def algebra_simps)
  next
    case 2
    then have "n + m = of_nat (unat b + unat m - unat a)"
      by (simp add: algebra_simps)
    then show ?thesis
      using 2 adj by (auto simp: merged_size_def START_POINT_IN_RANGE_iff)
  next
    case 3
    then show ?thesis
      using adj by (auto simp: merged_size_def START_POINT_IN_RANGE_iff)
  qed
qed

definition touching :: "'a mr_region_scheme \<Rightarrow> 'b mr_region_scheme \<Rightarrow> bool" where
  "touching a b \<longleftrightarrow> rstart a \<le> rend b \<and> rstart b \<le> rend a"

lemma mr_merge_eq:
  assumes "valid_region a" "valid_region b" "no_span a b"
  shows "mr_merge pre a b =
    (if pre a b \<and> touching a b
     then Some (a \<lparr> address := of_nat (min (rstart a) (rstart b)),
                    rsize := of_nat (max (rend a) (rend b) - min (rstart a) (rstart b)) \<rparr>)
     else None)"
proof (cases "address a > address b")
  case True
  then have "merged_size (address b) (rsize b) (address a) (rsize a) =
    (if rstart a \<le> rend b
     then Some (of_nat (max (rend b) (rend a) - rstart b)) else None)"
    using assms
    by (subst merged_size_spec)
      (auto simp: valid_region_def no_span_def rstart_def rend_def word_less_nat_alt min_def)
  moreover have "rstart b \<le> rstart a" "rstart a < rend a"
    using True assms(1) rstart_less_rend by (auto simp: rstart_def word_less_nat_alt)
  moreover have "address b = of_nat (rstart b)"
    by (simp add: rstart_def)
  ultimately show ?thesis
    using True
    by (auto simp: mr_merge_sorted mr_sort_range_def touching_def min_absorb2 max.commute)
next
  case False
  then have "merged_size (address a) (rsize a) (address b) (rsize b) =
    (if rstart b \<le> rend a
     then Some (of_nat (max (rend a) (rend b) - rstart a)) else None)"
    using assms
    by (subst merged_size_spec)
      (auto simp: valid_region_def no_span_def rstart_def rend_def word_less_nat_alt min_def)
  moreover have "rstart a \<le> rstart b" "rstart b < rend b"
    using False assms(2) rstart_less_rend by (auto simp: rstart_def word_less_nat_alt)
  moreover have "address a = of_nat (rstart a)"
    by (simp add: rstart_def)
  ultimately show ?thesis
    using False
    by (auto simp: mr_merge_sorted mr_sort_range_def touching_def min_absorb1)
qed

lemma mr_merge_Some:
  assumes "valid_region a" "valid_region b" "no_span a b" "mr_merge pre a b = Some u"
  shows "pre a b" "touching a b" "rstart u = min (rstart a) (rstart b)"
    and "rend u = max (rend a) (rend b)" "valid_region u"
    and "rbytes u = rbytes a \<union> rbytes b" "mr_region.more u = mr_region.more a"
proof -
  have u: "pre a b" "touching a b" "u = a \<lparr> address := of_nat (min (rstart a) (rstart b)),
      rsize := of_nat (max (rend a) (rend b) - min (rstart a) (rstart b)) \<rparr>"
    using assms(4) mr_merge_eq [OF assms(1-3)] by (auto split: if_splits)
  have lt: "rstart a < rend a" "rstart b < rend b"
    using assms rstart_less_rend by auto
  have "min (rstart a) (rstart b) < 2 ^ 32"
    using lt assms(1) by (auto simp: valid_region_def)
  then show s: "rstart u = min (rstart a) (rstart b)"
    using u(3) by (simp add: rstart_def)
  have "unat (rsize u) = max (rend a) (rend b) - min (rstart a) (rstart b)"
    using u(3) assms(3) by (simp add: no_span_def)
  then show e: "rend u = max (rend a) (rend b)"
    using s lt by (simp add: rend_def rstart_def)
  show "valid_region u"
    using s e lt assms(1,2) by (auto simp: valid_region_def rend_def rstart_def)
  show "rbytes u = rbytes a \<union> rbytes b"
    using s e lt u(2) by (auto simp: rbytes_eq touching_def)
  show "pre a b" "touching a b" "mr_region.more u = mr_region.more a"
    using u by simp_all
qed

lemma mr_merge_None:
  assumes "valid_region a" "valid_region b" "no_span a b" "mr_merge pre a b = None"
  shows "\<not> pre a b \<or> rend a < rstart b \<or> rend b < rstart a"
  using assms(4) mr_merge_eq [OF assms(1-3)] by (auto simp: touching_def split: if_splits)

lemma no_spanI:
  assumes "valid_region a" "valid_region b" "0 \<notin> rbytes a \<union> rbytes b \<or> 2 ^ 32 - 1 \<notin> rbytes a \<union> rbytes b"
  shows "no_span a b"
  using assms rstart_less_rend [OF assms(1)] rstart_less_rend [OF assms(2)]
  by (auto simp: no_span_def rbytes_eq valid_region_def max_def min_def)

section \<open>Cutting is difference\<close>

definition piece_of :: "'a mr_region_scheme \<Rightarrow> 'b mr_region_scheme \<Rightarrow> bool" where
  "piece_of a r \<longleftrightarrow> (rsize r \<noteq> 0 \<longrightarrow> rstart a \<le> rstart r \<and> rend r \<le> rend a)"

lemma mr_cut_miss:
  assumes "valid_region a" "rend b \<le> 2 ^ 32" "no_span a b" "mr_cut a b = (False, a', t)"
  shows "a' = a \<and> t = b \<and> rbytes a \<inter> rbytes b = {}"
proof -
  have eq: "a' = a" "t = b"
    using assms(4) by (auto simp: mr_cut_def Let_def split: if_splits)
  have nstart: "\<not> START_POINT_IN_RANGE (address b) (address a) (rsize a)"
    using assms(4) by (auto simp: mr_cut_def Let_def split: if_splits)
  show ?thesis
  proof (cases "address b < address a")
    case True
    then have "\<not> START_POINT_IN_RANGE (address a) (address b) (rsize b)"
      using assms(4) nstart by (auto simp: mr_cut_def Let_def split: if_splits)
    then show ?thesis
      using eq True
      by (auto simp: START_POINT_IN_RANGE_iff rbytes_eq rstart_def rend_def word_less_nat_alt)
  next
    case False
    then show ?thesis
      using eq nstart
      by (auto simp: START_POINT_IN_RANGE_iff rbytes_eq rstart_def rend_def word_less_nat_alt)
  qed
qed

lemma mr_cut_within:
  assumes "rstart a \<le> rstart b" "rstart b < rend a" "rend b \<le> rend a" "rend a \<le> 2 ^ 32"
  shows "\<exists>a' t. mr_cut a b = (True, a', t) \<and> rstart a' = rstart a \<and> rend a' = rstart b
    \<and> mr_region.more a' = mr_region.more a
    \<and> (if rend b = rend a then rsize t = 0 else rsize t \<noteq> 0 \<and> rstart t = rend b \<and> rend t = rend a)"
proof -
  let ?s = "address b + rsize b"
  have inside: "START_POINT_IN_RANGE (address b) (address a) (rsize a)"
    "END_POINT_IN_RANGE (address b) (rsize b) (address a) (rsize a)"
    using assms END_POINT_IN_RANGE_inside [of "address a" "address b" "rsize a" "rsize b"]
    by (auto simp: START_POINT_IN_RANGE_iff rstart_def rend_def)
  have first: "unat (address b - address a) = rstart b - rstart a"
    using assms by (simp add: unat_diff_le rstart_def)
  have size_eq: "rsize a - (?s - address a) = (rsize a - (address b - address a)) - rsize b"
    by (simp add: algebra_simps)
  have s1: "unat (rsize a - (address b - address a)) = rend a - rstart b"
    using first assms by (subst unat_diff_le) (auto simp: rstart_def rend_def)
  have second: "unat (rsize a - (?s - address a)) = rend a - rend b"
    using s1 assms by (simp only: size_eq) (subst unat_diff_le; auto simp: rstart_def rend_def)
  have addr: "unat ?s = rend b" if "rend b \<noteq> rend a"
    using that assms by (subst unat_add_small) (auto simp: rend_def)
  have ne: "rsize a - (?s - address a) = 0 \<longleftrightarrow> rend b = rend a"
    using second assms(3) by (auto simp: word_unat_eq_iff)
  have "mr_cut a b = (True, a \<lparr> rsize := address b - address a \<rparr>,
      b \<lparr> address := ?s, rsize := rsize a - (?s - address a) \<rparr>)"
    using inside by (simp add: mr_cut_def Let_def)
  then show ?thesis
    using first second addr ne assms by (auto simp: rstart_def rend_def)
qed

lemma mr_cut_right:
  assumes "rstart a \<le> rstart b" "rstart b < rend a" "rend a < rend b"
  shows "\<exists>a' t. mr_cut a b = (True, a', t) \<and> rstart a' = rstart a \<and> rend a' = rstart b
    \<and> mr_region.more a' = mr_region.more a \<and> rsize t = 0"
proof -
  have "START_POINT_IN_RANGE (address b) (address a) (rsize a)"
    "\<not> END_POINT_IN_RANGE (address b) (rsize b) (address a) (rsize a)"
    using assms END_POINT_IN_RANGE_inside [of "address a" "address b" "rsize a" "rsize b"]
    by (auto simp: START_POINT_IN_RANGE_iff rstart_def rend_def)
  moreover have "unat (address b - address a) = rstart b - rstart a"
    using assms by (simp add: unat_diff_le rstart_def)
  ultimately show ?thesis
    using assms by (auto simp: mr_cut_def rstart_def rend_def)
qed

lemma mr_cut_left:
  assumes "rstart b < rstart a" "rstart a \<le> rend b" "rend b \<le> rend a"
    and "rend a - rstart b < 2 ^ 32" "rend a \<le> 2 ^ 32"
  shows "\<exists>a' t. mr_cut a b = (True, a', t) \<and> mr_region.more a' = mr_region.more a \<and> rsize t = 0
    \<and> (if rend b = rend a then rsize a' = 0 else rsize a' \<noteq> 0 \<and> rstart a' = rend b \<and> rend a' = rend a)"
proof -
  let ?n = "rsize a - (rsize b - (address a - address b))"
  have cond: "\<not> START_POINT_IN_RANGE (address b) (address a) (rsize a)" "address b < address a"
    "END_POINT_IN_RANGE (address b) (rsize b) (address a) (rsize a)"
    using assms END_POINT_IN_RANGE_before [of "address b" "address a" "rsize a" "rsize b"]
    by (auto simp: START_POINT_IN_RANGE_iff rstart_def rend_def word_less_nat_alt)
  have gap: "unat (address a - address b) = rstart a - rstart b"
    using assms by (simp add: unat_diff_le rstart_def)
  have over: "unat (rsize b - (address a - address b)) = rend b - rstart a"
    using gap assms by (subst unat_diff_le) (auto simp: rstart_def rend_def)
  have n: "unat ?n = rend a - rend b"
    using over assms by (subst unat_diff_le) (auto simp: rstart_def rend_def)
  have ne: "?n = 0 \<longleftrightarrow> rend b = rend a"
    using n assms(3) by (auto simp: word_unat_eq_iff)
  have addr: "unat (address b + rsize b) = rend b" if "rend b \<noteq> rend a"
    using that assms by (subst unat_add_small) (auto simp: rend_def)
  have "mr_cut a b = (True, a \<lparr> address := address b + rsize b, rsize := ?n \<rparr>, b \<lparr> rsize := 0 \<rparr>)"
    using cond by (simp add: mr_cut_def)
  then show ?thesis
    using n ne addr assms by (auto simp: rstart_def rend_def)
qed

lemma mr_cut_cover:
  assumes "rstart b < rstart a" "rend a < rend b" "rend a - rstart b < 2 ^ 32"
  shows "\<exists>a' t. mr_cut a b = (True, a', t) \<and> mr_region.more a' = mr_region.more a
    \<and> rsize a' = 0 \<and> rsize t = 0"
proof -
  have "\<not> START_POINT_IN_RANGE (address b) (address a) (rsize a)" "address b < address a"
    "\<not> END_POINT_IN_RANGE (address b) (rsize b) (address a) (rsize a)"
    "START_POINT_IN_RANGE (address a) (address b) (rsize b)"
    using assms END_POINT_IN_RANGE_before [of "address b" "address a" "rsize a" "rsize b"]
    by (auto simp: START_POINT_IN_RANGE_iff rstart_def rend_def word_less_nat_alt)
  then show ?thesis
    by (simp add: mr_cut_def)
qed

lemma mr_cut_hit:
  assumes "valid_region a" "rend b \<le> 2 ^ 32" "no_span a b" "mr_cut a b = (True, a', t)"
  shows "rbytes a' \<union> rbytes t = rbytes a - rbytes b \<and> piece_of a a' \<and> piece_of a t
    \<and> (rsize a' \<noteq> 0 \<longrightarrow> rsize t \<noteq> 0 \<longrightarrow> rend a' \<le> rstart t)
    \<and> (rsize t \<noteq> 0 \<longrightarrow> rstart a' \<le> rstart t)
    \<and> mr_region.more a' = mr_region.more a"
proof -
  have ra: "rstart a < rend a" "rend a \<le> 2 ^ 32"
    using assms(1) rstart_less_rend by (auto simp: valid_region_def)
  have rb: "rstart b \<le> rend b"
    by (simp add: rstart_def rend_def)
  have span: "rend a - rstart b < 2 ^ 32" if "rstart b < rstart a"
    using assms(3) that by (auto simp: no_span_def)
  have empty: "rbytes r = {}" if "rsize r = 0" for r :: "'a mr_region_scheme"
    using that by (simp add: rbytes_def)
  consider (within) "rstart a \<le> rstart b" "rstart b < rend a" "rend b \<le> rend a"
    | (right) "rstart a \<le> rstart b" "rstart b < rend a" "rend a < rend b"
    | (left) "rstart b < rstart a" "rstart a \<le> rend b" "rend b \<le> rend a"
    | (cover) "rstart b < rstart a" "rend a < rend b"
    | (miss) "rend a \<le> rstart b \<or> rend b < rstart a"
    by linarith
  then show ?thesis
  proof cases
    case within
    from mr_cut_within [OF within ra(2)] assms(4) show ?thesis
      using within ra rb empty [of t] by (auto simp: rbytes_eq piece_of_def split: if_splits)
  next
    case right
    from mr_cut_right [OF right] assms(4) show ?thesis
      using right ra rb empty [of t] by (auto simp: rbytes_eq piece_of_def)
  next
    case left
    from mr_cut_left [OF left span [OF left(1)] ra(2)] assms(4) show ?thesis
      using left ra rb empty [of t] empty [of a'] by (auto simp: rbytes_eq piece_of_def split: if_splits)
  next
    case cover
    from mr_cut_cover [OF cover span [OF cover(1)]] assms(4) show ?thesis
      using cover ra rb empty [of t] empty [of a'] by (auto simp: rbytes_eq piece_of_def)
  next
    case miss
    have "fst (mr_cut a b) = False"
    proof (cases "rstart b < rstart a")
      case True
      then show ?thesis
        using miss ra rb END_POINT_IN_RANGE_before [of "address b" "address a" "rsize a" "rsize b"] span
        by (auto simp: mr_cut_def START_POINT_IN_RANGE_iff rstart_def rend_def word_less_nat_alt)
    next
      case False
      then show ?thesis
        using miss ra rb
        by (auto simp: mr_cut_def START_POINT_IN_RANGE_iff rstart_def rend_def word_less_nat_alt)
    qed
    then show ?thesis
      using assms(4) by simp
  qed
qed

section \<open>Properties\<close>

text \<open>
  \<open>_merge\<close> succeeds exactly when the regions may merge and overlap or are adjacent;
  the region it updates then covers the union of the two and keeps its other
  fields.
\<close>

theorem merge_is_union:
  assumes "valid_region a" "valid_region b" "no_span a b"
  shows "case mr_merge pre a b of
      Some u \<Rightarrow> pre a b \<and> touching a b \<and> rbytes u = rbytes a \<union> rbytes b
        \<and> valid_region u \<and> mr_region.more u = mr_region.more a
    | None \<Rightarrow> \<not> (pre a b \<and> touching a b)"
proof (cases "mr_merge pre a b")
  case None
  then show ?thesis
    using mr_merge_eq [OF assms, of pre] by (auto split: if_splits)
next
  case (Some u)
  then show ?thesis
    using mr_merge_Some [OF assms Some] by simp
qed

theorem merge_is_union_witness:
  "rbytes \<lparr> address = 0x1000, rsize = 0x3000 \<rparr>
   = rbytes \<lparr> address = 0x1000, rsize = 0x1000 \<rparr> \<union> rbytes \<lparr> address = 0x2000, rsize = 0x2000 \<rparr>"
proof -
  let ?a = "\<lparr> address = 0x1000, rsize = 0x1000 \<rparr>" and ?b = "\<lparr> address = 0x2000, rsize = 0x2000 \<rparr>"
  have "mr_merge (\<lambda>_ _. True) ?a ?b = Some \<lparr> address = 0x1000, rsize = 0x3000 \<rparr>"
    by (simp add: mr_merge_def mr_sort_range_def START_POINT_IN_RANGE_def)
  then show ?thesis
    using merge_is_union [of ?a ?b "\<lambda>_ _. True"]
    by (simp add: valid_region_def no_span_def rend_def rstart_def)
qed

text \<open>
  \<open>_cut\<close> subtracts: when it reports an overlap, the two pieces it leaves are
  disjoint parts of the first region that together cover what the second does
  not; otherwise the two are disjoint and unchanged.
\<close>

theorem cut_is_difference:
  assumes "valid_region a" "rend b \<le> 2 ^ 32" "no_span a b"
  shows "case mr_cut a b of (overlap, a', t) \<Rightarrow>
    if overlap
    then rbytes a' \<union> rbytes t = rbytes a - rbytes b \<and> rbytes a' \<inter> rbytes t = {}
      \<and> mr_region.more a' = mr_region.more a
    else a' = a \<and> t = b \<and> rbytes a \<inter> rbytes b = {}"
proof -
  obtain ov a' t where cut: "mr_cut a b = (ov, a', t)"
    by (cases "mr_cut a b")
  show ?thesis
  proof (cases ov)
    case True
    have "rbytes a' \<inter> rbytes t = {}"
      if "rsize a' \<noteq> 0 \<longrightarrow> rsize t \<noteq> 0 \<longrightarrow> rend a' \<le> rstart t"
    proof (cases "rsize a' = 0 \<or> rsize t = 0")
      case True
      then show ?thesis by (auto simp: rbytes_def)
    next
      case False
      then show ?thesis using that by (auto simp: rbytes_eq)
    qed
    then show ?thesis
      using mr_cut_hit [OF assms] cut True by simp
  next
    case False
    then show ?thesis
      using mr_cut_miss [OF assms] cut by simp
  qed
qed

theorem cut_is_difference_witness:
  "mr_cut \<lparr> address = 0x1000, rsize = 0x4000 \<rparr> \<lparr> address = 0x2000, rsize = 0x1000 \<rparr>
     = (True, \<lparr> address = 0x1000, rsize = 0x1000 \<rparr>, \<lparr> address = 0x3000, rsize = 0x2000 \<rparr>)
   \<and> rbytes \<lparr> address = 0x1000, rsize = 0x1000 \<rparr> \<union> rbytes \<lparr> address = 0x3000, rsize = 0x2000 \<rparr>
     = rbytes \<lparr> address = 0x1000, rsize = 0x4000 \<rparr> - rbytes \<lparr> address = 0x2000, rsize = 0x1000 \<rparr>"
proof -
  let ?a = "\<lparr> address = 0x1000, rsize = 0x4000 \<rparr>" and ?b = "\<lparr> address = 0x2000, rsize = 0x1000 \<rparr>"
  have cut: "mr_cut ?a ?b
      = (True, \<lparr> address = 0x1000, rsize = 0x1000 \<rparr>, \<lparr> address = 0x3000, rsize = 0x2000 \<rparr>)"
    by (simp add: mr_cut_def START_POINT_IN_RANGE_def END_POINT_IN_RANGE_def
        END_POINT_GT_START_POINT_def END_POINT_LT_END_POINT_def)
  then show ?thesis
    using cut_is_difference [of ?a ?b]
    by (simp add: valid_region_def no_span_def rend_def rstart_def)
qed

end
