(* ===== verification/RangeMap.thy ===== *)
theory RangeMap
  imports Range
begin

text \<open>
  The lists of mm/range.h as sets of bytes.  A map is well formed when its
  structures are distinct, hold non-empty ranges that do not wrap around and
  lie in the order of the list without overlap.  The interface
  \<open>region_hooks\<close> is what the macros rely on from the allocation functions of an
  instance; under it, adding a range that is free of overlap and subtracting a
  range keep a map well formed, change its bytes by union and difference, and
  touch no structure that belongs to another map.
\<close>

section \<open>Well-formed maps\<close>

definition before :: "(u32 \<Rightarrow> 'a mr_region_scheme) \<Rightarrow> u32 \<Rightarrow> u32 \<Rightarrow> bool" where
  "before c x y \<longleftrightarrow> rend (c x) \<le> rstart (c y)"

definition wf_regions :: "(u32 \<Rightarrow> 'a mr_region_scheme) \<Rightarrow> u32 list \<Rightarrow> bool" where
  "wf_regions c xs \<longleftrightarrow>
     distinct xs \<and> (\<forall>x\<in>set xs. valid_region (c x)) \<and> sorted_wrt (before c) xs"

definition map_bytes :: "(u32 \<Rightarrow> 'a mr_region_scheme) \<Rightarrow> u32 list \<Rightarrow> nat set" where
  "map_bytes c xs = (\<Union>x\<in>set xs. rbytes (c x))"

text \<open>A set of bytes that does not reach both ends of the address space.\<close>

definition span_ok :: "nat set \<Rightarrow> bool" where
  "span_ok S \<longleftrightarrow> 0 \<notin> S \<or> 2 ^ 32 - 1 \<notin> S"

lemma map_bytes_simps [simp]:
  "map_bytes c [] = {}"
  "map_bytes c (x # xs) = rbytes (c x) \<union> map_bytes c xs"
  "map_bytes c (xs @ ys) = map_bytes c xs \<union> map_bytes c ys"
  by (auto simp: map_bytes_def)

lemma map_bytes_cong: "(\<And>x. x \<in> set xs \<Longrightarrow> c' x = c x) \<Longrightarrow> map_bytes c' xs = map_bytes c xs"
  by (simp add: map_bytes_def)

lemma map_bytes_upd_other [simp]: "x \<notin> set xs \<Longrightarrow> map_bytes (c (x := r)) xs = map_bytes c xs"
  by (rule map_bytes_cong) auto

lemma wf_regions_Nil [simp]: "wf_regions c []"
  by (simp add: wf_regions_def)

lemma wf_regions_append:
  "wf_regions c (xs @ ys) \<longleftrightarrow> wf_regions c xs \<and> wf_regions c ys \<and>
     set xs \<inter> set ys = {} \<and> (\<forall>x\<in>set xs. \<forall>y\<in>set ys. before c x y)"
  by (auto simp: wf_regions_def sorted_wrt_append)

lemma wf_regions_Cons:
  "wf_regions c (x # ys) \<longleftrightarrow> x \<notin> set ys \<and> valid_region (c x) \<and> wf_regions c ys \<and>
     (\<forall>y\<in>set ys. before c x y)"
  by (auto simp: wf_regions_def)

lemma wf_regions_cong:
  assumes "\<And>x. x \<in> set xs \<Longrightarrow> c' x = c x"
  shows "wf_regions c' xs = wf_regions c xs"
proof -
  have "sorted_wrt (before c') xs = sorted_wrt (before c) xs"
    using assms by (induction xs) (auto simp: before_def)
  then show ?thesis
    using assms by (simp add: wf_regions_def)
qed

lemma wf_regions_upd_other [simp]:
  "x \<notin> set xs \<Longrightarrow> wf_regions (c (x := r)) xs = wf_regions c xs"
  by (rule wf_regions_cong) auto

lemma span_okD:
  assumes "span_ok S" "rbytes a \<subseteq> S" "rbytes b \<subseteq> S" "valid_region a" "valid_region b"
  shows "no_span a b"
  using assms by (intro no_spanI) (auto simp: span_ok_def)

lemma disjoint_order:
  assumes "valid_region a" "valid_region b" "rbytes a \<inter> rbytes b = {}"
  shows "rend a \<le> rstart b \<or> rend b \<le> rstart a"
proof (rule ccontr)
  assume "\<not> (rend a \<le> rstart b \<or> rend b \<le> rstart a)"
  then have "max (rstart a) (rstart b) \<in> rbytes a \<inter> rbytes b"
    using rstart_less_rend [OF assms(1)] rstart_less_rend [OF assms(2)]
    by (auto simp: rbytes_eq max_def)
  then show False
    using assms(3) by simp
qed

lemma mrl_insert_between:
  assumes "\<And>x. x \<in> set as \<Longrightarrow> address (c x) \<le> address (c e)"
    and "bs = [] \<or> address (c e) < address (c (hd bs))" "set as \<inter> set bs = {}"
  shows "mrl_insert c (as @ bs) e = as @ e # bs"
proof (cases bs)
  case Nil
  then have "List.find (\<lambda>cur. address (c e) < address (c cur)) (as @ bs) = None"
    using assms(1) by (auto simp: find_None_iff not_less)
  then show ?thesis
    using Nil by (simp add: mrl_insert_def ll_append_def)
next
  case (Cons b bs')
  have "List.find (\<lambda>cur. address (c e) < address (c cur)) (as @ bs) = Some b"
    using assms(1,2) Cons by (induction as) (auto simp: not_less [symmetric])
  moreover have "ll_prepend_elem (as @ b # bs') b e = as @ e # b # bs'"
    using assms(3) Cons by (induction as) auto
  ultimately show ?thesis
    using Cons by (simp add: mrl_insert_def)
qed

lemma ll_delete_middle: "x \<notin> set as \<Longrightarrow> ll_delete (as @ x # bs) x = as @ bs"
  by (simp add: ll_delete_def remove1_append)

lemma ll_next_middle: "x \<notin> set as \<Longrightarrow> ll_next (as @ x # bs) x = ll_head bs"
proof (induction as)
  case Nil
  then show ?case by (cases bs) (simp_all add: ll_head_def)
next
  case (Cons a as)
  then show ?case by (cases "as @ x # bs") auto
qed

lemma cell_set_cell [simp]:
  "cell (set_cell x r p) = (cell p) (x := r)"
  "free_regions (set_cell x r p) = free_regions p"
  "klayout (set_cell x r p) = klayout p"
  by (simp_all add: set_cell_def)

lemma wf_splice:
  assumes "wf_regions c (as @ bs)" "\<And>y. y \<in> set as \<union> set bs \<Longrightarrow> c' y = c y"
    and "wf_regions c' mid" "set mid \<inter> (set as \<union> set bs) = {}"
    and "\<And>a y. a \<in> set as \<Longrightarrow> y \<in> set mid \<Longrightarrow> rend (c a) \<le> rstart (c' y)"
    and "\<And>b y. b \<in> set bs \<Longrightarrow> y \<in> set mid \<Longrightarrow> rend (c' y) \<le> rstart (c b)"
  shows "wf_regions c' (as @ mid @ bs)"
proof -
  have "wf_regions c' (as @ bs)"
    using assms(1) wf_regions_cong [of "as @ bs" c' c] assms(2) by simp
  then show ?thesis
    using assms by (auto simp: wf_regions_append before_def)
qed

lemma wf_drop_middle: "wf_regions c (as @ x # bs) \<Longrightarrow> wf_regions c (as @ bs)"
  by (auto simp: wf_regions_append wf_regions_Cons)

lemma wf_middle:
  assumes "wf_regions c (as @ x # bs)"
  shows "valid_region (c x)" "x \<notin> set as" "x \<notin> set bs" "set as \<inter> set bs = {}"
    and "a \<in> set as \<Longrightarrow> rend (c a) \<le> rstart (c x)" "b \<in> set bs \<Longrightarrow> rend (c x) \<le> rstart (c b)"
  using assms by (auto simp: wf_regions_append wf_regions_Cons before_def)

lemma wf_pieces:
  assumes "wf_regions c (as @ x # bs)" "\<And>y. y \<in> set as \<union> set bs \<Longrightarrow> c' y = c y"
    and "wf_regions c' mid" "set mid \<inter> (set as \<union> set bs) = {}"
    and "\<And>y. y \<in> set mid \<Longrightarrow> rstart (c x) \<le> rstart (c' y) \<and> rend (c' y) \<le> rend (c x)"
  shows "wf_regions c' (as @ mid @ bs)"
proof (rule wf_splice [OF wf_drop_middle [OF assms(1)] assms(2,3,4)])
  show "rend (c a) \<le> rstart (c' y)" if "a \<in> set as" "y \<in> set mid" for a y
    using wf_middle(5) [OF assms(1) that(1)] assms(5) [OF that(2)] by simp
  show "rend (c' y) \<le> rstart (c b)" if "b \<in> set bs" "y \<in> set mid" for b y
    using wf_middle(6) [OF assms(1) that(1)] assms(5) [OF that(2)] by simp
qed auto

section \<open>What an instance provides\<close>

text \<open>
  \<open>unused p x\<close>: the structure at \<open>x\<close> is on the free list or not yet taken from
  static memory.
\<close>

locale region_hooks =
  fixes alloc :: "'a mr_region_scheme region_pool \<Rightarrow> (u32 \<times> 'a mr_region_scheme region_pool) kres"
    and free :: "'a mr_region_scheme region_pool \<Rightarrow> u32 \<Rightarrow> 'a mr_region_scheme region_pool"
    and pre_merge :: "'a mr_region_scheme \<Rightarrow> 'a mr_region_scheme \<Rightarrow> bool"
    and pool_inv :: "'a mr_region_scheme region_pool \<Rightarrow> bool"
    and unused :: "'a mr_region_scheme region_pool \<Rightarrow> u32 \<Rightarrow> bool"
    and room :: "nat \<Rightarrow> 'a mr_region_scheme region_pool \<Rightarrow> bool"
  assumes alloc_cell: "alloc p = Inr (x, p') \<Longrightarrow> cell p' = cell p"
    and alloc_fresh: "pool_inv p \<Longrightarrow> alloc p = Inr (x, p') \<Longrightarrow>
      pool_inv p' \<and> unused p x \<and> \<not> unused p' x \<and> (\<forall>y. unused p' y \<longrightarrow> unused p y)"
    and free_cell: "cell (free p x) = cell p"
    and free_inv: "pool_inv p \<Longrightarrow> \<not> unused p x \<Longrightarrow> pool_inv (free p x)"
    and free_unused: "unused (free p x) y \<longleftrightarrow> unused p y \<or> y = x"
    and cell_inv: "pool_inv (set_cell x r p) \<longleftrightarrow> pool_inv p"
    and cell_unused: "unused (set_cell x r p) y \<longleftrightarrow> unused p y"
    and pre_merge_more: "pre_merge a b \<Longrightarrow> mr_region.more a = mr_region.more b"
    and alloc_room: "room (Suc k) p \<Longrightarrow> \<exists>x p'. alloc p = Inr (x, p') \<and> room k p'"
    and free_room: "room k p \<Longrightarrow> room k (free p x)"
    and cell_room: "room k (set_cell x r p) \<longleftrightarrow> room k p"
    and less_room: "room (Suc k) p \<Longrightarrow> room k p"
begin

lemmas hooks_simps = alloc_cell free_cell free_inv free_unused cell_inv cell_unused

definition map_inv :: "'a mr_region_scheme region_pool \<Rightarrow> u32 list \<Rightarrow> bool" where
  "map_inv p xs \<longleftrightarrow> pool_inv p \<and> wf_regions (cell p) xs \<and> (\<forall>x\<in>set xs. \<not> unused p x)"

text \<open>Only structures of \<open>xs\<close> and unused ones change.\<close>

definition only :: "'a mr_region_scheme region_pool \<Rightarrow> u32 set \<Rightarrow> 'a mr_region_scheme region_pool \<Rightarrow> bool" where
  "only p X p' \<longleftrightarrow> (\<forall>y. y \<notin> X \<longrightarrow> \<not> unused p y \<longrightarrow> cell p' y = cell p y \<and> \<not> unused p' y)"

lemma only_refl: "only p X p"
  by (simp add: only_def)

lemma only_trans:
  "only p X p' \<Longrightarrow> only p' Y p'' \<Longrightarrow> Y \<subseteq> X \<union> {y. unused p y} \<Longrightarrow> only p X p''"
  by (auto simp: only_def dest!: subsetD)

lemma only_mono: "only p X p' \<Longrightarrow> X \<subseteq> Y \<Longrightarrow> only p Y p'"
  by (auto simp: only_def)

lemma map_inv_other:
  assumes "map_inv p ys" "only p X p'" "X \<inter> set ys = {}" "pool_inv p'"
  shows "map_inv p' ys" "map_bytes (cell p') ys = map_bytes (cell p) ys"
proof -
  have same: "cell p' y = cell p y \<and> \<not> unused p' y" if "y \<in> set ys" for y
    using assms that by (auto simp: only_def map_inv_def)
  then show "map_inv p' ys"
    using assms(1,4) wf_regions_cong [of ys "cell p'" "cell p"] by (simp add: map_inv_def)
  show "map_bytes (cell p') ys = map_bytes (cell p) ys"
    using same by (intro map_bytes_cong) simp
qed

definition pieces :: "'a mr_region_scheme region_pool \<Rightarrow> u32 list \<Rightarrow> u32 \<Rightarrow> 'a mr_region_scheme \<Rightarrow>
    u32 list \<Rightarrow> u32 list \<Rightarrow> 'a mr_region_scheme region_pool \<Rightarrow> bool" where
  "pieces p as x hole bs mid p' \<longleftrightarrow>
     map_inv p' (as @ mid @ bs) \<and> map_bytes (cell p') mid = rbytes (cell p x) - rbytes hole
     \<and> set mid \<subseteq> insert x {y. unused p y} \<and> only p {x} p'
     \<and> (\<forall>y\<in>set mid. mr_region.more (cell p' y) = mr_region.more (cell p x))"

lemma piece_valid:
  assumes "piece_of a r" "rsize r \<noteq> 0" "valid_region a"
  shows "valid_region r" "rstart a \<le> rstart r" "rend r \<le> rend a"
  using assms by (auto simp: piece_of_def valid_region_def)

lemma stitch_keep:
  assumes "map_inv p (as @ x # bs)" "piece_of (cell p x) r" "rsize r \<noteq> 0"
  shows "map_inv (set_cell x r p) (as @ x # bs)"
proof -
  have wf: "wf_regions (cell p) (as @ x # bs)"
    using assms(1) by (simp add: map_inv_def)
  have "wf_regions ((cell p)(x := r)) (as @ [x] @ bs)"
    using wf_middle [OF wf] piece_valid [OF assms(2,3)]
    by (intro wf_pieces [OF wf]) (auto simp: wf_regions_Cons)
  then show ?thesis
    using assms(1) by (simp add: map_inv_def hooks_simps)
qed

lemma stitch_drop:
  assumes "map_inv p (as @ x # bs)"
  shows "map_inv (free (set_cell x r p) x) (as @ bs)"
proof -
  have wf: "wf_regions (cell p) (as @ x # bs)"
    using assms by (simp add: map_inv_def)
  then have "wf_regions ((cell p)(x := r)) (as @ bs)"
    using wf_middle [OF wf] wf_drop_middle [OF wf] by simp
  then show ?thesis
    using assms wf_middle [OF wf] by (auto simp: map_inv_def hooks_simps)
qed

lemma stitch_insert:
  assumes "map_inv p (as @ x # bs)" "piece_of (cell p x) r" "piece_of (cell p x) t" "rsize t \<noteq> 0"
    and "rsize r \<noteq> 0 \<longrightarrow> rend r \<le> rstart t" "rstart r \<le> rstart t"
    and "alloc (set_cell x r p) = Inr (n, p2)" "rstart t' = rstart t" "rend t' = rend t"
  defines "p3 \<equiv> set_cell n t' p2"
  shows "n \<notin> set (as @ x # bs)" "unused p n" "cell p3 = (cell p)(x := r, n := t')"
    and "mrl_insert (cell p3) (as @ x # bs) n = as @ x # n # bs"
    and "rsize r \<noteq> 0 \<Longrightarrow> map_inv p3 (as @ x # n # bs)"
    and "map_inv (free p3 x) (as @ n # bs)"
    and "\<not> unused p3 x" "pool_inv p3" "unused p3 y \<Longrightarrow> unused p y"
proof -
  have inv: "wf_regions (cell p) (as @ x # bs)" "pool_inv p" "\<forall>y\<in>set (as @ x # bs). \<not> unused p y"
    using assms(1) by (simp_all add: map_inv_def)
  note mid = wf_middle [OF inv(1)]
  note tv = piece_valid [OF assms(3,4) mid(1)]
  have tt: "valid_region t'" "rstart t < rend t"
    using tv assms(8,9) rstart_less_rend [OF tv(1)]
    by (auto simp: valid_region_def rend_def rstart_def)
  have fresh: "pool_inv p2" "unused p n" "\<not> unused p2 n" "unused p2 y \<Longrightarrow> unused p y" for y
    using alloc_fresh [OF _ assms(7)] inv(2) by (auto simp: hooks_simps)
  then show n: "n \<notin> set (as @ x # bs)" "unused p n"
    using inv(3) by auto
  show c: "cell p3 = (cell p)(x := r, n := t')"
    using alloc_cell [OF assms(7)] by (simp add: p3_def)
  show p3: "pool_inv p3" and u3: "unused p3 y \<Longrightarrow> unused p y" for y
    using fresh by (simp_all add: p3_def hooks_simps)
  then show nx: "\<not> unused p3 x"
    using inv(3) by auto
  have un: "\<not> unused p3 n" "\<forall>y\<in>set as \<union> set bs. \<not> unused p3 y"
    using fresh inv(3) u3 by (auto simp: p3_def hooks_simps)
  have le: "address (cell p3 y) \<le> address (cell p3 n)" if "y \<in> set (as @ [x])" for y
  proof (cases "y = x")
    case True
    then show ?thesis
      using n assms(6,8) by (auto simp: c word_le_nat_alt rstart_def)
  next
    case False
    then have "y \<in> set as"
      using that by simp
    then have "rend (cell p y) \<le> rstart t"
      using mid(5) tv(2) by fastforce
    moreover have "rstart (cell p y) \<le> rend (cell p y)"
      by (simp add: rstart_def rend_def)
    ultimately have "rstart (cell p y) \<le> rstart t"
      by (rule order_trans [rotated])
    then show ?thesis
      using \<open>y \<in> set as\<close> False n assms(8) by (auto simp: c word_le_nat_alt rstart_def)
  qed
  have "mrl_insert (cell p3) ((as @ [x]) @ bs) n = (as @ [x]) @ n # bs"
  proof (rule mrl_insert_between)
    show "address (cell p3 y) \<le> address (cell p3 n)" if "y \<in> set (as @ [x])" for y
      using that by (rule le)
    show "bs = [] \<or> address (cell p3 n) < address (cell p3 (hd bs))"
    proof (cases bs)
      case (Cons b bs')
      then have "rend (cell p x) \<le> rstart (cell p b)" "b \<noteq> x" "b \<noteq> n"
        using mid(3,6) n by auto
      then show ?thesis
        using Cons tv tt assms(8) by (auto simp: c word_less_nat_alt rstart_def)
    qed simp
  qed (use mid in auto)
  then show "mrl_insert (cell p3) (as @ x # bs) n = as @ x # n # bs"
    by simp
  have agree: "cell p3 y = cell p y" if "y \<in> set as \<union> set bs" for y
    using that n mid by (auto simp: c)
  have cn: "cell p3 n = t'" "cell p3 x = r"
    using n by (auto simp: c)
  have bounds: "rstart (cell p x) \<le> rstart t'" "rend t' \<le> rend (cell p x)"
    using tv assms(8,9) by auto
  show "map_inv p3 (as @ x # n # bs)" if "rsize r \<noteq> 0"
  proof -
    note rv = piece_valid [OF assms(2) that mid(1)]
    have "wf_regions (cell p3) [x, n]"
      using cn n rv tt assms(5,8) that by (auto simp: wf_regions_Cons before_def)
    then have "wf_regions (cell p3) (as @ [x, n] @ bs)"
      using cn n mid(2,3) rv bounds by (intro wf_pieces [OF inv(1) agree]) auto
    then show ?thesis
      using p3 un nx by (auto simp: map_inv_def)
  qed
  have "wf_regions (cell p3) (as @ [n] @ bs)"
    using cn n tt bounds by (intro wf_pieces [OF inv(1) agree]) (auto simp: wf_regions_Cons)
  then show "map_inv (free p3 x) (as @ n # bs)"
    using p3 un nx n mid by (auto simp: map_inv_def hooks_simps)
qed

lemma cut_and_stitch_pieces:
  assumes "map_inv p (as @ x # bs)" "rend hole \<le> 2 ^ 32" "no_span (cell p x) hole"
    and "mr_cut_and_stitch alloc free (as @ x # bs) p x hole = Inr (xs', p')"
  shows "\<exists>mid. xs' = as @ mid @ bs \<and> pieces p as x hole bs mid p'"
proof -
  have inv: "wf_regions (cell p) (as @ x # bs)" "\<not> unused p x"
    using assms(1) by (simp_all add: map_inv_def)
  note mid = wf_middle [OF inv(1)]
  obtain ov r t where cut: "mr_cut (cell p x) hole = (ov, r, t)"
    by (cases "mr_cut (cell p x) hole")
  have del: "ll_delete (as @ x # ys) x = as @ ys" for ys
    using mid(2) by (rule ll_delete_middle)
  show ?thesis
  proof (cases ov)
    case False
    then have "rbytes (cell p x) \<inter> rbytes hole = {}"
      using mr_cut_miss [OF mid(1) assms(2,3)] cut by simp
    then show ?thesis
      using assms(1,4) cut False
      by (intro exI [of _ "[x]"]) (auto simp: mr_cut_and_stitch_def pieces_def only_refl)
  next
    case True
    then have cut': "mr_cut (cell p x) hole = (True, r, t)"
      using cut by simp
    note hit = mr_cut_hit [OF mid(1) assms(2,3) cut']
    have er: "rsize r = 0 \<Longrightarrow> rbytes r = {}" "rsize t = 0 \<Longrightarrow> rbytes t = {}"
      by (simp_all add: rbytes_def)
    show ?thesis
    proof (cases "rsize t = 0")
      case t0: True
      show ?thesis
      proof (cases "rsize r = 0")
        case True
        have "xs' = as @ bs" "p' = free (set_cell x r p) x"
          using assms(4) cut' t0 True del by (auto simp: mr_cut_and_stitch_def)
        then show ?thesis
          using hit t0 True er stitch_drop [OF assms(1), of r]
          by (intro exI [of _ "[]"]) (auto simp: pieces_def only_def hooks_simps)
      next
        case False
        have "xs' = as @ x # bs" "p' = set_cell x r p"
          using assms(4) cut' t0 False by (auto simp: mr_cut_and_stitch_def)
        then show ?thesis
          using hit t0 False er stitch_keep [OF assms(1), of r]
          by (intro exI [of _ "[x]"]) (auto simp: pieces_def only_def hooks_simps)
      qed
    next
      case False
      let ?t = "r \<lparr> address := address t, rsize := rsize t \<rparr>"
      obtain n p2 where al: "alloc (set_cell x r p) = Inr (n, p2)"
        using assms(4) cut' False
        by (auto simp: mr_cut_and_stitch_def kres_simps split: prod.splits)
      have t': "rstart ?t = rstart t" "rend ?t = rend t" "rbytes ?t = rbytes t"
        by (simp_all add: rstart_def rend_def rbytes_def)
      have "rsize r \<noteq> 0 \<longrightarrow> rend r \<le> rstart t" "rstart r \<le> rstart t" "piece_of (cell p x) r"
        "piece_of (cell p x) t"
        using hit False by auto
      note ins = stitch_insert [OF assms(1) this(3,4) False this(1,2) al t'(1,2)]
      define p3 where "p3 = set_cell n ?t p2"
      have c2: "cell p2 x = r"
        using alloc_cell [OF al] by simp
      have nx: "n \<noteq> x"
        using ins(1) by auto
      have res: "mr_cut_and_stitch alloc free (as @ x # bs) p x hole =
          (if rsize r = 0 then Inr (as @ n # bs, free p3 x) else Inr (as @ x # n # bs, p3))"
        using cut' False al c2 nx ins(3,4) del
        by (simp add: mr_cut_and_stitch_def Let_def p3_def)
      have bytes: "rbytes r \<union> rbytes ?t = rbytes (cell p x) - rbytes hole"
        using hit t'(3) by simp
      have more: "mr_region.more r = mr_region.more (cell p x)"
        using hit by simp
      show ?thesis
      proof (cases "rsize r = 0")
        case True
        then have "xs' = as @ n # bs" "p' = free p3 x"
          using res assms(4) by auto
        moreover have "pieces p as x hole bs [n] (free p3 x)"
          using ins(2,3,6,9) bytes more er(1) True nx
          by (auto simp: pieces_def only_def hooks_simps p3_def)
        ultimately show ?thesis
          by auto
      next
        case r: False
        then have "xs' = as @ x # n # bs" "p' = p3"
          using res assms(4) by auto
        moreover have "pieces p as x hole bs [x, n] p3"
          using ins(2,3,9) ins(5) [OF r] bytes more nx
          by (auto simp: pieces_def only_def p3_def)
        ultimately show ?thesis
          by auto
      qed
    qed
  qed
qed

section \<open>Subtracting a range\<close>

definition subtracted :: "'a mr_region_scheme region_pool \<Rightarrow> u32 list \<Rightarrow> 'a mr_region_scheme \<Rightarrow>
    u32 list \<Rightarrow> 'a mr_region_scheme region_pool \<Rightarrow> bool" where
  "subtracted p bs hole cs p' \<longleftrightarrow>
     map_bytes (cell p') cs = map_bytes (cell p) bs - rbytes hole
     \<and> set cs \<subseteq> set bs \<union> {y. unused p y} \<and> only p (set bs) p'"

text \<open>While the pool has structures the cut does not fail, and takes at most one.\<close>

lemma cut_and_stitch_returns:
  assumes "room (Suc k) p"
  shows "\<exists>xs' p'. mr_cut_and_stitch alloc free xs p x hole = Inr (xs', p') \<and> room k p'"
proof -
  obtain ov r t where cut: "mr_cut (cell p x) hole = (ov, r, t)"
    by (cases "mr_cut (cell p x) hole")
  obtain y p1 where al: "alloc (set_cell x r p) = Inr (y, p1)" "room k p1"
    using alloc_room [of k "set_cell x r p"] assms by (auto simp: cell_room)
  have "room k p"
    using assms by (rule less_room)
  then show ?thesis
    using cut al by (auto simp: mr_cut_and_stitch_def Let_def cell_room free_room)
qed

lemma subtract_from:
  assumes "map_inv p (as @ bs)" "rend hole \<le> 2 ^ 32" "\<And>x. x \<in> set bs \<Longrightarrow> no_span (cell p x) hole"
  shows "\<exists>res. mrl_subtract_from alloc free (as @ bs) p (ll_head bs) hole = Some res \<and>
    (\<forall>xs' p'. res = Inr (xs', p') \<longrightarrow>
       (\<exists>cs. xs' = as @ cs \<and> map_inv p' xs' \<and> subtracted p bs hole cs p')) \<and>
    (room (length bs) p \<longrightarrow> (\<exists>r. res = Inr r))"
  using assms(1,3)
proof (induction bs arbitrary: as p)
  case Nil
  then show ?case
    by (auto simp: mrl_subtract_from.simps ll_head_def subtracted_def only_refl)
next
  case (Cons x bs)
  have wf: "wf_regions (cell p) (as @ x # bs)"
    using Cons.prems(1) by (simp add: map_inv_def)
  note mid = wf_middle [OF wf]
  have nxt: "ll_next (as @ x # bs) x = ll_head bs"
    using mid(2) by (rule ll_next_middle)
  have head: "ll_head (x # bs) = Some x"
    by (simp add: ll_head_def)
  show ?case
  proof (cases "mr_cut_and_stitch alloc free (as @ x # bs) p x hole")
    case (Inl e)
    then have "\<not> room (length (x # bs)) p"
      using cut_and_stitch_returns [of "length bs" p "as @ x # bs" x hole] by auto
    then show ?thesis
      using Inl by (subst mrl_subtract_from.simps) (simp add: head)
  next
    case (Inr r)
    then obtain xs1 p1 where r: "mr_cut_and_stitch alloc free (as @ x # bs) p x hole = Inr (xs1, p1)"
      by (cases r) simp
    obtain ms where xs1: "xs1 = as @ ms @ bs" and ms: "pieces p as x hole bs ms p1"
      using cut_and_stitch_pieces [OF Cons.prems(1) assms(2) _ r] Cons.prems(2) by auto
    have same: "cell p1 y = cell p y" "\<not> unused p1 y" if "y \<in> set bs" for y
      using ms that mid(3) Cons.prems(1) by (auto simp: pieces_def only_def map_inv_def)
    have inv1: "map_inv p1 ((as @ ms) @ bs)"
      using ms by (simp add: pieces_def)
    then have ih: "\<exists>res. mrl_subtract_from alloc free ((as @ ms) @ bs) p1 (ll_head bs) hole = Some res \<and>
      (\<forall>xs' p'. res = Inr (xs', p') \<longrightarrow>
         (\<exists>cs. xs' = (as @ ms) @ cs \<and> map_inv p' xs' \<and> subtracted p1 bs hole cs p')) \<and>
      (room (length bs) p1 \<longrightarrow> (\<exists>r. res = Inr r))"
      using Cons.prems(2) same by (intro Cons.IH) auto
    have step: "mrl_subtract_from alloc free (as @ x # bs) p (ll_head (x # bs)) hole =
        mrl_subtract_from alloc free ((as @ ms) @ bs) p1 (ll_head bs) hole"
      by (subst mrl_subtract_from.simps) (simp add: r head nxt xs1)
    have "subtracted p (x # bs) hole (ms @ cs) p'"
      if sub: "subtracted p1 bs hole cs p'" for cs p'
    proof -
      have dis: "set ms \<inter> set bs = {}" "\<forall>y\<in>set ms. \<not> unused p1 y"
        using inv1 by (auto simp: map_inv_def wf_regions_append)
      have "map_bytes (cell p') ms = map_bytes (cell p1) ms"
        using sub dis by (intro map_bytes_cong) (auto simp: subtracted_def only_def)
      moreover have "map_bytes (cell p1) bs = map_bytes (cell p) bs"
        using same by (intro map_bytes_cong) auto
      moreover have up: "unused p y" if "unused p1 y" "y \<noteq> x" for y
        using ms that by (auto simp: pieces_def only_def)
      moreover have "only p (set (x # bs)) p'"
        using ms sub by (auto simp: pieces_def subtracted_def intro: only_trans only_mono)
      ultimately show ?thesis
        using ms sub by (auto simp: pieces_def subtracted_def)
    qed
    moreover have "room (length bs) p1" if "room (length (x # bs)) p"
      using cut_and_stitch_returns [of "length bs" p "as @ x # bs" x hole] that r by auto
    ultimately show ?thesis
      using ih unfolding step by fastforce
  qed
qed

lemma subtract_map:
  assumes "map_inv p xs" "valid_region hole" "span_ok (map_bytes (cell p) xs \<union> rbytes hole)"
  shows "\<exists>res. mrl_subtract alloc free xs p hole = Some res \<and>
    (\<forall>xs' p'. res = Inr (xs', p') \<longrightarrow> map_inv p' xs' \<and> subtracted p xs hole xs' p') \<and>
    (room (length xs) p \<longrightarrow> (\<exists>r. res = Inr r))"
proof -
  have "no_span (cell p x) hole" if "x \<in> set xs" for x
    using assms that
    by (intro span_okD [OF assms(3)]) (auto simp: map_bytes_def map_inv_def wf_regions_def)
  then show ?thesis
    using subtract_from [of p "[]" xs hole] assms(1,2)
    by (auto simp: mrl_subtract_def valid_region_def)
qed

section \<open>Adding a range\<close>

definition added :: "'a mr_region_scheme region_pool \<Rightarrow> u32 list \<Rightarrow> u32 \<Rightarrow>
    u32 list \<Rightarrow> 'a mr_region_scheme region_pool \<Rightarrow> bool" where
  "added p xs r xs' p' \<longleftrightarrow>
     map_inv p' xs' \<and> map_bytes (cell p') xs' = map_bytes (cell p) xs \<union> rbytes (cell p r)
     \<and> set xs' \<subseteq> insert r (set xs) \<and> only p (insert r (set xs)) p'"

text \<open>Merging the neighbour into its successor and dropping it.\<close>

lemma merge_next:
  assumes "map_inv p (as @ x # y # bs)" "span_ok (map_bytes (cell p) (as @ x # y # bs))"
    and "mr_merge pre_merge (cell p y) (cell p x) = Some m"
  defines "p' \<equiv> free (set_cell y m p) x"
  shows "map_inv p' (as @ y # bs)" "map_bytes (cell p') (as @ y # bs) = map_bytes (cell p) (as @ x # y # bs)"
    and "only p {x, y} p'"
proof -
  have wf: "wf_regions (cell p) (as @ x # y # bs)" and pinv: "pool_inv p"
    and live: "\<forall>z\<in>set (as @ x # y # bs). \<not> unused p z"
    using assms(1) by (simp_all add: map_inv_def)
  have d: "x \<notin> set as" "x \<noteq> y" "x \<notin> set bs" "y \<notin> set as" "y \<notin> set bs" "set as \<inter> set bs = {}"
    and v: "valid_region (cell p x)" "valid_region (cell p y)"
    and le: "rend (cell p x) \<le> rstart (cell p y)"
    using wf by (auto simp: wf_regions_append wf_regions_Cons before_def)
  have "no_span (cell p y) (cell p x)"
    using v by (intro span_okD [OF assms(2)]) (auto simp: map_bytes_def)
  note m = mr_merge_Some [OF v(2,1) this assms(3)]
  have c: "cell p' = (cell p)(y := m)"
    by (simp add: p'_def hooks_simps)
  have "rstart m = rstart (cell p x)" "rend m = rend (cell p y)"
    using m(3,4) le rstart_less_rend [OF v(1)] rstart_less_rend [OF v(2)] by (auto simp: max_def min_def)
  then have "wf_regions (cell p') (as @ [y] @ bs)"
    using wf d m(5)
    by (intro wf_splice [of "cell p"])
      (auto simp: c wf_regions_append wf_regions_Cons before_def)
  then show "map_inv p' (as @ y # bs)"
    using pinv live d by (auto simp: map_inv_def p'_def hooks_simps)
  show "map_bytes (cell p') (as @ y # bs) = map_bytes (cell p) (as @ x # y # bs)"
    using m(6) d by (auto simp: c)
  show "only p {x, y} p'"
    using c by (auto simp: only_def p'_def hooks_simps)
qed

lemma merge_new:
  assumes "map_inv p (as @ x # bs)" "r \<notin> set (as @ x # bs)" "\<not> unused p r" "valid_region (cell p r)"
    and "map_bytes (cell p) (as @ x # bs) \<inter> rbytes (cell p r) = {}"
    and "span_ok (map_bytes (cell p) (as @ x # bs) \<union> rbytes (cell p r))"
    and "\<And>a. a \<in> set as \<Longrightarrow> rend (cell p a) \<le> rstart (cell p r)"
    and "mr_merge pre_merge (cell p x) (cell p r) = Some m"
  defines "p' \<equiv> free (set_cell x m p) r"
  shows "added p (as @ x # bs) r (as @ x # bs) p'"
proof -
  have wf: "wf_regions (cell p) (as @ x # bs)" and pinv: "pool_inv p"
    and live: "\<forall>z\<in>set (as @ x # bs). \<not> unused p z"
    using assms(1) by (simp_all add: map_inv_def)
  note mid = wf_middle [OF wf]
  have "no_span (cell p x) (cell p r)"
    using mid(1) assms(4) by (intro span_okD [OF assms(6)]) (auto simp: map_bytes_def)
  note m = mr_merge_Some [OF mid(1) assms(4) this assms(8)]
  have c: "cell p' = (cell p)(x := m)"
    by (simp add: p'_def hooks_simps)
  have after: "rend m \<le> rstart (cell p b)" if b: "b \<in> set bs" for b
  proof -
    have vb: "valid_region (cell p b)"
      using wf b by (simp add: wf_regions_def)
    have "rbytes (cell p b) \<inter> rbytes (cell p r) = {}"
      using assms(5) b by (auto simp: map_bytes_def)
    then have "rend (cell p b) \<le> rstart (cell p r) \<or> rend (cell p r) \<le> rstart (cell p b)"
      using disjoint_order [OF vb assms(4)] by blast
    moreover have "rstart (cell p r) \<le> rend (cell p x)" "rend (cell p x) \<le> rstart (cell p b)"
      using m(2) mid(6) [OF b] by (auto simp: touching_def)
    ultimately show ?thesis
      using m(4) rstart_less_rend [OF vb] by auto
  qed
  have "rend (cell p a) \<le> rstart m" if "a \<in> set as" for a
    using m(3) assms(7) [OF that] mid(5) [OF that] by auto
  then have "wf_regions (cell p') (as @ [x] @ bs)"
    using mid m(5) after
    by (intro wf_splice [OF wf_drop_middle [OF wf]]) (auto simp: c wf_regions_Cons)
  then have "map_inv p' (as @ x # bs)"
    using pinv live assms(2,3) by (auto simp: map_inv_def p'_def hooks_simps)
  moreover have "map_bytes (cell p') (as @ x # bs) = map_bytes (cell p) (as @ x # bs) \<union> rbytes (cell p r)"
    using m(6) mid by (auto simp: c)
  moreover have "only p (insert r (set (as @ x # bs))) p'"
    using c by (auto simp: only_def p'_def hooks_simps)
  ultimately show ?thesis
    by (auto simp: added_def)
qed

lemma insert_new:
  assumes "map_inv p (as @ bs)" "r \<notin> set (as @ bs)" "\<not> unused p r" "valid_region (cell p r)"
    and "\<And>a. a \<in> set as \<Longrightarrow> rend (cell p a) \<le> rstart (cell p r)"
    and "\<And>b. b \<in> set bs \<Longrightarrow> rend (cell p r) \<le> rstart (cell p b)"
  shows "added p (as @ bs) r (as @ r # bs) p"
proof -
  have "wf_regions (cell p) (as @ [r] @ bs)"
    using assms by (intro wf_splice [of "cell p"]) (auto simp: map_inv_def wf_regions_Cons)
  then show ?thesis
    using assms(1,3) by (auto simp: added_def map_inv_def only_refl)
qed

lemma added_then_merged:
  assumes "added p xs r (as @ x # y # bs) p1" "span_ok (map_bytes (cell p) xs \<union> rbytes (cell p r))"
    and "mr_merge pre_merge (cell p1 y) (cell p1 x) = Some m" "xs = as @ x # y # bs"
  shows "added p xs r (as @ y # bs) (free (set_cell y m p1) x)"
proof -
  have inv: "map_inv p1 (as @ x # y # bs)"
    and bytes: "map_bytes (cell p1) (as @ x # y # bs) = map_bytes (cell p) xs \<union> rbytes (cell p r)"
    using assms(1) by (simp_all add: added_def)
  note mn = merge_next [OF inv _ assms(3)]
  have "span_ok (map_bytes (cell p1) (as @ x # y # bs))"
    using assms(2) by (simp only: bytes)
  note mn = mn [OF this]
  moreover have "only p (insert r (set xs)) (free (set_cell y m p1) x)"
    using assms(1,4) mn(3) by (auto simp: added_def intro: only_trans)
  ultimately show ?thesis
    using assms(4) bytes by (auto simp: added_def)
qed

lemma add_from:
  assumes "map_inv p (as @ bs)" "r \<notin> set (as @ bs)" "\<not> unused p r" "valid_region (cell p r)"
    and "map_bytes (cell p) (as @ bs) \<inter> rbytes (cell p r) = {}"
    and "span_ok (map_bytes (cell p) (as @ bs) \<union> rbytes (cell p r))"
    and "\<And>a. a \<in> set as \<Longrightarrow> rend (cell p a) \<le> rstart (cell p r)"
    and "mrl_add_from free pre_merge (as @ bs) p r bs = (xs', p')"
  shows "added p (as @ bs) r xs' p'"
  using assms
proof (induction bs arbitrary: as)
  case Nil
  then show ?case
    using insert_new [of p as "[]" r] by (auto simp: ll_append_def)
next
  case (Cons x bs)
  have wf: "wf_regions (cell p) (as @ x # bs)"
    using Cons.prems(1) by (simp add: map_inv_def)
  note mid = wf_middle [OF wf]
  have dis: "rbytes (cell p x) \<inter> rbytes (cell p r) = {}"
    using Cons.prems(5) by auto
  have order: "rend (cell p x) \<le> rstart (cell p r) \<or> rend (cell p r) \<le> rstart (cell p x)"
    using disjoint_order [OF mid(1) Cons.prems(4) dis] .
  show ?case
  proof (cases "mr_merge pre_merge (cell p x) (cell p r)")
    case (Some m)
    define p1 where "p1 = free (set_cell x m p) r"
    have ad: "added p (as @ x # bs) r (as @ x # bs) p1"
      unfolding p1_def using Cons.prems(1-7) Some by (intro merge_new) auto
    show ?thesis
    proof (cases bs)
      case Nil
      then show ?thesis
        using Cons.prems(8) Some ad by (simp add: p1_def)
    next
      case bs: (Cons y bs')
      show ?thesis
      proof (cases "mr_merge pre_merge (cell p1 y) (cell p1 x)")
        case None
        then show ?thesis
          using Cons.prems(8) Some ad bs by (simp add: p1_def)
      next
        case (Some m')
        then have "(xs', p') = (as @ y # bs', free (set_cell y m' p1) x)"
          using Cons.prems(8) \<open>mr_merge pre_merge (cell p x) (cell p r) = Some m\<close> bs mid(2)
          by (simp add: p1_def ll_delete_middle)
        then show ?thesis
          using added_then_merged [OF ad [unfolded bs] _ Some] Cons.prems(6) bs by simp
      qed
    qed
  next
    case None
    show ?thesis
    proof (cases "address (cell p r) < address (cell p x)")
      case True
      then have "rend (cell p r) \<le> rstart (cell p x)"
        using order rstart_less_rend [OF mid(1)] by (auto simp: rstart_def word_less_nat_alt)
      then have "rend (cell p r) \<le> rstart (cell p b)" if "b \<in> set (x # bs)" for b
        using that mid(6) [of b] rstart_less_rend [OF mid(1)] by fastforce
      moreover have "ll_prepend_elem (as @ x # bs) x r = as @ r # x # bs"
        using mid(2) by (induction as) auto
      ultimately show ?thesis
        using insert_new [of p as "x # bs" r] Cons.prems None True by auto
    next
      case False
      then have "rend (cell p x) \<le> rstart (cell p r)"
        using order rstart_less_rend [OF Cons.prems(4)] by (auto simp: rstart_def word_less_nat_alt)
      then show ?thesis
        using Cons.IH [of "as @ [x]"] Cons.prems None False by auto
    qed
  qed
qed

lemma add_map:
  assumes "map_inv p xs" "r \<notin> set xs" "\<not> unused p r" "valid_region (cell p r)"
    and "map_bytes (cell p) xs \<inter> rbytes (cell p r) = {}"
    and "span_ok (map_bytes (cell p) xs \<union> rbytes (cell p r))"
    and "mrl_add free pre_merge xs p r = (xs', p')"
  shows "added p xs r xs' p'"
  using add_from [of p "[]" xs r xs' p'] assms by (simp add: mrl_add_def)

end

section \<open>The pool of an instance\<close>

text \<open>
  Both instances take a structure from their free list, or from static memory
  when it is empty.  No structure is at the null address.
\<close>

definition pool_take :: "u32 \<Rightarrow> 'r region_pool \<Rightarrow> (u32 \<times> 'r region_pool) kres" where
  "pool_take n p =
     (case free_regions p of
        region # rest \<Rightarrow> Inr (region, p \<lparr> free_regions := rest \<rparr>)
      | [] \<Rightarrow>
          kbind (kalloc_static (klayout p) n 4)
            (\<lambda>(region, l). Inr (region, p \<lparr> klayout := l \<rparr>)))"

definition pool_unused :: "'r region_pool \<Rightarrow> u32 \<Rightarrow> bool" where
  "pool_unused p x \<longleftrightarrow>
     x = 0 \<or> x \<in> set (free_regions p) \<or> memory_start (klayout p) \<le> x"

definition pool_ok :: "'r region_pool \<Rightarrow> bool" where
  "pool_ok p \<longleftrightarrow>
     distinct (free_regions p)
     \<and> (\<forall>x\<in>set (free_regions p). 0 < x \<and> x < memory_start (klayout p))
     \<and> 0 < memory_start (klayout p) \<and> static_ok (klayout p)
     \<and> unat (memory_end (klayout p)) + 32 \<le> 2 ^ 32"

lemma static_struct_alloc:
  assumes "kalloc_static l n 4 = Inr (a, l')" "static_ok l" "unat (memory_end l) + 32 \<le> 2 ^ 32"
    and "unat n \<le> 28" "0 < n" "0 < memory_start l"
  shows "memory_start l \<le> a" "a < memory_start l'" "memory_start l \<le> memory_start l'" "0 < a"
    and "static_ok l'" "memory_end l' = memory_end l" "4 dvd unat a"
proof -
  have "unat (memory_start l) \<le> unat (memory_end l)"
    using assms(2) by (simp add: static_ok_def word_le_nat_alt)
  then have small: "unat (memory_start l) + 2 ^ 2 + unat n \<le> 2 ^ 32"
    using assms(3,4) by simp
  have "kalloc_static l n (2 ^ 2) = Inr (a, l')"
    using assms(1) by simp
  note ok = kalloc_static_ok [OF this _ small]
  show "memory_start l \<le> a" "static_ok l'" "memory_end l' = memory_end l" "4 dvd unat a"
    using ok by simp_all
  show lt: "a < memory_start l'"
    using ok(3) assms(5) by (simp add: word_less_nat_alt)
  show "memory_start l \<le> memory_start l'"
    using lt ok(2) by (simp add: order_trans less_imp_le)
  show "0 < a"
    using ok(2) assms(6) by (simp add: less_le_trans)
qed

lemma pool_take_hooks:
  assumes "pool_take n p = Inr (x, p')" "0 < n" "unat n \<le> 28"
  shows "cell p' = cell p"
    and "pool_ok p \<Longrightarrow> pool_ok p' \<and> pool_unused p x \<and> \<not> pool_unused p' x \<and> 0 < x
           \<and> (\<forall>y. pool_unused p' y \<longrightarrow> pool_unused p y)"
proof -
  show "cell p' = cell p"
    using assms(1)
    by (auto simp: pool_take_def kres_simps split: list.splits prod.splits)
  assume inv: "pool_ok p"
  show "pool_ok p' \<and> pool_unused p x \<and> \<not> pool_unused p' x \<and> 0 < x
      \<and> (\<forall>y. pool_unused p' y \<longrightarrow> pool_unused p y)"
  proof (cases "free_regions p")
    case (Cons a as)
    then show ?thesis
      using assms(1) inv
      by (auto simp: pool_take_def pool_unused_def pool_ok_def not_le)
  next
    case Nil
    then obtain l where l: "kalloc_static (klayout p) n 4 = Inr (x, l)" "p' = p \<lparr> klayout := l \<rparr>"
      using assms(1)
      by (auto simp: pool_take_def kres_simps)
    have "static_ok (klayout p)" "unat (memory_end (klayout p)) + 32 \<le> 2 ^ 32"
      "0 < memory_start (klayout p)"
      using inv by (simp_all add: pool_ok_def)
    note st = static_struct_alloc [OF l(1) this(1,2) assms(3,2) this(3)]
    show ?thesis
      using st l(2) inv Nil
      by (auto simp: pool_unused_def pool_ok_def not_le intro: less_le_trans order_trans)
  qed
qed

lemma pool_set_cell [simp]:
  "pool_ok (set_cell x r p) \<longleftrightarrow> pool_ok p" "pool_unused (set_cell x r p) y \<longleftrightarrow> pool_unused p y"
  by (simp_all add: pool_ok_def pool_unused_def)

lemma pool_give:
  assumes "pool_ok p" "\<not> pool_unused p x"
  shows "pool_ok (p \<lparr> free_regions := x # free_regions p \<rparr>)"
  using assms by (auto simp: pool_ok_def pool_unused_def not_le word_neq_0_conv)

text \<open>The pool can give \<open>k\<close> structures of \<open>n\<close> bytes.\<close>

fun has_room :: "u32 \<Rightarrow> nat \<Rightarrow> 'r region_pool \<Rightarrow> bool" where
  "has_room n 0 p \<longleftrightarrow> True"
| "has_room n (Suc k) p \<longleftrightarrow> (case pool_take n p of Inl _ \<Rightarrow> False | Inr (x, p') \<Rightarrow> has_room n k p')"

lemma has_room_take: "has_room n (Suc k) p \<Longrightarrow> \<exists>x p'. pool_take n p = Inr (x, p') \<and> has_room n k p'"
  by (auto split: sum.splits)

lemma pool_take_set_cell:
  "pool_take n (set_cell x r p) = (case pool_take n p of Inl e \<Rightarrow> Inl e | Inr (y, p') \<Rightarrow> Inr (y, set_cell x r p'))"
  by (cases p; cases "kalloc_static (klayout p) n 4")
    (auto simp: pool_take_def set_cell_def split: list.splits)

lemma has_room_set_cell [simp]: "has_room n k (set_cell x r p) \<longleftrightarrow> has_room n k p"
  by (induction k arbitrary: p) (auto simp: pool_take_set_cell split: sum.splits)

lemma has_room_less: "has_room n (Suc k) p \<Longrightarrow> has_room n k p"
  by (induction k arbitrary: p) (auto split: sum.splits)

lemma pool_take_given [simp]: "pool_take n (p \<lparr> free_regions := x # free_regions p \<rparr>) = Inr (x, p)"
  by (simp add: pool_take_def)

lemma has_room_give:
  assumes "has_room n k p"
  shows "has_room n k (p \<lparr> free_regions := x # free_regions p \<rparr>)"
proof (cases k)
  case (Suc j)
  then have "has_room n j p"
    using assms has_room_less by blast
  then show ?thesis
    by (simp add: Suc)
qed simp

end
