(* ===== verification/Allocator.thy ===== *)
theory Allocator
  imports RangeMap
begin

text \<open>
  mm/allocator.c: maps of available memory.  The region structures live in a
  pool (\<open>_free_regions\<close> and static memory) shared by every map; a map is the list
  of the addresses of its structures.  The pool provides the interface of
  mm/range.h, from which the allocation, release and reservation of memory are
  shown to move exactly the bytes they should.
\<close>

section \<open>Definitions\<close>

definition ALLOC_VM_USER :: u32 where "ALLOC_VM_USER = 1"
definition ALLOC_VM_KERNEL :: u32 where "ALLOC_VM_KERNEL = 2"
definition ALLOC_PM_DMA :: u32 where "ALLOC_PM_DMA = 4"
definition ALLOC_PM_NORMAL :: u32 where "ALLOC_PM_NORMAL = 8"
definition ALLOC_PM_HIGH :: u32 where "ALLOC_PM_HIGH = 16"

record allocator_region = mr_region +
  flags :: u32

type_synonym alloc_pool = "allocator_region region_pool"

text \<open>\<open>sizeof(struct allocator_region)\<close>: five words.\<close>

definition allocator_region_sizeof :: u32 where "allocator_region_sizeof = 20"

definition allocator_region_alloc :: "alloc_pool \<Rightarrow> (u32 \<times> alloc_pool) kres" where
  "allocator_region_alloc p =
     (case free_regions p of
        region # rest \<Rightarrow> Inr (region, p \<lparr> free_regions := rest \<rparr>)
      | [] \<Rightarrow>
          kbind (kalloc_static (klayout p) allocator_region_sizeof 4)
            (\<lambda>(region, l). Inr (region, p \<lparr> klayout := l \<rparr>)))"

definition allocator_region_free :: "alloc_pool \<Rightarrow> u32 \<Rightarrow> alloc_pool" where
  "allocator_region_free p region = p \<lparr> free_regions := region # free_regions p \<rparr>"

definition allocator_region_pre_merge :: "allocator_region \<Rightarrow> allocator_region \<Rightarrow> bool" where
  "allocator_region_pre_merge a b = (if flags a = flags b then True else False)"

definition allocator_region_add :: "u32 list \<Rightarrow> alloc_pool \<Rightarrow> u32 \<Rightarrow> u32 list \<times> alloc_pool" where
  "allocator_region_add regions p region =
     mrl_add allocator_region_free allocator_region_pre_merge regions p region"

definition allocator_region_cut_and_stitch ::
    "u32 list \<Rightarrow> alloc_pool \<Rightarrow> u32 \<Rightarrow> allocator_region \<Rightarrow> (u32 list \<times> alloc_pool) kres" where
  "allocator_region_cut_and_stitch regions p region hole =
     mr_cut_and_stitch allocator_region_alloc allocator_region_free regions p region hole"

definition allocator_region_subtract ::
    "u32 list \<Rightarrow> alloc_pool \<Rightarrow> allocator_region \<Rightarrow> (u32 list \<times> alloc_pool) kres option" where
  "allocator_region_subtract regions p hole =
     mrl_subtract allocator_region_alloc allocator_region_free regions p hole"

definition allocator_map_init :: "u32 list" where
  "allocator_map_init = []"

definition allocator_region_add_new ::
    "u32 list \<Rightarrow> alloc_pool \<Rightarrow> u32 \<Rightarrow> u32 \<Rightarrow> u32 \<Rightarrow> (u32 list \<times> alloc_pool) kres" where
  "allocator_region_add_new regions p addr sz fl =
     kbind (allocator_region_alloc p) (\<lambda>(region, p).
       kbind (kassert (region \<noteq> 0) ''region'') (\<lambda>_.
         Inr (allocator_region_add regions
                (set_cell region \<lparr> address = addr, rsize = sz, flags = fl \<rparr> p) region)))"

text \<open>
  The link of a structure that the loop body has released leads into the free
  list, which uses the same field.
\<close>

definition region_next :: "u32 list \<Rightarrow> alloc_pool \<Rightarrow> u32 \<Rightarrow> u32 option" where
  "region_next regions p el =
     (if el \<in> set regions then ll_next regions el else ll_next (free_regions p) el)"

partial_function (option) init_copy_from ::
    "u32 list \<Rightarrow> alloc_pool \<Rightarrow> u32 option \<Rightarrow> (u32 list \<times> alloc_pool) kres option" where
  "init_copy_from regions p cur =
     (case cur of
        None \<Rightarrow> Some (Inr (regions, p))
      | Some region \<Rightarrow>
          (case allocator_region_add_new regions p (address (cell p region))
                  (rsize (cell p region)) (flags (cell p region)) of
             Inl e \<Rightarrow> Some (Inl e)
           | Inr r \<Rightarrow> init_copy_from (fst r) (snd r) (region_next (fst r) (snd r) region)))"

text \<open>The loop of the code runs over the destination, not over \<open>src\<close>.\<close>

definition allocator_map_init_copy ::
    "u32 list \<Rightarrow> u32 list \<Rightarrow> alloc_pool \<Rightarrow> (u32 list \<times> alloc_pool) kres option" where
  "allocator_map_init_copy regions src p = init_copy_from regions p (ll_head regions)"

text \<open>The flags of the local hole are never set and never read.\<close>

definition allocator_range_acquire ::
    "u32 list \<Rightarrow> alloc_pool \<Rightarrow> u32 \<Rightarrow> u32 \<Rightarrow> (u32 list \<times> alloc_pool) kres option" where
  "allocator_range_acquire regions p addr sz =
     allocator_region_subtract regions p \<lparr> address = addr, rsize = sz, flags = 0 \<rparr>"

definition allocator_mem_free ::
    "u32 list \<Rightarrow> alloc_pool \<Rightarrow> u32 \<Rightarrow> u32 \<Rightarrow> u32 \<Rightarrow> (u32 list \<times> alloc_pool) kres" where
  "allocator_mem_free regions p ptr sz fl =
     kbind (allocator_region_alloc p) (\<lambda>(region, p).
       Inr (allocator_region_add regions
              (set_cell region \<lparr> address = ptr, rsize = sz, flags = fl \<rparr> p) region))"

definition remaining_size :: "allocator_region \<Rightarrow> u32 \<Rightarrow> u32" where
  "remaining_size r alignment =
     rsize r - (align_address (address r) alignment - address r)"

text \<open>The result is \<open>None\<close> when the function returns false.\<close>

definition allocator_mem_alloc ::
    "u32 list \<Rightarrow> alloc_pool \<Rightarrow> u32 \<Rightarrow> u32 \<Rightarrow> u32 \<Rightarrow> (u32 list \<times> alloc_pool \<times> u32 option) kres" where
  "allocator_mem_alloc regions p sz alignment fl =
     kbind (allocator_region_alloc p) (\<lambda>(hole, p).
       let alignment = (if alignment = 0 then 4 else alignment) in
       case List.find (\<lambda>region. (fl = 0 \<or> flags (cell p region) = fl)
                         \<and> remaining_size (cell p region) alignment \<ge> sz) regions of
         None \<Rightarrow> Inr (regions, p, None)
       | Some region \<Rightarrow>
           (let aligned_start = align_address (address (cell p region)) alignment;
                h = (cell p hole) \<lparr> address := aligned_start, rsize := sz \<rparr>
            in kbind (allocator_region_cut_and_stitch regions (set_cell hole h p) region h)
                 (\<lambda>(regions, p). Inr (regions, p, Some aligned_start))))"

text \<open>The figures that \<open>allocator_print_map_info\<close> prints, in the arithmetic of \<open>size_t\<close>.\<close>

definition allocator_print_map_info :: "u32 list \<Rightarrow> alloc_pool \<Rightarrow> u32 \<times> u32 \<times> u32" where
  "allocator_print_map_info regions p =
     (let (available, largest_block) =
        fold (\<lambda>region (available, largest_block).
               (available + rsize (cell p region),
                if rsize (cell p region) > largest_block then rsize (cell p region) else largest_block))
          regions (0, 0);
        fragmentation = (if available \<noteq> 0 then 100 - (100 * largest_block) div available else 0)
      in (available, largest_block, fragmentation))"

section \<open>The pool of region structures\<close>

text \<open>A map whose structures are in use and whose ranges are in order.\<close>

definition allocator_map_ok :: "alloc_pool \<Rightarrow> u32 list \<Rightarrow> bool" where
  "allocator_map_ok p xs \<longleftrightarrow>
     pool_ok p \<and> wf_regions (cell p) xs \<and> (\<forall>x\<in>set xs. \<not> pool_unused p x)"

text \<open>Structures that are in use outside \<open>X\<close> keep their contents and stay in use.\<close>

definition alloc_frame :: "alloc_pool \<Rightarrow> u32 set \<Rightarrow> alloc_pool \<Rightarrow> bool" where
  "alloc_frame p X p' \<longleftrightarrow>
     (\<forall>y. y \<notin> X \<longrightarrow> \<not> pool_unused p y \<longrightarrow> cell p' y = cell p y \<and> \<not> pool_unused p' y)"

lemma allocator_region_alloc_take: "allocator_region_alloc p = pool_take allocator_region_sizeof p"
  by (simp add: allocator_region_alloc_def pool_take_def)

lemma alloc_hooks:
  assumes "allocator_region_alloc p = Inr (x, p')"
  shows "cell p' = cell p"
    and "pool_ok p \<Longrightarrow> pool_ok p' \<and> pool_unused p x \<and> \<not> pool_unused p' x \<and> 0 < x
           \<and> (\<forall>y. pool_unused p' y \<longrightarrow> pool_unused p y)"
  using pool_take_hooks [of allocator_region_sizeof p x p'] assms
  by (simp_all add: allocator_region_alloc_take allocator_region_sizeof_def)

interpretation ar: region_hooks allocator_region_alloc allocator_region_free
  allocator_region_pre_merge pool_ok pool_unused "has_room allocator_region_sizeof"
proof
  show "cell p' = cell p" if "allocator_region_alloc p = Inr (x, p')" for p x p'
    using alloc_hooks(1) [OF that] .
  show "pool_ok p' \<and> pool_unused p x \<and> \<not> pool_unused p' x \<and>
      (\<forall>y. pool_unused p' y \<longrightarrow> pool_unused p y)"
    if "pool_ok p" "allocator_region_alloc p = Inr (x, p')" for p x p'
    using alloc_hooks(2) [OF that(2,1)] by simp
  show "pool_ok (allocator_region_free p x)"
    if "pool_ok p" "\<not> pool_unused p x" for p x
    using pool_give [OF that] by (simp add: allocator_region_free_def)
  show "mr_region.more a = mr_region.more b" if "allocator_region_pre_merge a b" for a b
    using that by (cases a; cases b) (auto simp: allocator_region_pre_merge_def split: if_splits)
  show "\<exists>x p'. allocator_region_alloc p = Inr (x, p') \<and> has_room allocator_region_sizeof k p'"
    if "has_room allocator_region_sizeof (Suc k) p" for k p
    using has_room_take [OF that] by (simp add: allocator_region_alloc_take)
  show "has_room allocator_region_sizeof k (allocator_region_free p x)" if "has_room allocator_region_sizeof k p" for k p x
    using has_room_give [OF that] by (simp add: allocator_region_free_def)
  show "has_room allocator_region_sizeof k p" if "has_room allocator_region_sizeof (Suc k) p" for k p
    using that by (rule has_room_less)
qed (auto simp: allocator_region_free_def pool_unused_def pool_ok_def)

lemma map_inv_eq: "ar.map_inv p xs \<longleftrightarrow> allocator_map_ok p xs"
  by (simp add: ar.map_inv_def allocator_map_ok_def)

lemma only_eq: "ar.only p X p' \<longleftrightarrow> alloc_frame p X p'"
  by (simp add: ar.only_def alloc_frame_def)

text \<open>Taking a structure from the pool leaves every map as it was.\<close>

lemma alloc_keeps_map:
  assumes "allocator_region_alloc p = Inr (x, p')" "allocator_map_ok p xs"
  shows "allocator_map_ok (set_cell x r p') xs" "x \<notin> set xs" "pool_unused p x"
    and "map_bytes (cell (set_cell x r p')) xs = map_bytes (cell p) xs"
    and "\<And>y. y \<in> set xs \<Longrightarrow> cell (set_cell x r p') y = cell p y"
    and "\<not> pool_unused (set_cell x r p') x" "alloc_frame p {} (set_cell x r p')"
proof -
  have inv: "pool_ok p" "wf_regions (cell p) xs" "\<forall>y\<in>set xs. \<not> pool_unused p y"
    using assms(2) by (simp_all add: allocator_map_ok_def)
  note h = alloc_hooks(2) [OF assms(1) inv(1)]
  note c = alloc_hooks(1) [OF assms(1)]
  show x: "x \<notin> set xs" "pool_unused p x"
    using h inv(3) by auto
  show "allocator_map_ok (set_cell x r p') xs"
    using h inv x c ar.hooks_simps by (auto simp: allocator_map_ok_def)
  show "map_bytes (cell (set_cell x r p')) xs = map_bytes (cell p) xs"
    using x c by simp
  show "cell (set_cell x r p') y = cell p y" if "y \<in> set xs" for y
    using that x c by auto
  show "\<not> pool_unused (set_cell x r p') x" "alloc_frame p {} (set_cell x r p')"
    using h c by (auto simp: alloc_frame_def ar.hooks_simps)
qed

lemma alloc_frame_trans:
  "alloc_frame p X p' \<Longrightarrow> alloc_frame p' Y p'' \<Longrightarrow> Y \<subseteq> X \<union> {y. pool_unused p y} \<Longrightarrow> alloc_frame p X p''"
  using ar.only_trans by (simp add: only_eq)

lemma alloc_frame_mono: "alloc_frame p X p' \<Longrightarrow> X \<subseteq> Y \<Longrightarrow> alloc_frame p Y p'"
  using ar.only_mono by (simp add: only_eq)

section \<open>Releasing and reserving memory\<close>

lemma add_new_region:
  assumes "allocator_map_ok p xs" "allocator_region_alloc p = Inr (x, p1)"
    and "sz \<noteq> 0" "unat ptr + unat sz \<le> 2 ^ 32" "map_bytes (cell p) xs \<inter> byte_range ptr sz = {}"
    and "span_ok (map_bytes (cell p) xs \<union> byte_range ptr sz)"
    and "allocator_region_add xs (set_cell x \<lparr> address = ptr, rsize = sz, flags = fl \<rparr> p1) x = (xs', p')"
  shows "allocator_map_ok p' xs'" "map_bytes (cell p') xs' = map_bytes (cell p) xs \<union> byte_range ptr sz"
    and "set xs' \<subseteq> set xs \<union> {y. pool_unused p y}" "alloc_frame p (set xs) p'"
proof -
  let ?r = "\<lparr> address = ptr, rsize = sz, flags = fl \<rparr>"
  let ?p = "set_cell x ?r p1"
  note k = alloc_keeps_map [OF assms(2,1)]
  have bytes: "rbytes ?r = byte_range ptr sz"
    by (simp add: rbytes_def)
  have "ar.added ?p xs x xs' p'"
  proof (rule ar.add_map)
    show "ar.map_inv ?p xs"
      using k(1) by (simp add: map_inv_eq)
    show "valid_region (cell ?p x)"
      using assms(3,4) by (simp add: valid_region_def rend_def)
    show "map_bytes (cell ?p) xs \<inter> rbytes (cell ?p x) = {}"
      "span_ok (map_bytes (cell ?p) xs \<union> rbytes (cell ?p x))"
      using k(2,4) bytes assms(5,6) by simp_all
    show "mrl_add allocator_region_free allocator_region_pre_merge xs ?p x = (xs', p')"
      using assms(7) by (simp add: allocator_region_add_def)
  qed (use k in simp_all)
  then have ad: "allocator_map_ok p' xs'" "map_bytes (cell p') xs' = map_bytes (cell ?p) xs \<union> rbytes ?r"
    "set xs' \<subseteq> insert x (set xs)" "alloc_frame ?p (insert x (set xs)) p'"
    by (simp_all add: ar.added_def map_inv_eq only_eq)
  show "allocator_map_ok p' xs'" "map_bytes (cell p') xs' = map_bytes (cell p) xs \<union> byte_range ptr sz"
    using ad k(4) bytes by simp_all
  show "set xs' \<subseteq> set xs \<union> {y. pool_unused p y}"
    using ad(3) k(3) by auto
  show "alloc_frame p (set xs) p'"
    using alloc_frame_trans [OF alloc_frame_mono [OF k(7)] ad(4), of "set xs"] k(3) by auto
qed

lemma mem_free_spec:
  assumes "allocator_map_ok p xs" "sz \<noteq> 0" "unat ptr + unat sz \<le> 2 ^ 32"
    and "map_bytes (cell p) xs \<inter> byte_range ptr sz = {}"
    and "span_ok (map_bytes (cell p) xs \<union> byte_range ptr sz)"
    and "allocator_mem_free xs p ptr sz fl = Inr (xs', p')"
  shows "allocator_map_ok p' xs'" "map_bytes (cell p') xs' = map_bytes (cell p) xs \<union> byte_range ptr sz"
    and "set xs' \<subseteq> set xs \<union> {y. pool_unused p y}" "alloc_frame p (set xs) p'"
proof -
  obtain x p1 where al: "allocator_region_alloc p = Inr (x, p1)"
    and ad: "allocator_region_add xs (set_cell x \<lparr> address = ptr, rsize = sz, flags = fl \<rparr> p1) x = (xs', p')"
    using assms(6) by (auto simp: allocator_mem_free_def kres_simps)
  note r = add_new_region [OF assms(1) al assms(2-5) ad]
  show "allocator_map_ok p' xs'" "map_bytes (cell p') xs' = map_bytes (cell p) xs \<union> byte_range ptr sz"
    "set xs' \<subseteq> set xs \<union> {y. pool_unused p y}" "alloc_frame p (set xs) p'"
    using r by simp_all
qed

lemma mem_free_returns:
  assumes "has_room allocator_region_sizeof (Suc k) p"
  shows "\<exists>xs' p'. allocator_mem_free xs p ptr sz fl = Inr (xs', p')"
  using ar.alloc_room [OF assms] by (auto simp: allocator_mem_free_def)

lemma add_new_eq_mem_free:
  assumes "pool_ok p"
  shows "allocator_region_add_new xs p ptr sz fl = allocator_mem_free xs p ptr sz fl"
proof (cases "allocator_region_alloc p")
  case (Inr r)
  then obtain x p1 where al: "allocator_region_alloc p = Inr (x, p1)"
    by (cases r) simp
  moreover have "x \<noteq> 0"
    using alloc_hooks(2) [OF al assms] by auto
  ultimately show ?thesis
    by (simp add: allocator_region_add_new_def allocator_mem_free_def)
qed (simp add: allocator_region_add_new_def allocator_mem_free_def)

lemma range_acquire_spec:
  assumes "allocator_map_ok p xs" "sz \<noteq> 0" "unat addr + unat sz \<le> 2 ^ 32"
    and "span_ok (map_bytes (cell p) xs \<union> byte_range addr sz)"
  shows "\<exists>res. allocator_range_acquire xs p addr sz = Some res \<and>
    (\<forall>xs' p'. res = Inr (xs', p') \<longrightarrow> allocator_map_ok p' xs' \<and>
       map_bytes (cell p') xs' = map_bytes (cell p) xs - byte_range addr sz \<and>
       alloc_frame p (set xs) p' \<and> set xs' \<subseteq> set xs \<union> {y. pool_unused p y}) \<and>
    (has_room allocator_region_sizeof (length xs) p \<longrightarrow> (\<exists>r. res = Inr r))"
proof -
  let ?h = "\<lparr> address = addr, rsize = sz, flags = 0 \<rparr>"
  have "valid_region ?h" "rbytes ?h = byte_range addr sz"
    using assms(2,3) by (simp_all add: valid_region_def rend_def rbytes_def)
  then show ?thesis
    using ar.subtract_map [of p xs ?h] assms(1,4)
    unfolding map_inv_eq ar.subtracted_def only_eq allocator_range_acquire_def
      allocator_region_subtract_def
    by auto
qed

section \<open>Allocating memory\<close>

text \<open>
  The aligned start of a region must lie within it; where it does not, the
  subtraction for \<open>remaining_size\<close> wraps around.
\<close>

definition align_fits :: "u32 \<Rightarrow> 'a mr_region_scheme \<Rightarrow> bool" where
  "align_fits al r \<longleftrightarrow>
     unat (address r) + unat al \<le> 2 ^ 32 \<and> unat (align_address (address r) al) \<le> rend r"

lemma remaining_size_fits:
  assumes "align_fits (2 ^ n) r" "n < 32"
  shows "unat (remaining_size r (2 ^ n)) = rend r - unat (align_address (address r) (2 ^ n))"
    and "rstart r \<le> unat (align_address (address r) (2 ^ n))"
    and "2 ^ n dvd unat (align_address (address r) (2 ^ n))"
proof -
  have le: "unat (address r) + 2 ^ n \<le> 2 ^ 32"
    using assms by (simp add: align_fits_def)
  note b = align_address_bounds [OF assms(2) le]
  show "rstart r \<le> unat (align_address (address r) (2 ^ n))"
    "2 ^ n dvd unat (align_address (address r) (2 ^ n))"
    using b by (simp_all add: rstart_def)
  have gap: "unat (align_address (address r) (2 ^ n) - address r) =
      unat (align_address (address r) (2 ^ n)) - unat (address r)"
    using b(2) by (simp add: unat_diff_le)
  then show "unat (remaining_size r (2 ^ n)) = rend r - unat (align_address (address r) (2 ^ n))"
    using b(2) assms(1) unfolding remaining_size_def align_fits_def rend_def
    by (subst unat_diff_le) linarith+
qed

lemma wf_disjoint:
  assumes "wf_regions c (as @ x # bs)"
  shows "rbytes (c x) \<inter> (map_bytes c as \<union> map_bytes c bs) = {}"
  using wf_middle(5,6) [OF assms] by (fastforce simp: map_bytes_def rbytes_eq)

lemma cut_region_spec:
  assumes "allocator_map_ok p (as @ x # bs)" "h \<notin> set (as @ x # bs)" "valid_region hole"
    and "rbytes hole \<subseteq> rbytes (cell p x)" "span_ok (map_bytes (cell p) (as @ x # bs))"
    and "allocator_region_cut_and_stitch (as @ x # bs) p x hole = Inr (xs', p')"
  shows "allocator_map_ok p' xs'"
    and "map_bytes (cell p') xs' = map_bytes (cell p) (as @ x # bs) - rbytes hole"
    and "set xs' \<subseteq> set (as @ x # bs) \<union> {y. pool_unused p y}" "alloc_frame p {x} p'"
proof -
  have inv: "ar.map_inv p (as @ x # bs)" and wf: "wf_regions (cell p) (as @ x # bs)"
    using assms(1) by (simp_all add: map_inv_eq allocator_map_ok_def)
  note mid = wf_middle [OF wf]
  have "no_span (cell p x) hole"
    using assms(3,4) mid(1) by (intro span_okD [OF assms(5)]) auto
  moreover have "rend hole \<le> 2 ^ 32"
    using assms(3) by (simp add: valid_region_def)
  ultimately obtain ms where xs': "xs' = as @ ms @ bs" and ms: "ar.pieces p as x hole bs ms p'"
    using ar.cut_and_stitch_pieces [OF inv _ _ assms(6) [unfolded allocator_region_cut_and_stitch_def]]
    by auto
  show "allocator_map_ok p' xs'" "alloc_frame p {x} p'"
    "set xs' \<subseteq> set (as @ x # bs) \<union> {y. pool_unused p y}"
    using ms xs' by (auto simp: ar.pieces_def map_inv_eq only_eq)
  have same: "cell p' y = cell p y" if "y \<in> set as \<union> set bs" for y
    using ms that mid(2,3) assms(1) by (auto simp: ar.pieces_def ar.only_def allocator_map_ok_def)
  have "map_bytes (cell p') as = map_bytes (cell p) as" "map_bytes (cell p') bs = map_bytes (cell p) bs"
    using same by (auto intro!: map_bytes_cong)
  then show "map_bytes (cell p') xs' = map_bytes (cell p) (as @ x # bs) - rbytes hole"
    using ms xs' wf_disjoint [OF wf] assms(4) by (auto simp: ar.pieces_def)
qed

lemma mem_alloc_Some:
  assumes "allocator_map_ok p xs" "sz \<noteq> 0" "n < 32" "\<And>x. x \<in> set xs \<Longrightarrow> align_fits (2 ^ n) (cell p x)"
    and "span_ok (map_bytes (cell p) xs)"
    and "allocator_mem_alloc xs p sz (2 ^ n) fl = Inr (xs', p', Some a)"
  shows "\<exists>x\<in>set xs. byte_range a sz \<subseteq> rbytes (cell p x) \<and> (fl = 0 \<or> flags (cell p x) = fl)"
    and "2 ^ n dvd unat a" "unat a + unat sz \<le> 2 ^ 32"
    and "allocator_map_ok p' xs'" "map_bytes (cell p') xs' = map_bytes (cell p) xs - byte_range a sz"
    and "\<exists>h. pool_unused p h \<and> \<not> pool_unused p' h \<and> h \<notin> set xs'"
    and "alloc_frame p (set xs) p'"
proof -
  obtain h p1 where al: "allocator_region_alloc p = Inr (h, p1)"
    using assms(6) by (auto simp: allocator_mem_alloc_def kres_simps)
  note c = alloc_hooks(1) [OF al]
  have pow: "(2 :: u32) ^ n \<noteq> 0"
    using assms(3) by simp
  let ?P = "\<lambda>x. (fl = 0 \<or> flags (cell p x) = fl) \<and> remaining_size (cell p x) (2 ^ n) \<ge> sz"
  obtain x where f: "List.find ?P xs = Some x"
    using assms(6) al c pow
    by (auto simp: allocator_mem_alloc_def Let_def split: option.splits)
  then have x: "x \<in> set xs" "?P x"
    by (auto simp: find_Some_iff)
  define al' where "al' = align_address (address (cell p x)) (2 ^ n)"
  define hole where "hole = (cell p h) \<lparr> address := al', rsize := sz \<rparr>"
  define p2 where "p2 = set_cell h hole p1"
  have a: "a = al'"
    and cut: "allocator_region_cut_and_stitch xs p2 x hole = Inr (xs', p')"
    using assms(6) al c pow f
    by (auto simp: allocator_mem_alloc_def Let_def kres_simps al'_def hole_def p2_def)
  note k = alloc_keeps_map [OF al assms(1)]
  note rem = remaining_size_fits [OF assms(4) [OF x(1)] assms(3)]
  have fits: "al' = a" "unat a + unat sz \<le> rend (cell p x)" "rstart (cell p x) \<le> unat a" "2 ^ n dvd unat a"
    using rem x(2) assms(4) [OF x(1)] a
    by (auto simp: al'_def word_le_nat_alt align_fits_def)
  have top: "rend (cell p x) \<le> 2 ^ 32"
    using assms(1) x(1) by (auto simp: allocator_map_ok_def wf_regions_def valid_region_def)
  have hb: "rbytes hole = byte_range a sz" "valid_region hole"
    using fits top assms(2) by (auto simp: hole_def rbytes_def valid_region_def rend_def)
  have sub: "byte_range a sz \<subseteq> rbytes (cell p x)"
    using fits by (auto simp: byte_range_def rbytes_eq)
  show "\<exists>x\<in>set xs. byte_range a sz \<subseteq> rbytes (cell p x) \<and> (fl = 0 \<or> flags (cell p x) = fl)"
    using x sub by auto
  show "2 ^ n dvd unat a" "unat a + unat sz \<le> 2 ^ 32"
    using fits top by simp_all
  obtain as bs where xs: "xs = as @ x # bs"
    using x(1) by (meson split_list)
  have ok2: "allocator_map_ok p2 xs" "h \<notin> set xs" "map_bytes (cell p2) xs = map_bytes (cell p) xs"
    "cell p2 x = cell p x" "\<not> pool_unused p2 h" "alloc_frame p {} p2"
    using k x(1) by (auto simp: p2_def)
  have "rbytes hole \<subseteq> rbytes (cell p2 x)" "span_ok (map_bytes (cell p2) xs)"
    using hb sub ok2 assms(5) by simp_all
  note r = cut_region_spec [OF ok2(1) [unfolded xs] ok2(2) [unfolded xs] hb(2) this(1)
      this(2) [unfolded xs] cut [unfolded xs]]
  show "allocator_map_ok p' xs'" "map_bytes (cell p') xs' = map_bytes (cell p) xs - byte_range a sz"
    using r ok2(3) xs hb by auto
  have "\<not> pool_unused p' h"
    using r(4) ok2(2,5) x(1) by (auto simp: alloc_frame_def)
  then show "\<exists>h. pool_unused p h \<and> \<not> pool_unused p' h \<and> h \<notin> set xs'"
    using k(3) r(3) ok2(2,5) xs by blast
  show "alloc_frame p (set xs) p'"
    using alloc_frame_trans [OF alloc_frame_mono [OF ok2(6)] r(4)] x(1) by auto
qed

lemma mem_alloc_None:
  assumes "n < 32" "\<And>x. x \<in> set xs \<Longrightarrow> align_fits (2 ^ n) (cell p x)"
    and "allocator_mem_alloc xs p sz (2 ^ n) fl = Inr (xs', p', None)"
  shows "xs' = xs" "cell p' = cell p"
    and "\<And>x b. x \<in> set xs \<Longrightarrow> fl = 0 \<or> flags (cell p x) = fl \<Longrightarrow> 2 ^ n dvd unat b \<Longrightarrow> sz \<noteq> 0 \<Longrightarrow>
      \<not> byte_range b sz \<subseteq> rbytes (cell p x)"
proof -
  obtain h p1 where al: "allocator_region_alloc p = Inr (h, p1)"
    using assms(3) by (auto simp: allocator_mem_alloc_def kres_simps)
  note c = alloc_hooks(1) [OF al]
  have pow: "(2 :: u32) ^ n \<noteq> 0"
    using assms(1) by simp
  let ?P = "\<lambda>x. (fl = 0 \<or> flags (cell p x) = fl) \<and> remaining_size (cell p x) (2 ^ n) \<ge> sz"
  have f: "List.find ?P xs = None" and r: "xs' = xs" "p' = p1"
    using assms(3) al c pow
    by (auto simp: allocator_mem_alloc_def Let_def kres_simps split: option.splits)
  then show "xs' = xs" "cell p' = cell p"
    using c by simp_all
  fix x and b :: u32
  assume x: "x \<in> set xs" "fl = 0 \<or> flags (cell p x) = fl" "2 ^ n dvd unat b" "sz \<noteq> 0"
  have small: "\<not> remaining_size (cell p x) (2 ^ n) \<ge> sz"
    using f x by (auto simp: find_None_iff)
  note rem = remaining_size_fits [OF assms(2) [OF x(1)] assms(1)]
  have fit: "unat (align_address (address (cell p x)) (2 ^ n)) \<le> rend (cell p x)"
    "unat (address (cell p x)) + 2 ^ n \<le> 2 ^ 32"
    using assms(2) [OF x(1)] assms(1) by (auto simp: align_fits_def)
  show "\<not> byte_range b sz \<subseteq> rbytes (cell p x)"
  proof
    assume sub: "byte_range b sz \<subseteq> rbytes (cell p x)"
    have "0 < unat sz"
      using x(4) by (simp add: unat_gt_0)
    then have "unat b \<in> byte_range b sz" "unat b + unat sz - 1 \<in> byte_range b sz"
      by (auto simp: byte_range_def)
    then have b: "rstart (cell p x) \<le> unat b" "unat b + unat sz \<le> rend (cell p x)"
      using sub \<open>0 < unat sz\<close> by (fastforce simp: rbytes_eq)+
    have "unat (align_address (address (cell p x)) (2 ^ n)) \<le> unat b"
    proof (rule ccontr)
      assume gt: "\<not> unat (align_address (address (cell p x)) (2 ^ n)) \<le> unat b"
      then have "unat b < unat (address (cell p x)) + 2 ^ n"
        "unat (align_address (address (cell p x)) (2 ^ n)) < unat (address (cell p x)) + 2 ^ n"
        using align_address_bounds(3) [OF assms(1) fit(2)] by auto
      then have "unat (align_address (address (cell p x)) (2 ^ n)) = unat b"
        using rem(2,3) b(1) x(3)
        by (intro aligned_unique [of "2 ^ n" _ _ "unat (address (cell p x))"]) (auto simp: rstart_def)
      then show False
        using gt by simp
    qed
    then show False
      using small rem(1) b(2) by (simp add: word_le_nat_alt)
  qed
qed

text \<open>With two structures in the pool an allocation returns, and it finds a block whenever there is one.\<close>

lemma mem_alloc_returns:
  assumes "has_room allocator_region_sizeof 2 p"
  shows "\<exists>xs' p' r. allocator_mem_alloc xs p sz al fl = Inr (xs', p', r)"
proof -
  obtain h p1 where al: "allocator_region_alloc p = Inr (h, p1)" and room: "has_room allocator_region_sizeof (Suc 0) p1"
    using ar.alloc_room [of "Suc 0" p] assms by (auto simp: numeral_2_eq_2)
  have "\<exists>xs' p'. allocator_region_cut_and_stitch xs (set_cell h r p1) x r' = Inr (xs', p')" for r x r'
    using ar.cut_and_stitch_returns [of 0 "set_cell h r p1" xs x r'] room
    by (auto simp: allocator_region_cut_and_stitch_def)
  then show ?thesis
    using al by (auto simp: allocator_mem_alloc_def Let_def kres_simps split: option.splits)
qed

definition block_fits :: "alloc_pool \<Rightarrow> u32 list \<Rightarrow> u32 \<Rightarrow> nat \<Rightarrow> u32 \<Rightarrow> bool" where
  "block_fits p xs sz al fl \<longleftrightarrow>
     (\<exists>x\<in>set xs. \<exists>b. (fl = 0 \<or> flags (cell p x) = fl) \<and> al dvd unat b \<and> byte_range b sz \<subseteq> rbytes (cell p x))"

section \<open>Properties\<close>

text \<open>
  A map of one region with two spare structures, for the examples.
\<close>

definition demo_pool :: alloc_pool where
  "demo_pool =
     \<lparr> cell = (\<lambda>_. \<lparr> address = 0x1000, rsize = 0x4000, flags = 2 \<rparr>),
       free_regions = [0x200, 0x214, 0x228],
       klayout = \<lparr> segment_start = 0, memory_start = 0x300, memory_end = 0x1000 \<rparr> \<rparr>"

lemma demo_pool_ok: "allocator_map_ok demo_pool [0x100]"
  by (simp add: demo_pool_def allocator_map_ok_def pool_ok_def wf_regions_def valid_region_def
      rend_def pool_unused_def static_ok_def)

lemma demo_pool_span: "span_ok (map_bytes (cell demo_pool) [0x100])"
  by (simp add: demo_pool_def span_ok_def rbytes_def byte_range_def)

lemma demo_pool_alloc:
  "\<exists>xs p. allocator_mem_alloc [0x100] demo_pool 0x1000 (2 ^ 12) 2 = Inr (xs, p, Some 0x1000)"
  by (simp add: demo_pool_def allocator_mem_alloc_def allocator_region_alloc_def remaining_size_def
      align_address_def allocator_region_cut_and_stitch_def mr_cut_and_stitch_def mr_cut_def
      START_POINT_IN_RANGE_def END_POINT_IN_RANGE_def END_POINT_GT_START_POINT_def
      END_POINT_LT_END_POINT_def set_cell_def Let_def)

lemma demo_pool_room: "has_room allocator_region_sizeof 2 demo_pool" "has_room allocator_region_sizeof (length [0x100 :: u32]) demo_pool"
  by (simp_all add: demo_pool_def pool_take_def numeral_2_eq_2)



text \<open>
  C6: while the pool has a structure, releasing a block that is not in the map returns and gives the map exactly the bytes of the
  block and keeps the order and the disjointness of its regions, whatever
  regions the block merges with.
\<close>

theorem mem_free_adds:
  assumes "allocator_map_ok p xs" "sz \<noteq> 0" "unat ptr + unat sz \<le> 2 ^ 32"
    and "map_bytes (cell p) xs \<inter> byte_range ptr sz = {}"
    and "span_ok (map_bytes (cell p) xs \<union> byte_range ptr sz)" "has_room allocator_region_sizeof 1 p"
  shows "\<exists>xs' p'. allocator_mem_free xs p ptr sz fl = Inr (xs', p') \<and> allocator_map_ok p' xs'
    \<and> map_bytes (cell p') xs' = map_bytes (cell p) xs \<union> byte_range ptr sz
    \<and> alloc_frame p (set xs) p'"
  using mem_free_returns [of 0 p xs ptr sz fl] mem_free_spec [OF assms(1-5), of fl] assms(6) by force

theorem mem_free_adds_witness:
  "\<exists>xs p. allocator_mem_free [0x100] demo_pool 0x5000 0x1000 2 = Inr (xs, p)
     \<and> map_bytes (cell p) xs = map_bytes (cell demo_pool) [0x100] \<union> byte_range 0x5000 0x1000"
proof -
  have "map_bytes (cell demo_pool) [0x100] \<inter> byte_range 0x5000 0x1000 = {}"
    "span_ok (map_bytes (cell demo_pool) [0x100] \<union> byte_range 0x5000 0x1000)"
    by (auto simp: demo_pool_def span_ok_def rbytes_def byte_range_def)
  then show ?thesis
    using mem_free_adds [OF demo_pool_ok, of "0x1000" "0x5000" 2] demo_pool_room(2) by auto
qed

text \<open>
  C7: with a structure in the pool for each region \<open>allocator_range_acquire\<close> ends and returns, and the map
  has lost exactly the bytes of the range, cut out of the regions that overlap it.
\<close>

theorem range_acquire_subtracts:
  assumes "allocator_map_ok p xs" "sz \<noteq> 0" "unat addr + unat sz \<le> 2 ^ 32"
    and "span_ok (map_bytes (cell p) xs \<union> byte_range addr sz)" "has_room allocator_region_sizeof (length xs) p"
  shows "\<exists>xs' p'. allocator_range_acquire xs p addr sz = Some (Inr (xs', p')) \<and> allocator_map_ok p' xs'
    \<and> map_bytes (cell p') xs' = map_bytes (cell p) xs - byte_range addr sz \<and> alloc_frame p (set xs) p'"
  using range_acquire_spec [OF assms(1-4)] assms(5) by fastforce

theorem range_acquire_subtracts_witness:
  "\<exists>xs p. allocator_range_acquire [0x100] demo_pool 0x2000 0x1000 = Some (Inr (xs, p))
     \<and> map_bytes (cell p) xs = map_bytes (cell demo_pool) [0x100] - byte_range 0x2000 0x1000"
proof -
  have "span_ok (map_bytes (cell demo_pool) [0x100] \<union> byte_range 0x2000 0x1000)"
    by (auto simp: demo_pool_def span_ok_def rbytes_def byte_range_def)
  then show ?thesis
    using range_acquire_subtracts [OF demo_pool_ok, of "0x1000" "0x2000"] demo_pool_room(2) by auto
qed

text \<open>
  Every successful \<open>allocator_mem_alloc\<close> loses a region structure: the one that
  described the block is afterwards neither free nor part of the map.
\<close>

theorem mem_alloc_leaks_hole:
  assumes "allocator_map_ok p xs" "sz \<noteq> 0" "n < 32" "\<And>x. x \<in> set xs \<Longrightarrow> align_fits (2 ^ n) (cell p x)"
    and "span_ok (map_bytes (cell p) xs)"
    and "allocator_mem_alloc xs p sz (2 ^ n) fl = Inr (xs', p', Some a)"
  shows "\<exists>h. pool_unused p h \<and> \<not> pool_unused p' h \<and> h \<notin> set xs'"
  using mem_alloc_Some(6) [OF assms] .

theorem mem_alloc_leaks_hole_witness:
  "\<exists>xs p h. allocator_mem_alloc [0x100] demo_pool 0x1000 (2 ^ 12) 2 = Inr (xs, p, Some 0x1000)
     \<and> pool_unused demo_pool h \<and> \<not> pool_unused p h \<and> h \<notin> set xs"
proof -
  obtain xs p where r: "allocator_mem_alloc [0x100] demo_pool 0x1000 (2 ^ 12) 2 = Inr (xs, p, Some 0x1000)"
    using demo_pool_alloc by blast
  have "align_fits (2 ^ 12) (cell demo_pool x)" for x
    by (simp add: align_fits_def demo_pool_def align_address_def rend_def)
  then show ?thesis
    using mem_alloc_leaks_hole [OF demo_pool_ok _ _ _ demo_pool_span r] r by auto
qed

text \<open>
  The subtraction for \<open>remaining_size\<close> wraps around when the aligned start lies
  beyond the region: a block outside the map is handed out.
\<close>

lemma mem_alloc_underflow:
  defines "p \<equiv> demo_pool \<lparr> cell := (\<lambda>_. \<lparr> address = 0x1001, rsize = 0x10, flags = 2 \<rparr>) \<rparr>"
  shows "\<exists>xs p'. allocator_mem_alloc [0x100] p 0x1000 0x1000 2 = Inr (xs, p', Some 0x2000)
    \<and> byte_range 0x2000 0x1000 \<inter> map_bytes (cell p) [0x100] = {}"
  unfolding p_def
  by (simp add: demo_pool_def allocator_mem_alloc_def allocator_region_alloc_def remaining_size_def
      align_address_def allocator_region_cut_and_stitch_def mr_cut_and_stitch_def mr_cut_def
      START_POINT_IN_RANGE_def END_POINT_IN_RANGE_def END_POINT_GT_START_POINT_def
      END_POINT_LT_END_POINT_def set_cell_def rbytes_def byte_range_def Let_def)

text \<open>\<open>allocator_map_init_copy\<close> into an initialised map copies nothing.\<close>

lemma map_init_copy_ignores_src:
  "allocator_map_init_copy allocator_map_init src p = Some (Inr ([], p))"
  by (simp add: allocator_map_init_copy_def allocator_map_init_def init_copy_from.simps ll_head_def)

end
