(* ===== verification/VmMap.thy ===== *)
theory VmMap
  imports RangeMap
begin

text \<open>
  mm/vm_map.c: the list of the blocks that an address space has handed out,
  the second instance of mm/range.h.  Its regions never merge, so that the size
  of each block can be found again when it is freed.
\<close>

section \<open>Definitions\<close>

type_synonym vm_pool = "mr_region region_pool"

text \<open>\<open>sizeof(struct vm_map_region)\<close>: four words.\<close>

definition vm_map_region_sizeof :: u32 where "vm_map_region_sizeof = 16"

definition vm_map_region_alloc :: "vm_pool \<Rightarrow> (u32 \<times> vm_pool) kres" where
  "vm_map_region_alloc p =
     (case free_regions p of
        region # rest \<Rightarrow> Inr (region, p \<lparr> free_regions := rest \<rparr>)
      | [] \<Rightarrow>
          kbind (kalloc_static (klayout p) vm_map_region_sizeof 4)
            (\<lambda>(region, l). Inr (region, p \<lparr> klayout := l \<rparr>)))"

definition vm_map_region_free :: "vm_pool \<Rightarrow> u32 \<Rightarrow> vm_pool" where
  "vm_map_region_free p region = p \<lparr> free_regions := region # free_regions p \<rparr>"

definition vm_map_region_pre_merge :: "mr_region \<Rightarrow> mr_region \<Rightarrow> bool" where
  "vm_map_region_pre_merge a b = False"

definition vm_map_region_add :: "u32 list \<Rightarrow> vm_pool \<Rightarrow> u32 \<Rightarrow> u32 list \<times> vm_pool" where
  "vm_map_region_add regions p region =
     mrl_add vm_map_region_free vm_map_region_pre_merge regions p region"

definition vm_map_init :: "u32 list" where
  "vm_map_init = []"

definition vm_map_region_add_new ::
    "u32 list \<Rightarrow> vm_pool \<Rightarrow> u32 \<Rightarrow> u32 \<Rightarrow> (u32 list \<times> vm_pool) kres" where
  "vm_map_region_add_new regions p addr sz =
     kbind (vm_map_region_alloc p) (\<lambda>(region, p).
       kbind (kassert (region \<noteq> 0) ''region'') (\<lambda>_.
         Inr (vm_map_region_add regions
                (set_cell region \<lparr> address = addr, rsize = sz \<rparr> p) region)))"

definition vm_map_region_remove :: "u32 list \<Rightarrow> vm_pool \<Rightarrow> u32 \<Rightarrow> u32 list \<times> vm_pool" where
  "vm_map_region_remove regions p addr =
     (case List.find (\<lambda>region. address (cell p region) = addr) regions of
        Some region \<Rightarrow> (ll_delete regions region, vm_map_region_free p region)
      | None \<Rightarrow> (regions, p))"

definition vm_map_region_find_address :: "u32 list \<Rightarrow> vm_pool \<Rightarrow> u32 \<Rightarrow> u32 option" where
  "vm_map_region_find_address regions p addr = mrl_find_address (cell p) regions addr"

text \<open>As in the other instance the loop runs over the destination.\<close>

definition vm_region_next :: "u32 list \<Rightarrow> vm_pool \<Rightarrow> u32 \<Rightarrow> u32 option" where
  "vm_region_next regions p el =
     (if el \<in> set regions then ll_next regions el else ll_next (free_regions p) el)"

partial_function (option) vm_init_copy_from ::
    "u32 list \<Rightarrow> vm_pool \<Rightarrow> u32 option \<Rightarrow> (u32 list \<times> vm_pool) kres option" where
  "vm_init_copy_from regions p cur =
     (case cur of
        None \<Rightarrow> Some (Inr (regions, p))
      | Some region \<Rightarrow>
          (case vm_map_region_add_new regions p (address (cell p region)) (rsize (cell p region)) of
             Inl e \<Rightarrow> Some (Inl e)
           | Inr r \<Rightarrow> vm_init_copy_from (fst r) (snd r) (vm_region_next (fst r) (snd r) region)))"

definition vm_map_init_copy ::
    "u32 list \<Rightarrow> u32 list \<Rightarrow> vm_pool \<Rightarrow> (u32 list \<times> vm_pool) kres option" where
  "vm_map_init_copy regions src p = vm_init_copy_from regions p (ll_head regions)"

section \<open>The interface\<close>

definition vm_map_ok :: "vm_pool \<Rightarrow> u32 list \<Rightarrow> bool" where
  "vm_map_ok p xs \<longleftrightarrow>
     pool_ok p \<and> wf_regions (cell p) xs \<and> (\<forall>x\<in>set xs. \<not> pool_unused p x)"

lemma vm_map_region_alloc_take: "vm_map_region_alloc p = pool_take vm_map_region_sizeof p"
  by (simp add: vm_map_region_alloc_def pool_take_def)

lemma vm_hooks:
  assumes "vm_map_region_alloc p = Inr (x, p')"
  shows "cell p' = cell p"
    and "pool_ok p \<Longrightarrow> pool_ok p' \<and> pool_unused p x \<and> \<not> pool_unused p' x \<and> 0 < x
           \<and> (\<forall>y. pool_unused p' y \<longrightarrow> pool_unused p y)"
  using pool_take_hooks [of vm_map_region_sizeof p x p'] assms
  by (simp_all add: vm_map_region_alloc_take vm_map_region_sizeof_def)

interpretation vr: region_hooks vm_map_region_alloc vm_map_region_free
  vm_map_region_pre_merge pool_ok pool_unused "has_room vm_map_region_sizeof"
proof
  show "cell p' = cell p" if "vm_map_region_alloc p = Inr (x, p')" for p x p'
    using vm_hooks(1) [OF that] .
  show "pool_ok p' \<and> pool_unused p x \<and> \<not> pool_unused p' x \<and>
      (\<forall>y. pool_unused p' y \<longrightarrow> pool_unused p y)"
    if "pool_ok p" "vm_map_region_alloc p = Inr (x, p')" for p x p'
    using vm_hooks(2) [OF that(2,1)] by simp
  show "pool_ok (vm_map_region_free p x)"
    if "pool_ok p" "\<not> pool_unused p x" for p x
    using pool_give [OF that] by (simp add: vm_map_region_free_def)
  show "\<exists>x p'. vm_map_region_alloc p = Inr (x, p') \<and> has_room vm_map_region_sizeof k p'"
    if "has_room vm_map_region_sizeof (Suc k) p" for k p
    using has_room_take [OF that] by (simp add: vm_map_region_alloc_take)
  show "has_room vm_map_region_sizeof k (vm_map_region_free p x)" if "has_room vm_map_region_sizeof k p" for k p x
    using has_room_give [OF that] by (simp add: vm_map_region_free_def)
  show "has_room vm_map_region_sizeof k p" if "has_room vm_map_region_sizeof (Suc k) p" for k p
    using that by (rule has_room_less)
qed (auto simp: vm_map_region_free_def pool_unused_def pool_ok_def vm_map_region_pre_merge_def)

lemma vm_map_inv_eq: "vr.map_inv p xs \<longleftrightarrow> vm_map_ok p xs"
  by (simp add: vr.map_inv_def vm_map_ok_def)

section \<open>Adding and removing blocks\<close>

text \<open>Without merging, the new block is a node of its own.\<close>

lemma add_from_no_merge:
  "\<exists>bs. suffix bs rest \<and> mrl_add_from vm_map_region_free vm_map_region_pre_merge xs p r rest
      = (if bs = [] then ll_append xs r else ll_prepend_elem xs (hd bs) r, p)"
proof (induction rest)
  case (Cons x rest)
  have none: "mr_merge vm_map_region_pre_merge (cell p x) (cell p r) = None"
    by (simp add: mr_merge_def vm_map_region_pre_merge_def)
  show ?case
  proof (cases "address (cell p r) < address (cell p x)")
    case True
    then show ?thesis
      using none by (intro exI [of _ "x # rest"]) simp
  next
    case False
    then have eq: "mrl_add_from vm_map_region_free vm_map_region_pre_merge xs p r (x # rest)
        = mrl_add_from vm_map_region_free vm_map_region_pre_merge xs p r rest"
      using none by simp
    show ?thesis
      unfolding eq using Cons.IH by (meson suffix_ConsI)
  qed
qed simp

lemma set_ll_prepend_elem: "el \<in> set xs \<Longrightarrow> set (ll_prepend_elem xs el a) = insert a (set xs)"
  by (induction xs) auto

lemma vm_add_set: "fst (vm_map_region_add xs p r) = xs' \<Longrightarrow> set xs' = insert r (set xs)"
proof -
  assume a: "fst (vm_map_region_add xs p r) = xs'"
  obtain bs where bs: "suffix bs xs" "mrl_add_from vm_map_region_free vm_map_region_pre_merge xs p r xs
      = (if bs = [] then ll_append xs r else ll_prepend_elem xs (hd bs) r, p)"
    using add_from_no_merge [of xs xs p r] by auto
  then have "hd bs \<in> set xs" if "bs \<noteq> []"
    using that by (metis hd_in_set set_mono_suffix subsetD)
  moreover have "xs' = (if bs = [] then xs @ [r] else ll_prepend_elem xs (hd bs) r)"
    using bs(2) by (simp add: a [symmetric] vm_map_region_add_def mrl_add_def ll_append_def)
  ultimately show ?thesis
    by (simp add: set_ll_prepend_elem)
qed

lemma vm_add_pool: "snd (vm_map_region_add xs p r) = p"
  using add_from_no_merge [of xs xs p r] by (auto simp: vm_map_region_add_def mrl_add_def)

lemma vm_add_new_spec:
  assumes "vm_map_ok p xs" "sz \<noteq> 0" "unat addr + unat sz \<le> 2 ^ 32"
    and "map_bytes (cell p) xs \<inter> byte_range addr sz = {}"
    and "span_ok (map_bytes (cell p) xs \<union> byte_range addr sz)"
    and "vm_map_region_add_new xs p addr sz = Inr (xs', p')"
  shows "vm_map_ok p' xs'" "map_bytes (cell p') xs' = map_bytes (cell p) xs \<union> byte_range addr sz"
    and "\<exists>r. vm_map_region_find_address xs' p' addr = Some r \<and> rsize (cell p' r) = sz"
    and "\<And>x. x \<in> set xs \<Longrightarrow> x \<in> set xs' \<and> cell p' x = cell p x"
proof -
  let ?r = "\<lparr> address = addr, rsize = sz \<rparr>"
  obtain x p1 where al: "vm_map_region_alloc p = Inr (x, p1)"
    and ad: "vm_map_region_add xs (set_cell x ?r p1) x = (xs', p')"
    using assms(6) by (auto simp: vm_map_region_add_new_def kres_simps)
  have inv: "pool_ok p" "wf_regions (cell p) xs" "\<forall>y\<in>set xs. \<not> pool_unused p y"
    using assms(1) by (simp_all add: vm_map_ok_def)
  note h = vm_hooks(2) [OF al inv(1)] and c = vm_hooks(1) [OF al]
  have x: "x \<notin> set xs"
    using h inv(3) by auto
  have p': "p' = set_cell x ?r p1"
    using vm_add_pool [of xs "set_cell x ?r p1" x] ad by simp
  have set: "set xs' = insert x (set xs)"
    using vm_add_set [of xs "set_cell x ?r p1" x] ad by simp
  have bytes: "rbytes ?r = byte_range addr sz" "valid_region ?r"
    using assms(2,3) by (simp_all add: rbytes_def valid_region_def rend_def)
  have "vr.added p' xs x xs' p'"
  proof (rule vr.add_map)
    show "vr.map_inv p' xs"
      using h inv x c by (auto simp: vm_map_inv_eq vm_map_ok_def p')
    show "mrl_add vm_map_region_free vm_map_region_pre_merge xs p' x = (xs', p')"
      using ad by (simp add: vm_map_region_add_def p')
  qed (use h x c bytes assms(4,5) in \<open>simp_all add: p'\<close>)
  then show ok: "vm_map_ok p' xs'"
    and mb: "map_bytes (cell p') xs' = map_bytes (cell p) xs \<union> byte_range addr sz"
    using x c bytes by (simp_all add: vr.added_def vm_map_inv_eq p')
  show keep: "y \<in> set xs' \<and> cell p' y = cell p y" if "y \<in> set xs" for y
    using that set x c by (auto simp: p')
  have uniq: "y = x" if "y \<in> set xs'" "address (cell p' y) = addr" for y
  proof (rule ccontr)
    assume "y \<noteq> x"
    then have "y \<in> set xs" "cell p' y = cell p y"
      using that set keep by auto
    moreover from this have "unat addr \<in> rbytes (cell p y)"
      using inv(2) that(2) rstart_less_rend [of "cell p y"]
      by (auto simp: wf_regions_def rbytes_eq rstart_def)
    moreover have "unat addr \<in> byte_range addr sz"
      using assms(2) by (simp add: byte_range_def unat_gt_0)
    ultimately show False
      using assms(4) by (auto simp: map_bytes_def)
  qed
  have "\<exists>r. List.find (\<lambda>cur. address (cell p' cur) = addr) xs' = Some r"
    using set by (auto simp: p' find_None_iff not_None_eq [symmetric] simp del: not_None_eq)
  then obtain r where r: "List.find (\<lambda>cur. address (cell p' cur) = addr) xs' = Some r"
    by blast
  then have "r = x"
    using uniq [of r] by (auto simp: find_Some_iff)
  then show "\<exists>r. vm_map_region_find_address xs' p' addr = Some r \<and> rsize (cell p' r) = sz"
    using r by (auto simp: vm_map_region_find_address_def mrl_find_address_def p')
qed

lemma vm_add_new_returns:
  assumes "has_room vm_map_region_sizeof 1 p" "pool_ok p"
  shows "\<exists>xs' p'. vm_map_region_add_new xs p addr sz = Inr (xs', p')"
proof -
  obtain x p1 where al: "vm_map_region_alloc p = Inr (x, p1)"
    using vr.alloc_room [of 0 p] assms(1) by auto
  then have "x \<noteq> 0"
    using vm_hooks(2) [OF al assms(2)] by auto
  then show ?thesis
    using al by (cases "vm_map_region_add xs (set_cell x \<lparr> address = addr, rsize = sz \<rparr> p1) x")
      (simp add: vm_map_region_add_new_def)
qed

lemma vm_remove_spec:
  assumes "vm_map_ok p xs" "vm_map_region_find_address xs p addr = Some r"
    and "vm_map_region_remove xs p addr = (xs', p')"
  shows "vm_map_ok p' xs'" "map_bytes (cell p') xs' = map_bytes (cell p) xs - rbytes (cell p r)"
    and "vm_map_region_find_address xs' p' addr = None" "cell p' = cell p" "pool_unused p' r"
proof -
  have f: "List.find (\<lambda>region. address (cell p region) = addr) xs = Some r"
    using assms(2) by (simp add: vm_map_region_find_address_def mrl_find_address_def)
  then have r: "r \<in> set xs" "address (cell p r) = addr"
    by (auto simp: find_Some_iff)
  then obtain as bs where xs: "xs = as @ r # bs"
    by (meson split_list)
  have inv: "pool_ok p" "wf_regions (cell p) (as @ r # bs)" "\<forall>y\<in>set xs. \<not> pool_unused p y"
    using assms(1) xs by (simp_all add: vm_map_ok_def)
  note mid = wf_middle [OF inv(2)]
  have res: "xs' = as @ bs" "p' = vm_map_region_free p r"
    using assms(3) f xs mid(2) by (auto simp: vm_map_region_remove_def ll_delete_middle)
  show c: "cell p' = cell p" and "pool_unused p' r"
    by (simp_all add: res vr.hooks_simps)
  show "vm_map_ok p' xs'"
    using inv mid r(1) wf_drop_middle [OF inv(2)] xs
    by (auto simp: vm_map_ok_def res vr.hooks_simps)
  have dis: "rbytes (cell p r) \<inter> (map_bytes (cell p) as \<union> map_bytes (cell p) bs) = {}"
    using mid(5,6) by (fastforce simp: map_bytes_def rbytes_eq)
  then show "map_bytes (cell p') xs' = map_bytes (cell p) xs - rbytes (cell p r)"
    by (auto simp: c res(1) xs)
  have "address (cell p y) \<noteq> addr" if "y \<in> set as \<union> set bs" for y
  proof
    assume a: "address (cell p y) = addr"
    have "valid_region (cell p y)"
      using that inv(2) by (auto simp: wf_regions_def)
    then have "unat addr \<in> rbytes (cell p y)" "unat addr \<in> rbytes (cell p r)"
      using a r(2) rstart_less_rend [OF mid(1)] rstart_less_rend [of "cell p y"]
      by (auto simp: rbytes_eq rstart_def)
    then show False
      using dis that by (auto simp: map_bytes_def)
  qed
  then show "vm_map_region_find_address xs' p' addr = None"
    by (auto simp: vm_map_region_find_address_def mrl_find_address_def c res(1) find_None_iff)
qed

section \<open>Properties\<close>

text \<open>
  C9: while the pool has a structure, a block added to an address space that it does not overlap is found again by
  its address with its size, the blocks that were there are untouched, and
  removing it gives back the bytes the map had before.
\<close>

theorem vm_block_round_trip:
  assumes "vm_map_ok p xs" "sz \<noteq> 0" "unat addr + unat sz \<le> 2 ^ 32"
    and "map_bytes (cell p) xs \<inter> byte_range addr sz = {}"
    and "span_ok (map_bytes (cell p) xs \<union> byte_range addr sz)" "has_room vm_map_region_sizeof 1 p"
  shows "\<exists>xs1 p1 xs2 p2. vm_map_region_add_new xs p addr sz = Inr (xs1, p1)
    \<and> vm_map_region_remove xs1 p1 addr = (xs2, p2) \<and> vm_map_ok p1 xs1 \<and> map_bytes (cell p1) xs1 = map_bytes (cell p) xs \<union> byte_range addr sz
    \<and> (\<exists>r. vm_map_region_find_address xs1 p1 addr = Some r \<and> rsize (cell p1 r) = sz)
    \<and> (\<forall>x. x \<in> set xs \<longrightarrow> x \<in> set xs1 \<and> cell p1 x = cell p x)
    \<and> vm_map_ok p2 xs2 \<and> map_bytes (cell p2) xs2 = map_bytes (cell p) xs
    \<and> vm_map_region_find_address xs2 p2 addr = None"
proof -
  obtain xs1 p1 where ad: "vm_map_region_add_new xs p addr sz = Inr (xs1, p1)"
    using vm_add_new_returns [OF assms(6), of xs addr sz] assms(1) by (auto simp: vm_map_ok_def)
  obtain xs2 p2 where rem: "vm_map_region_remove xs1 p1 addr = (xs2, p2)"
    by (cases "vm_map_region_remove xs1 p1 addr")
  note a = vm_add_new_spec [OF assms(1-5) ad]
  obtain r where r: "vm_map_region_find_address xs1 p1 addr = Some r" "rsize (cell p1 r) = sz"
    using a(3) by blast
  note rm = vm_remove_spec [OF a(1) r(1) rem]
  have "rbytes (cell p1 r) = byte_range addr sz"
    using r by (auto simp: vm_map_region_find_address_def mrl_find_address_def find_Some_iff rbytes_def)
  then have "map_bytes (cell p2) xs2 = map_bytes (cell p) xs"
    using rm(2) a(2) assms(4) by auto
  then show ?thesis
    using a r rm ad rem by (intro exI [of _ xs1] exI [of _ p1] exI [of _ xs2] exI [of _ p2]) auto
qed

definition demo_vm_pool :: vm_pool where
  "demo_vm_pool =
     \<lparr> cell = (\<lambda>_. \<lparr> address = 0, rsize = 0 \<rparr>), free_regions = [],
       klayout = \<lparr> segment_start = 0, memory_start = 0x300, memory_end = 0x1000 \<rparr> \<rparr>"

theorem vm_block_round_trip_witness:
  "\<exists>xs p. vm_map_region_add_new [] demo_vm_pool 0x5000 0x2000 = Inr (xs, p)
     \<and> map_bytes (cell p) xs = byte_range 0x5000 0x2000"
proof -
  have "vm_map_ok demo_vm_pool []"
    by (simp add: demo_vm_pool_def vm_map_ok_def pool_ok_def static_ok_def)
  moreover have "has_room vm_map_region_sizeof 1 demo_vm_pool"
    by (simp add: demo_vm_pool_def pool_take_def vm_map_region_sizeof_def kalloc_static_def align_address_def)
  moreover have "span_ok (byte_range 0x5000 0x2000)"
    by (simp add: span_ok_def byte_range_def)
  ultimately show ?thesis
    using vm_block_round_trip [of demo_vm_pool "[]" "0x2000" "0x5000"] by auto
qed

end
