(* ===== verification/KSort.thy ===== *)
theory KSort
  imports UtList
begin

text \<open>
  utils/sort.c: the comparisons of 32-bit values and the two array sorts.  An
  array is the list of its elements; the indices the code uses are in range.
\<close>

section \<open>Definitions\<close>

definition comp_int :: "u32 \<Rightarrow> u32 \<Rightarrow> int" where
  "comp_int a b = (if sint a < sint b then - 1 else if sint a > sint b then 1 else 0)"

definition comp_uint :: "u32 \<Rightarrow> u32 \<Rightarrow> int" where
  "comp_uint a b = (if a < b then - 1 else if a > b then 1 else 0)"

definition comp_ulong :: "u32 \<Rightarrow> u32 \<Rightarrow> int" where
  "comp_ulong a b = (if a < b then - 1 else if a > b then 1 else 0)"

definition swap :: "'a list \<Rightarrow> nat \<Rightarrow> nat \<Rightarrow> 'a list" where
  "swap items n1 n2 = (let temp = items ! n1 in items [n1 := items ! n2, n2 := temp])"

definition bubble_step :: "('a \<Rightarrow> 'a \<Rightarrow> int) \<Rightarrow> nat \<Rightarrow> 'a list \<times> nat \<Rightarrow> 'a list \<times> nat" where
  "bubble_step cmpf i s =
     (let (items, newn) = s in
      if cmpf (items ! (i - 1)) (items ! i) > 0 then (swap items (i - 1) i, i) else (items, newn))"

definition bubble_pass :: "('a \<Rightarrow> 'a \<Rightarrow> int) \<Rightarrow> 'a list \<Rightarrow> nat \<Rightarrow> 'a list \<times> nat" where
  "bubble_pass cmpf items n = fold (bubble_step cmpf) [1..<n] (items, 0)"

lemma fold_bubble_newn: "snd (fold (bubble_step cmpf) [1..<n] (items, 0)) < max 1 n"
proof (induction n)
  case (Suc n)
  then show ?case
    by (cases "1 \<le> n") (auto simp: bubble_step_def split_beta Let_def)
qed simp

function bubble_loop :: "('a \<Rightarrow> 'a \<Rightarrow> int) \<Rightarrow> 'a list \<Rightarrow> nat \<Rightarrow> 'a list" where
  "bubble_loop cmpf items n =
     (let (items', newn) = bubble_pass cmpf items n in
      if newn \<noteq> 0 then bubble_loop cmpf items' newn else items')"
  by pat_completeness auto
termination
proof (relation "measure (\<lambda>(_, _, n). n)")
  fix cmpf :: "'a \<Rightarrow> 'a \<Rightarrow> int" and items n x items' newn
  assume "x = bubble_pass cmpf items n" "(items', newn) = x" "newn \<noteq> 0"
  then have "newn < max 1 n" "newn \<noteq> 0"
    using fold_bubble_newn [of cmpf n items] by (auto simp: bubble_pass_def) (metis snd_conv)
  then show "((cmpf, items', newn), cmpf, items, n) \<in> measure (\<lambda>(_, _, n). n)"
    by (cases n) auto
qed simp

declare bubble_loop.simps [simp del]

definition bubble_sort :: "('a \<Rightarrow> 'a \<Rightarrow> int) \<Rightarrow> 'a list \<Rightarrow> 'a list" where
  "bubble_sort cmpf items = bubble_loop cmpf items (length items)"

text \<open>The comparison is made once, before the loop that shifts the elements.\<close>

fun insertion_shift :: "'a list \<Rightarrow> 'a \<Rightarrow> nat \<Rightarrow> int \<Rightarrow> 'a list" where
  "insertion_shift items x 0 comp_n = items"
| "insertion_shift items x (Suc j) comp_n =
     (if comp_n > 0
      then insertion_shift (items [Suc j := items ! j, j := x]) x j comp_n
      else items)"

definition insertion_step :: "('a \<Rightarrow> 'a \<Rightarrow> int) \<Rightarrow> nat \<Rightarrow> 'a list \<Rightarrow> 'a list" where
  "insertion_step cmpf i items =
     (let x = items ! i; comp_n = cmpf (items ! (i - 1)) x in insertion_shift items x i comp_n)"

definition insertion_sort :: "('a \<Rightarrow> 'a \<Rightarrow> int) \<Rightarrow> 'a list \<Rightarrow> 'a list" where
  "insertion_sort cmpf items = fold (insertion_step cmpf) [1..<length items] items"

section \<open>The comparisons\<close>

interpretation ci: comparator comp_int
  by unfold_locales (auto simp: comp_int_def split: if_splits)

interpretation cu: comparator comp_uint
  by unfold_locales (auto simp: comp_uint_def split: if_splits)

interpretation cl: comparator comp_ulong
  by unfold_locales (auto simp: comp_ulong_def split: if_splits)

section \<open>Bubble sort\<close>

lemma length_swap [simp]: "length (swap xs i j) = length xs"
  by (simp add: swap_def Let_def)

lemma mset_swap_adjacent:
  assumes "Suc i < length xs"
  shows "mset (swap xs i (Suc i)) = mset xs"
  using assms by (simp add: swap_def Let_def mset_swap)

lemma nth_swap_adjacent:
  assumes "Suc i < length xs" "k < length xs"
  shows "swap xs i (Suc i) ! k = (if k = i then xs ! Suc i else if k = Suc i then xs ! i else xs ! k)"
  using assms by (simp add: swap_def Let_def nth_list_update)

lemma take_swap_adjacent:
  assumes "Suc i < length xs" "Suc i < n"
  shows "mset (take n (swap xs i (Suc i))) = mset (take n xs)"
proof -
  have "take n (swap xs i (Suc i)) = swap (take n xs) i (Suc i)"
    using assms by (simp add: swap_def Let_def take_update_swap)
  then show ?thesis
    using assms by (simp add: mset_swap_adjacent)
qed

context comparator
begin

text \<open>
  What a pass has established when it has looked at the first \<open>i\<close> elements: the
  last of them is a greatest one, every element from \<open>newn\<close> on is in place, and
  the elements behind are untouched.
\<close>

definition placed :: "'a list \<Rightarrow> nat \<Rightarrow> bool" where
  "placed xs j \<longleftrightarrow> (\<forall>k<j. le (xs ! k) (xs ! j))"

definition pass_inv :: "'a list \<Rightarrow> nat \<Rightarrow> 'a list \<times> nat \<Rightarrow> bool" where
  "pass_inv xs i s \<longleftrightarrow>
     (let (ys, newn) = s in
      length ys = length xs \<and> mset (take i ys) = mset (take i xs) \<and> drop i ys = drop i xs
      \<and> placed ys (i - 1) \<and> (\<forall>j. newn \<le> j \<longrightarrow> j < i \<longrightarrow> placed ys j))"

lemma pass_inv_step:
  assumes "pass_inv xs (Suc i) s" "Suc i < length xs"
  shows "pass_inv xs (Suc (Suc i)) (bubble_step cmp (Suc i) s)"
proof -
  obtain ys newn where s: "s = (ys, newn)"
    by (cases s)
  have inv: "length ys = length xs" "mset (take (Suc i) ys) = mset (take (Suc i) xs)"
    "drop (Suc i) ys = drop (Suc i) xs" "placed ys i" "\<And>j. newn \<le> j \<Longrightarrow> j < Suc i \<Longrightarrow> placed ys j"
    using assms(1) by (auto simp: pass_inv_def s)
  have i: "Suc i < length ys"
    using assms(2) inv(1) by simp
  have take: "mset (take (Suc (Suc i)) ys) = mset (take (Suc (Suc i)) xs)"
  proof -
    have "ys ! Suc i = xs ! Suc i"
      using inv(3) i assms(2) by (metis hd_drop_conv_nth)
    then show ?thesis
      unfolding take_Suc_conv_app_nth [OF i] take_Suc_conv_app_nth [OF assms(2)]
      by (simp only: mset_append inv(2))
  qed
  have drop: "drop (Suc (Suc i)) ys = drop (Suc (Suc i)) xs"
    using inv(3) by (metis drop_Suc tl_drop)
  show ?thesis
  proof (cases "cmp (ys ! i) (ys ! Suc i) > 0")
    case True
    let ?zs = "swap ys i (Suc i)"
    have step: "bubble_step cmp (Suc i) s = (?zs, Suc i)"
      using True by (simp add: bubble_step_def s)
    have le: "le (ys ! Suc i) (ys ! i)"
      using True le_total by (auto simp: le_def)
    have "placed ?zs (Suc i)"
      unfolding placed_def
    proof (intro allI impI)
      fix k
      assume "k < Suc i"
      then show "le (?zs ! k) (?zs ! Suc i)"
        using i le inv(4) by (cases "k = i") (auto simp: nth_swap_adjacent placed_def)
    qed
    moreover have "drop (Suc (Suc i)) ?zs = drop (Suc (Suc i)) ys"
      using i by (simp add: swap_def Let_def)
    ultimately show ?thesis
      using inv(1) take drop i by (auto simp: pass_inv_def step take_swap_adjacent less_Suc_eq)
  next
    case False
    have step: "bubble_step cmp (Suc i) s = (ys, newn)"
      using False by (simp add: bubble_step_def s)
    have "le (ys ! i) (ys ! Suc i)"
      using False by (simp add: le_def)
    then have "placed ys (Suc i)"
      using inv(4) by (auto simp: placed_def less_Suc_eq intro: le_trans)
    then show ?thesis
      using inv take drop by (auto simp: pass_inv_def step less_Suc_eq)
  qed
qed

lemma pass_inv_pass:
  assumes "Suc i \<le> n" "n \<le> length xs" "0 < n"
  shows "pass_inv xs (Suc i) (fold (bubble_step cmp) [1..<Suc i] (xs, 0))"
  using assms
proof (induction i)
  case 0
  then show ?case
    by (simp add: pass_inv_def placed_def)
next
  case (Suc i)
  then have "pass_inv xs (Suc (Suc i)) (bubble_step cmp (Suc i) (fold (bubble_step cmp) [1..<Suc i] (xs, 0)))"
    by (intro pass_inv_step) auto
  then show ?case
    by simp
qed

lemma placed_suffix:
  assumes "length ys = length xs" "mset (take n ys) = mset (take n xs)" "drop n ys = drop n xs"
    and "n \<le> j" "j < length xs" "placed xs j"
  shows "placed ys j"
  unfolding placed_def
proof (intro allI impI)
  fix k
  assume k: "k < j"
  have same: "ys ! m = xs ! m" if "n \<le> m" "m < length xs" for m
  proof -
    have "ys ! m = drop n ys ! (m - n)" "xs ! m = drop n xs ! (m - n)"
      using that assms(1) by simp_all
    then show ?thesis
      by (simp only: assms(3))
  qed
  show "le (ys ! k) (ys ! j)"
  proof (cases "k < n")
    case True
    then have "ys ! k \<in> set (take n ys)"
      using nth_mem [of k "take n ys"] assms(1,5) k by simp
    then have "ys ! k \<in> set (take n xs)"
      using mset_eq_setD [OF assms(2)] by simp
    then obtain m where m: "m < n" "xs ! m = ys ! k"
      by (auto simp: in_set_conv_nth)
    then have "m < j"
      using assms(4) by simp
    then have "le (xs ! m) (xs ! j)"
      using assms(6) unfolding placed_def by blast
    then show ?thesis
      using assms(4,5) same [of j] m(2) by simp
  next
    case False
    then show ?thesis
      using assms(4,5,6) k same [of k] same [of j] by (auto simp: placed_def)
  qed
qed

lemma bubble_loop_sorts:
  assumes "n \<le> length xs" "\<And>j. n \<le> j \<Longrightarrow> j < length xs \<Longrightarrow> placed xs j"
  shows "(\<forall>j<length xs. placed (bubble_loop cmp xs n) j) \<and> mset (bubble_loop cmp xs n) = mset xs
    \<and> length (bubble_loop cmp xs n) = length xs"
  using assms
proof (induction n arbitrary: xs rule: less_induct)
  case (less n)
  show ?case
  proof (cases "n = 0")
    case True
    then show ?thesis
      using less.prems by (subst (1 2 3) bubble_loop.simps) (simp add: bubble_pass_def)
  next
    case False
    obtain ys newn where p: "bubble_pass cmp xs n = (ys, newn)"
      by force
    have "pass_inv xs n (ys, newn)"
      using pass_inv_pass [of "n - 1" n xs] False less.prems(1) p by (simp add: bubble_pass_def)
    then have inv: "length ys = length xs" "mset (take n ys) = mset (take n xs)" "drop n ys = drop n xs"
      "\<And>j. newn \<le> j \<Longrightarrow> j < n \<Longrightarrow> placed ys j"
      by (auto simp: pass_inv_def)
    have ms: "mset ys = mset xs"
      using inv(2,3) by (metis append_take_drop_id mset_append)
    have suffix: "placed ys j" if "newn \<le> j" "j < length ys" for j
      using that inv placed_suffix [of ys xs n j] less.prems(2) by (cases "j < n") auto
    have lt: "newn < n"
      using fold_bubble_newn [of cmp n xs] p False by (auto simp: bubble_pass_def max_def split: if_splits)
    show ?thesis
    proof (cases "newn = 0")
      case True
      then show ?thesis
        using suffix ms inv(1) by (subst (1 2 3) bubble_loop.simps) (auto simp: p)
    next
      case False
      then have "bubble_loop cmp xs n = bubble_loop cmp ys newn"
        by (subst bubble_loop.simps) (simp add: p)
      then show ?thesis
        using less.IH [OF lt, of ys] lt less.prems(1) inv(1) suffix ms by auto
    qed
  qed
qed

lemma bubble_sort_sorts: "sorted_wrt le (bubble_sort cmp xs) \<and> mset (bubble_sort cmp xs) = mset xs"
  using bubble_loop_sorts [of "length xs" xs]
  by (auto simp: bubble_sort_def sorted_wrt_iff_nth_less placed_def)

end

section \<open>Insertion sort\<close>

text \<open>Since the comparison is not repeated, an element that moves goes to the front.\<close>

lemma insertion_shift_front:
  assumes "c > 0" "j < length xs" "xs ! j = x"
  shows "insertion_shift xs x j c = x # take j xs @ drop (Suc j) xs"
  using assms
proof (induction j arbitrary: xs)
  case 0
  then show ?case
    by (cases xs) auto
next
  case (Suc j)
  let ?ys = "xs [Suc j := xs ! j, j := x]"
  have "insertion_shift xs x (Suc j) c = x # take j ?ys @ drop (Suc j) ?ys"
    using Suc by simp
  also have "drop (Suc j) ?ys = xs ! j # drop (Suc (Suc j)) xs"
    using Suc.prems(2) by (simp add: Cons_nth_drop_Suc [symmetric])
  also have "take j ?ys = take j xs"
    by simp
  finally show ?case
    using Suc.prems(2) by (simp add: take_Suc_conv_app_nth)
qed

lemma insertion_step_eq:
  assumes "0 < i" "i < length xs"
  shows "insertion_step cmpf i xs =
    (if cmpf (xs ! (i - 1)) (xs ! i) > 0 then xs ! i # take i xs @ drop (Suc i) xs else xs)"
proof (cases "cmpf (xs ! (i - 1)) (xs ! i) > 0")
  case True
  then show ?thesis
    using assms by (simp add: insertion_step_def insertion_shift_front)
next
  case False
  then show ?thesis
    using assms by (cases i) (simp_all add: insertion_step_def)
qed

lemma insertion_step_mset:
  assumes "0 < i" "i < length xs"
  shows "mset (insertion_step cmpf i xs) = mset xs"
proof -
  have "mset xs = mset (take i xs @ xs ! i # drop (Suc i) xs)"
    using assms(2) by (simp only: id_take_nth_drop [symmetric])
  then show ?thesis
    using assms by (simp add: insertion_step_eq)
qed

lemma insertion_sort_mset: "mset (insertion_sort cmpf xs) = mset xs"
proof -
  have "mset (fold (insertion_step cmpf) [1..<n] xs) = mset xs" if "n \<le> length xs" for n
    using that
  proof (induction n)
    case (Suc n)
    show ?case
    proof (cases "n = 0")
      case False
      let ?ys = "fold (insertion_step cmpf) [1..<n] xs"
      have "mset ?ys = mset xs"
        using Suc by simp
      then show ?thesis
        using Suc.prems False mset_eq_length [of ?ys xs] by (simp add: insertion_step_mset)
    qed simp
  qed simp
  then show ?thesis
    by (simp add: insertion_sort_def)
qed

section \<open>Properties\<close>

text \<open>
  C40: \<open>bubble_sort\<close> returns a sorted permutation of its array, for the three
  comparisons of sort.c.
\<close>

theorem bubble_sort_sorted_permutation:
  "sorted_wrt (\<lambda>x y. sint x \<le> sint y) (bubble_sort comp_int xs) \<and> mset (bubble_sort comp_int xs) = mset xs
   \<and> sorted (bubble_sort comp_uint ys) \<and> mset (bubble_sort comp_uint ys) = mset ys
   \<and> sorted (bubble_sort comp_ulong zs) \<and> mset (bubble_sort comp_ulong zs) = mset zs"
proof -
  have "ci.le = (\<lambda>x y. sint x \<le> sint y)" "cu.le = (\<le>)" "cl.le = (\<le>)"
    by (auto simp: fun_eq_iff ci.le_def cu.le_def cl.le_def comp_int_def comp_uint_def comp_ulong_def)
  then show ?thesis
    using ci.bubble_sort_sorts [of xs] cu.bubble_sort_sorts [of ys] cl.bubble_sort_sorts [of zs]
    by simp
qed

text \<open>
  \<open>insertion_sort\<close> permutes its array, but it is not a sort: an element that is
  smaller than its left neighbour goes to the front whatever stands before.
\<close>

theorem insertion_sort_not_sorting:
  "mset (insertion_sort cmpf xs) = mset xs
   \<and> insertion_sort comp_ulong [1, 3, 2] = [2, 1, 3] \<and> \<not> sorted (insertion_sort comp_ulong [1, 3, 2])"
proof -
  have "insertion_sort comp_ulong [1, 3, 2] = [2, 1, 3]"
    by code_simp
  moreover have "\<not> sorted (insertion_sort comp_ulong [1, 3, 2])"
    by code_simp
  ultimately show ?thesis
    by (simp add: insertion_sort_mset)
qed

end
