(* ===== verification/KString.thy ===== *)
theory KString
  imports MemUtils
begin

text \<open>
  utils/string.c over the byte store.  A loop that runs to a terminating zero
  byte may not end, so its result is an option; \<open>char\<close> is signed on the target.
  \<open>kmalloc\<close> is called by the two duplicating functions: its result is the
  argument \<open>result\<close>, and the size they ask for is part of what they return.
\<close>

section \<open>Definitions\<close>

partial_function (option) strlen_from :: "memory \<Rightarrow> u32 \<Rightarrow> u32 \<Rightarrow> u32 option" where
  "strlen_from m str ret = (if m (str + ret) \<noteq> 0 then strlen_from m str (ret + 1) else Some ret)"

definition strlen :: "memory \<Rightarrow> u32 \<Rightarrow> u32 option" where
  "strlen m str = strlen_from m str 0"

partial_function (option) strcmp :: "memory \<Rightarrow> u32 \<Rightarrow> u32 \<Rightarrow> int option" where
  "strcmp m a b =
     (let ca = m a; cb = m b in
      if ca \<noteq> 0 \<and> cb \<noteq> 0 then
        (if sint ca < sint cb then Some (- 1)
         else if sint ca > sint cb then Some 1
         else strcmp m (a + 1) (b + 1))
      else if ca \<noteq> 0 then Some 1
      else if cb \<noteq> 0 then Some (- 1)
      else Some 0)"

fun strncmp_loop :: "memory \<Rightarrow> u32 \<Rightarrow> u32 \<Rightarrow> nat \<Rightarrow> int" where
  "strncmp_loop m a b 0 = 0"
| "strncmp_loop m a b (Suc k) =
     (let ca = m a; cb = m b in
      if ca = 0 \<and> cb = 0 then 0
      else if ca = 0 then - 1
      else if cb = 0 then 1
      else if sint ca < sint cb then - 1
      else if sint ca > sint cb then 1
      else strncmp_loop m (a + 1) (b + 1) k)"

definition strncmp :: "memory \<Rightarrow> u32 \<Rightarrow> u32 \<Rightarrow> u32 \<Rightarrow> int" where
  "strncmp m a b n = strncmp_loop m a b (unat n)"

fun memcmp_loop :: "memory \<Rightarrow> u32 \<Rightarrow> u32 \<Rightarrow> nat \<Rightarrow> int" where
  "memcmp_loop m a b 0 = 0"
| "memcmp_loop m a b (Suc k) =
     (let cca = m a; ccb = m b in
      if cca < ccb then - 1
      else if cca > ccb then 1
      else memcmp_loop m (a + 1) (b + 1) k)"

definition memcmp :: "memory \<Rightarrow> u32 \<Rightarrow> u32 \<Rightarrow> u32 \<Rightarrow> int" where
  "memcmp m a b n = memcmp_loop m a b (unat n)"

fun copy_bytes :: "memory \<Rightarrow> u32 \<Rightarrow> u32 \<Rightarrow> nat \<Rightarrow> memory" where
  "copy_bytes m dst src 0 = m"
| "copy_bytes m dst src (Suc k) = copy_bytes (m (dst := m src)) (dst + 1) (src + 1) k"

definition strdup :: "memory \<Rightarrow> u32 \<Rightarrow> u32 \<Rightarrow> (u32 \<times> memory) option" where
  "strdup m s1 result =
     (case strlen m s1 of
        None \<Rightarrow> None
      | Some n \<Rightarrow> (let len = n + 1 in Some (len, copy_bytes m result s1 (unat len))))"

fun strndup_len :: "memory \<Rightarrow> u32 \<Rightarrow> u32 \<Rightarrow> nat \<Rightarrow> u32 \<Rightarrow> u32" where
  "strndup_len m s1 i 0 n = n"
| "strndup_len m s1 i (Suc k) n = (if m (s1 + i) = 0 then i + 1 else strndup_len m s1 (i + 1) k n)"

definition strndup :: "memory \<Rightarrow> u32 \<Rightarrow> u32 \<Rightarrow> u32 \<Rightarrow> u32 \<times> memory" where
  "strndup m s1 n result =
     (let n = strndup_len m s1 0 (unat n) n;
          m = copy_bytes m result s1 (unat n)
      in (n + 1, m (result + n := 0)))"

partial_function (option) strcpy_from :: "memory \<Rightarrow> u32 \<Rightarrow> u32 \<Rightarrow> u32 \<Rightarrow> memory option" where
  "strcpy_from m dst src i =
     (if m (src + i) \<noteq> 0 then strcpy_from (m (dst + i := m (src + i))) dst src (i + 1) else Some m)"

definition strcpy :: "memory \<Rightarrow> u32 \<Rightarrow> u32 \<Rightarrow> memory option" where
  "strcpy m dst src = strcpy_from m dst src 0"

fun strncpy_loop :: "memory \<Rightarrow> u32 \<Rightarrow> u32 \<Rightarrow> u32 \<Rightarrow> nat \<Rightarrow> memory \<times> u32 \<times> nat" where
  "strncpy_loop m dst src i 0 = (m, i, 0)"
| "strncpy_loop m dst src i (Suc k) =
     (if m (src + i) \<noteq> 0
      then strncpy_loop (m (dst + i := m (src + i))) dst src (i + 1) k
      else (m, i, Suc k))"

definition strncpy :: "memory \<Rightarrow> u32 \<Rightarrow> u32 \<Rightarrow> u32 \<Rightarrow> memory" where
  "strncpy m dst src n =
     (let (m, i, rest) = strncpy_loop m dst src 0 (unat n)
      in fill_bytes m (dst + i) 0 rest)"

partial_function (option) strcat_from :: "memory \<Rightarrow> u32 \<Rightarrow> u32 \<Rightarrow> u32 \<Rightarrow> u32 \<Rightarrow> memory option" where
  "strcat_from m dst src i j =
     (if m (src + j) \<noteq> 0
      then strcat_from (m (dst + i := m (src + j))) dst src (i + 1) (j + 1)
      else Some (m (dst + i := 0)))"

definition strcat :: "memory \<Rightarrow> u32 \<Rightarrow> u32 \<Rightarrow> memory option" where
  "strcat m dst src =
     (case strlen m dst of None \<Rightarrow> None | Some i \<Rightarrow> strcat_from m dst src i 0)"

fun strncat_loop :: "memory \<Rightarrow> u32 \<Rightarrow> u32 \<Rightarrow> u32 \<Rightarrow> u32 \<Rightarrow> nat \<Rightarrow> memory" where
  "strncat_loop m dst src i j 0 = m (dst + i := 0)"
| "strncat_loop m dst src i j (Suc k) =
     (if m (src + j) \<noteq> 0
      then strncat_loop (m (dst + i := m (src + j))) dst src (i + 1) (j + 1) k
      else m (dst + i := 0))"

definition strncat :: "memory \<Rightarrow> u32 \<Rightarrow> u32 \<Rightarrow> u32 \<Rightarrow> memory option" where
  "strncat m dst src n =
     (case strlen m dst of None \<Rightarrow> None | Some i \<Rightarrow> Some (strncat_loop m dst src i 0 (unat n)))"

section \<open>Strings in memory\<close>

text \<open>The non-zero bytes \<open>xs\<close> are at \<open>a\<close>, followed by a zero byte.\<close>

fun cstr :: "memory \<Rightarrow> u32 \<Rightarrow> u8 list \<Rightarrow> bool" where
  "cstr m a [] \<longleftrightarrow> m a = 0"
| "cstr m a (x # xs) \<longleftrightarrow> m a = x \<and> x \<noteq> 0 \<and> cstr m (a + 1) xs"

fun put_bytes :: "memory \<Rightarrow> u32 \<Rightarrow> u8 list \<Rightarrow> memory" where
  "put_bytes m a [] = m"
| "put_bytes m a (x # xs) = put_bytes (m (a := x)) (a + 1) xs"

definition span :: "u32 \<Rightarrow> nat \<Rightarrow> u32 set" where
  "span a n = {x. unat (x - a) < n}"

lemma unat_u32_minus_1: "unat (- 1 :: u32) = 4294967295"
  by (simp add: unsigned_minus_1_eq_mask mask_eq_exp_minus_1)

lemma span_0 [simp]: "span a 0 = {}"
  by (simp add: span_def)

lemma span_Suc: "n < 2 ^ 32 \<Longrightarrow> span a (Suc n) = insert a (span (a + 1) n)"
proof (rule set_eqI)
  fix x
  assume n: "n < 2 ^ 32"
  show "x \<in> span a (Suc n) \<longleftrightarrow> x \<in> insert a (span (a + 1) n)"
  proof (cases "x = a")
    case False
    then have "unat (x - a) = Suc (unat (x - a - 1))"
      using unat_minus_one [of "x - a"] by (simp add: unat_gt_0)
    moreover have "x - a - 1 = x - (a + 1)"
      by simp
    ultimately have "unat (x - a) = Suc (unat (x - (a + 1)))"
      by simp
    then show ?thesis
      using False by (simp add: span_def)
  qed (use n in \<open>simp add: span_def\<close>)
qed

lemma cstr_cong:
  assumes "length xs < 2 ^ 32" "\<And>x. x \<in> span a (Suc (length xs)) \<Longrightarrow> m' x = m x"
  shows "cstr m' a xs = cstr m a xs"
  using assms
proof (induction xs arbitrary: a)
  case Nil
  then show ?case
    by (simp add: span_def)
next
  case (Cons x xs)
  have sp: "span a (Suc (Suc (length xs))) = insert a (span (a + 1) (Suc (length xs)))"
    using Cons.prems(1) by (intro span_Suc) simp
  then have "cstr m' (a + 1) xs = cstr m (a + 1) xs"
    using Cons.prems by (intro Cons.IH) auto
  moreover have "m' a = m a"
    using Cons.prems(2) sp by simp
  ultimately show ?case
    by simp
qed

lemma strlen_from_cstr:
  "cstr m (str + ret) xs \<Longrightarrow> strlen_from m str ret = Some (ret + of_nat (length xs))"
proof (induction xs arbitrary: ret)
  case Nil
  then show ?case
    by (subst strlen_from.simps) simp
next
  case (Cons x xs)
  then have "strlen_from m str (ret + 1) = Some (ret + 1 + of_nat (length xs))"
    by (intro Cons.IH) (simp add: add.assoc)
  then show ?case
    using Cons.prems by (subst strlen_from.simps) (simp add: algebra_simps)
qed

lemma strlen_cstr: "cstr m a xs \<Longrightarrow> strlen m a = Some (of_nat (length xs))"
  using strlen_from_cstr [of m a 0 xs] by (simp add: strlen_def)

text \<open>The order of strings of signed characters.\<close>

fun signed_cmp :: "u8 list \<Rightarrow> u8 list \<Rightarrow> int" where
  "signed_cmp [] [] = 0"
| "signed_cmp (x # xs) [] = 1"
| "signed_cmp [] (y # ys) = - 1"
| "signed_cmp (x # xs) (y # ys) =
     (if sint x < sint y then - 1 else if sint x > sint y then 1 else signed_cmp xs ys)"

lemma strcmp_cstr: "cstr m a xs \<Longrightarrow> cstr m b ys \<Longrightarrow> strcmp m a b = Some (signed_cmp xs ys)"
proof (induction xs ys arbitrary: a b rule: signed_cmp.induct)
  case (4 x xs y ys)
  then show ?case
    by (subst strcmp.simps) auto
qed (subst strcmp.simps, simp)+

lemma strncmp_cstr:
  "cstr m a xs \<Longrightarrow> cstr m b ys \<Longrightarrow> strncmp_loop m a b k = signed_cmp (take k xs) (take k ys)"
proof (induction k arbitrary: a b xs ys)
  case (Suc k)
  then show ?case
    by (cases xs; cases ys) (auto simp: Let_def)
qed simp

lemma signed_cmp_0: "signed_cmp xs ys = 0 \<longleftrightarrow> xs = ys"
  by (induction xs ys rule: signed_cmp.induct) (auto intro: signed_word_eqI)

lemma signed_cmp_antisym: "signed_cmp ys xs = - signed_cmp xs ys"
  by (induction xs ys rule: signed_cmp.induct) auto

section \<open>Copying strings\<close>

lemma put_bytes_other:
  "length xs < 2 ^ 32 \<Longrightarrow> y \<notin> span a (length xs) \<Longrightarrow> put_bytes m a xs y = m y"
  by (induction m a xs rule: put_bytes.induct) (auto simp: span_Suc)

lemma cstr_upd:
  assumes "length xs < 2 ^ 32" "d \<notin> span a (Suc (length xs))"
  shows "cstr (m (d := v)) a xs = cstr m a xs"
  using assms by (intro cstr_cong) auto

lemma cstr_nonzero: "cstr m a xs \<Longrightarrow> 0 \<notin> set xs"
  by (induction xs arbitrary: a) auto

lemma cstr_put_bytes:
  assumes "length xs < 2 ^ 32" "0 \<notin> set xs"
  shows "cstr ((put_bytes m a xs) (a + of_nat (length xs) := 0)) a xs"
  using assms
proof (induction xs arbitrary: m a)
  case (Cons x xs)
  have len: "length xs < 2 ^ 32"
    using Cons.prems(1) by simp
  have eq: "a + of_nat (length (x # xs)) = a + 1 + of_nat (length xs)"
    by (simp add: algebra_simps)
  have "unat (of_nat (Suc (length xs)) :: u32) = Suc (length xs)"
    using Cons.prems(1) by (intro unat_u32_of_nat) simp
  then have "(of_nat (Suc (length xs)) :: u32) \<noteq> 0"
    by (metis nat.distinct(1) unat_0)
  then have neq: "a \<noteq> a + 1 + of_nat (length xs)"
    by (simp add: add.assoc)
  define M where "M = (put_bytes (m(a := x)) (a + 1) xs) (a + 1 + of_nat (length xs) := 0)"
  have "a \<notin> span (a + 1) (length xs)"
    using Cons.prems(1) by (simp add: span_def unat_u32_minus_1)
  then have "M a = x"
    using len neq by (simp add: M_def put_bytes_other)
  moreover have "cstr M (a + 1) xs"
    unfolding M_def using Cons.prems by (intro Cons.IH) auto
  ultimately have "cstr M a (x # xs)"
    using Cons.prems(2) by simp
  then show ?case
    unfolding M_def by (simp only: eq put_bytes.simps)
qed simp

lemma strcpy_from_cstr:
  assumes "cstr m (src + i) xs" "length xs < 2 ^ 32"
    and "span (dst + i) (length xs) \<inter> span (src + i) (Suc (length xs)) = {}"
  shows "strcpy_from m dst src i = Some (put_bytes m (dst + i) xs)"
  using assms
proof (induction xs arbitrary: m i)
  case Nil
  then show ?case
    by (subst strcpy_from.simps) simp
next
  case (Cons x xs)
  have len: "length xs < 2 ^ 32" "Suc (length xs) < 2 ^ 32"
    using Cons.prems(2) by simp_all
  have sp: "dst + i \<notin> span (src + i + 1) (Suc (length xs))"
    "span (dst + i + 1) (length xs) \<inter> span (src + i + 1) (Suc (length xs)) = {}"
    using Cons.prems(3) len by (auto simp: span_Suc)
  have "strcpy_from (m (dst + i := x)) dst src (i + 1) = Some (put_bytes (m (dst + i := x)) (dst + (i + 1)) xs)"
  proof (rule Cons.IH)
    show "cstr (m (dst + i := x)) (src + (i + 1)) xs"
      unfolding add.assoc [symmetric] cstr_upd [OF len(1) sp(1)] using Cons.prems(1) by simp
  qed (use sp len in \<open>simp_all add: add.assoc\<close>)
  then show ?case
    using Cons.prems(1) by (subst strcpy_from.simps) (simp add: add.assoc)
qed

lemma strcat_from_cstr:
  assumes "cstr m (src + j) ys" "length ys < 2 ^ 32"
    and "span (dst + i) (length ys) \<inter> span (src + j) (Suc (length ys)) = {}"
  shows "strcat_from m dst src i j
    = Some ((put_bytes m (dst + i) ys) (dst + i + of_nat (length ys) := 0))"
  using assms
proof (induction ys arbitrary: m i j)
  case Nil
  then show ?case
    by (subst strcat_from.simps) simp
next
  case (Cons y ys)
  have len: "length ys < 2 ^ 32" "Suc (length ys) < 2 ^ 32"
    using Cons.prems(2) by simp_all
  have sp: "dst + i \<notin> span (src + j + 1) (Suc (length ys))"
    "span (dst + i + 1) (length ys) \<inter> span (src + j + 1) (Suc (length ys)) = {}"
    using Cons.prems(3) len by (auto simp: span_Suc)
  have "strcat_from (m (dst + i := y)) dst src (i + 1) (j + 1)
      = Some ((put_bytes (m (dst + i := y)) (dst + (i + 1)) ys) (dst + (i + 1) + of_nat (length ys) := 0))"
  proof (rule Cons.IH)
    show "cstr (m (dst + i := y)) (src + (j + 1)) ys"
      unfolding add.assoc [symmetric] cstr_upd [OF len(1) sp(1)] using Cons.prems(1) by simp
  qed (use sp len in \<open>simp_all add: add.assoc\<close>)
  then show ?case
    using Cons.prems(1) by (subst strcat_from.simps) (simp add: algebra_simps)
qed

lemma cstr_append:
  "cstr m a (xs @ ys) \<longleftrightarrow> (\<forall>i<length xs. m (a + of_nat i) = xs ! i) \<and> 0 \<notin> set xs
     \<and> cstr m (a + of_nat (length xs)) ys"
proof (induction xs arbitrary: a)
  case (Cons x xs)
  have shift: "a + of_nat (Suc i) = a + 1 + of_nat i" for i
    by simp
  have "(\<forall>i<length (x # xs). m (a + of_nat i) = (x # xs) ! i) \<longleftrightarrow>
      m a = x \<and> (\<forall>i<length xs. m (a + 1 + of_nat i) = xs ! i)"
    unfolding list.size add_0_right add_Suc_right All_less_Suc2 shift by simp
  moreover have "cstr m a ((x # xs) @ ys) \<longleftrightarrow> m a = x \<and> x \<noteq> 0 \<and> cstr m (a + 1) (xs @ ys)"
    by simp
  moreover have "a + of_nat (length (x # xs)) = a + 1 + of_nat (length xs)"
    by simp
  ultimately show ?case
    unfolding Cons.IH [of "a + 1"] by (auto simp: add.assoc)
qed simp

lemma cstr_nth: "cstr m a xs \<Longrightarrow> i < length xs \<Longrightarrow> m (a + of_nat i) = xs ! i"
  using cstr_append [of m a xs "[]", unfolded append_Nil2] by blast

section \<open>Properties\<close>

text \<open>
  On zero-terminated strings \<open>strlen\<close> returns the length, and \<open>strcmp\<close> and \<open>strncmp\<close>
  decide the order of the strings as sequences of signed characters: zero
  exactly for equal strings (of \<open>strncmp\<close>, equal prefixes), with opposite signs
  for exchanged arguments.
\<close>

theorem string_comparison:
  assumes "cstr m a xs" "cstr m b ys"
  shows "strlen m a = Some (of_nat (length xs))
    \<and> strcmp m a b = Some (signed_cmp xs ys) \<and> (strcmp m a b = Some 0 \<longleftrightarrow> xs = ys)
    \<and> strcmp m b a = Some (- signed_cmp xs ys)
    \<and> strncmp m a b n = signed_cmp (take (unat n) xs) (take (unat n) ys)"
  using strlen_cstr [OF assms(1)] strcmp_cstr [OF assms] strcmp_cstr [OF assms(2,1)]
    strncmp_cstr [OF assms] signed_cmp_0 [of xs ys]
  unfolding signed_cmp_antisym [of ys xs] strncmp_def by simp

theorem string_comparison_witness:
  "strcmp (\<lambda>x. if x = 0x100 then 0x41 else if x = 0x200 then 0x42 else 0) 0x100 0x200 = Some (- 1)"
  using string_comparison [of "\<lambda>x. if x = 0x100 then 0x41 else if x = 0x200 then 0x42 else 0"
      "0x100" "[0x41]" "0x200" "[0x42]" 1] by simp

text \<open>
  \<open>strcat\<close> appends: when the source does not overlap the bytes written, the
  destination afterwards holds the two strings in order, terminated.
\<close>

theorem strcat_appends:
  assumes "cstr m dst xs" "cstr m src ys" "length xs + length ys < 2 ^ 32"
    and "span dst (Suc (length xs + length ys)) \<inter> span src (Suc (length ys)) = {}"
  shows "\<exists>m'. strcat m dst src = Some m' \<and> cstr m' dst (xs @ ys)"
proof -
  let ?d = "dst + of_nat (length xs)"
  let ?m = "(put_bytes m ?d ys) (?d + of_nat (length ys) := 0)"
  have sub: "span ?d (length ys) \<subseteq> span dst (Suc (length xs + length ys))"
  proof
    fix z
    assume "z \<in> span ?d (length ys)"
    then have "unat (z - ?d) < length ys"
      by (simp add: span_def)
    moreover have "z - dst = (z - ?d) + of_nat (length xs)"
      by simp
    ultimately show "z \<in> span dst (Suc (length xs + length ys))"
      using assms(3) unat_word_ariths(1) [of "z - ?d" "of_nat (length xs)"]
      by (simp add: span_def unat_of_nat)
  qed
  have "strcat m dst src = Some ?m"
    using strcat_from_cstr [of m src 0 ys dst "of_nat (length xs)"] assms sub strlen_cstr [OF assms(1)]
    by (auto simp: strcat_def)
  moreover have "cstr ?m ?d ys"
    using assms(2,3) cstr_nonzero by (intro cstr_put_bytes) auto
  moreover have "?m (dst + of_nat i) = xs ! i" if i: "i < length xs" for i
  proof -
    have "dst + of_nat i - ?d = of_nat i - of_nat (length xs)"
      by simp
    then have off: "unat (dst + of_nat i - ?d) = i + 2 ^ 32 - length xs"
      using i assms(3) unat_diff_less [of "of_nat i :: u32" "of_nat (length xs)"]
      by (simp add: unat_of_nat)
    then have "dst + of_nat i \<notin> span ?d (length ys)"
      using i assms(3) by (simp add: span_def)
    moreover have "dst + of_nat i \<noteq> ?d + of_nat (length ys)"
      using off i assms(3) by (auto simp: unat_of_nat)
    ultimately show ?thesis
      using cstr_nth [OF assms(1) i] assms(3) by (simp add: put_bytes_other)
  qed
  ultimately show ?thesis
    using cstr_nonzero [OF assms(1)] by (auto simp: cstr_append)
qed

theorem strcat_appends_witness:
  "\<exists>m'. strcat (\<lambda>x. if x = 0x100 then 0x41 else if x = 0x200 then 0x42 else 0) 0x100 0x200 = Some m'
     \<and> cstr m' 0x100 [0x41, 0x42]"
proof -
  have "span 0x100 (Suc (Suc (Suc 0))) \<inter> span 0x200 (Suc (Suc 0)) = {}"
    by (simp add: span_Suc)
  then show ?thesis
    using strcat_appends [of "\<lambda>x. if x = 0x100 then 0x41 else if x = 0x200 then 0x42 else 0"
        "0x100" "[0x41]" "0x200" "[0x42]"] by simp
qed

text \<open>
  \<open>strcpy\<close> copies the characters of the source but not the zero byte that ends it:
  the byte behind the copy keeps its old value.
\<close>

theorem strcpy_unterminated:
  assumes "cstr m src xs" "length xs < 2 ^ 32"
    and "span dst (length xs) \<inter> span src (Suc (length xs)) = {}"
  shows "strcpy m dst src = Some (put_bytes m dst xs)
    \<and> put_bytes m dst xs (dst + of_nat (length xs)) = m (dst + of_nat (length xs))"
  using strcpy_from_cstr [of m src 0 xs dst] assms
  by (simp add: strcpy_def put_bytes_other span_def unat_of_nat)

theorem strcpy_unterminated_witness:
  "strcpy (\<lambda>x. if x = 0x200 then 0x42 else if x = 0x201 then 0 else 7) 0x100 0x200
     = Some (put_bytes (\<lambda>x. if x = 0x200 then 0x42 else if x = 0x201 then 0 else 7) 0x100 [0x42])"
proof -
  have "span 0x100 (length [0x42 :: u8]) \<inter> span 0x200 (Suc (length [0x42 :: u8])) = {}"
    by (simp add: span_Suc)
  then show ?thesis
    using strcpy_unterminated [of "\<lambda>x. if x = 0x200 then 0x42 else if x = 0x201 then 0 else 7"
        "0x200" "[0x42]" "0x100"] by simp
qed

end
