(* ===== verification/Strtoul.thy ===== *)
theory Strtoul
  imports KPrelude
begin

text \<open>
  sys/ctype.h, utils/strtoul.c and utils/strtouq.c.  A pointer into a
  zero-terminated string is the list of the bytes from there to the terminator;
  reading through it past the last byte gives the terminator.  The end pointer
  is a result.
\<close>

section \<open>Definitions\<close>

definition isspace :: "u8 \<Rightarrow> bool" where
  "isspace c \<longleftrightarrow> c = 32 \<or> (c \<ge> 9 \<and> c \<le> 13)"

definition isascii :: "u8 \<Rightarrow> bool" where
  "isascii c \<longleftrightarrow> c AND NOT 0x7f = 0"

definition isupper :: "u8 \<Rightarrow> bool" where
  "isupper c \<longleftrightarrow> c \<ge> 65 \<and> c \<le> 90"

definition islower :: "u8 \<Rightarrow> bool" where
  "islower c \<longleftrightarrow> c \<ge> 97 \<and> c \<le> 122"

definition isalpha :: "u8 \<Rightarrow> bool" where
  "isalpha c \<longleftrightarrow> isupper c \<or> islower c"

definition isdigit :: "u8 \<Rightarrow> bool" where
  "isdigit c \<longleftrightarrow> c \<ge> 48 \<and> c \<le> 57"

definition isxdigit :: "u8 \<Rightarrow> bool" where
  "isxdigit c \<longleftrightarrow> isdigit c \<or> (c \<ge> 65 \<and> c \<le> 70) \<or> (c \<ge> 97 \<and> c \<le> 102)"

definition isprint :: "u8 \<Rightarrow> bool" where
  "isprint c \<longleftrightarrow> c \<ge> 32 \<and> c \<le> 126"

definition toupper :: "u8 \<Rightarrow> u8" where
  "toupper c = c - 0x20 * (if c \<ge> 97 \<and> c \<le> 122 then 1 else 0)"

definition tolower :: "u8 \<Rightarrow> u8" where
  "tolower c = c + 0x20 * (if c \<ge> 65 \<and> c \<le> 90 then 1 else 0)"

definition deref :: "u8 list \<Rightarrow> u8" where
  "deref s = (case s of [] \<Rightarrow> 0 | c # _ \<Rightarrow> c)"

text \<open>The value of a digit, \<open>None\<close> where the loop breaks before the base is looked at.\<close>

definition digit_value :: "u8 \<Rightarrow> nat option" where
  "digit_value c =
     (if \<not> isascii c then None
      else if isdigit c then Some (unat (c - 48))
      else if isalpha c then Some (unat (c - (if isupper c then 55 else 87)))
      else None)"

text \<open>The result is \<open>acc\<close>, \<open>any\<close> and the pointer \<open>s - 1\<close>.\<close>

fun strtoul_loop ::
    "nat \<Rightarrow> 'a::len word \<Rightarrow> nat \<Rightarrow> 'a word \<Rightarrow> int \<Rightarrow> u8 list \<Rightarrow> 'a word \<times> int \<times> u8 list" where
  "strtoul_loop base cutoff cutlim acc any [] = (acc, any, [])"
| "strtoul_loop base cutoff cutlim acc any (c # s) =
     (case digit_value c of
        None \<Rightarrow> (acc, any, c # s)
      | Some v \<Rightarrow>
          if v \<ge> base then (acc, any, c # s)
          else if any < 0 \<or> acc > cutoff \<or> (acc = cutoff \<and> v > cutlim)
          then strtoul_loop base cutoff cutlim acc (- 1) s
          else strtoul_loop base cutoff cutlim (acc * of_nat base + of_nat v) 1 s)"

definition strto_unsigned :: "'a::len itself \<Rightarrow> u8 list \<Rightarrow> nat \<Rightarrow> 'a word \<times> u8 list" where
  "strto_unsigned _ nptr base =
     (let s = dropWhile isspace nptr;
          (neg, s) = (if deref s = 45 then (True, tl s)
                      else if deref s = 43 then (False, tl s) else (False, s));
          (base, s) = (if (base = 0 \<or> base = 16) \<and> deref s = 48
                          \<and> (deref (tl s) = 120 \<or> deref (tl s) = 88)
                       then (16, tl (tl s)) else (base, s));
          base = (if base = 0 then (if deref s = 48 then 8 else 10) else base);
          cutoff = (- 1 :: 'a word) div of_nat base;
          cutlim = unat ((- 1 :: 'a word) mod of_nat base);
          (acc, any, s) = strtoul_loop base cutoff cutlim (0 :: 'a word) 0 s;
          acc = (if any < 0 then - 1 else if neg then - acc else acc)
      in (acc, if any \<noteq> 0 then s else nptr))"

definition strtoul :: "u8 list \<Rightarrow> nat \<Rightarrow> u32 \<times> u8 list" where
  "strtoul nptr base = strto_unsigned TYPE(32) nptr base"

definition strtouq :: "u8 list \<Rightarrow> nat \<Rightarrow> u64 \<times> u8 list" where
  "strtouq nptr base = strto_unsigned TYPE(64) nptr base"

section \<open>Digits\<close>

text \<open>A character that the conversion reads as the digit \<open>d\<close>.\<close>

definition is_digit_char :: "u8 \<Rightarrow> nat \<Rightarrow> bool" where
  "is_digit_char c d \<longleftrightarrow> digit_value c = Some d"

fun digits_value :: "nat \<Rightarrow> nat \<Rightarrow> nat list \<Rightarrow> nat" where
  "digits_value b acc [] = acc"
| "digits_value b acc (d # ds) = digits_value b (acc * b + d) ds"

lemma digits_value_mono: "0 < b \<Longrightarrow> acc \<le> digits_value b acc ds"
proof (induction ds arbitrary: acc)
  case (Cons d ds)
  have "acc \<le> acc * b + d"
    using Cons.prems by (cases b) auto
  also have "\<dots> \<le> digits_value b (acc * b + d) ds"
    using Cons by simp
  finally show ?case
    by simp
qed simp

lemma loop_overflowed:
  assumes "list_all2 is_digit_char cs ds" "\<forall>d\<in>set ds. d < b" "digit_value (deref rest) = None \<or> rest = []"
  shows "strtoul_loop b cutoff cutlim acc (- 1) (cs @ rest) = (acc, - 1, rest)"
  using assms
proof (induction cs ds rule: list_all2_induct)
  case Nil
  then show ?case
    by (cases rest) (auto simp: deref_def)
next
  case (Cons c cs d ds)
  then show ?case
    by (simp add: is_digit_char_def)
qed

lemma mult_add_gt_iff:
  assumes "0 < b" "v < (b :: nat)"
  shows "M < a * b + v \<longleftrightarrow> M div b < a \<or> (a = M div b \<and> M mod b < v)"
proof -
  have M: "M = M div b * b + M mod b" "M mod b < b"
    using assms(1) by simp_all
  then have le: "M div b * b \<le> M" "M < M div b * b + b"
    by linarith+
  show ?thesis
  proof (cases a "M div b" rule: linorder_cases)
    case less
    then have "Suc a * b \<le> M div b * b"
      by (intro mult_le_mono1) simp
    then have "\<not> M < a * b + v"
      using le assms(2) unfolding mult_Suc by linarith
    then show ?thesis
      using less by simp
  next
    case equal
    then show ?thesis
      using M(1) by (metis add_less_cancel_left less_irrefl_nat)
  next
    case greater
    then have "Suc (M div b) * b \<le> a * b"
      by (intro mult_le_mono1) simp
    then have "M < a * b + v"
      using le unfolding mult_Suc by linarith
    then show ?thesis
      using greater by simp
  qed
qed

lemma cutoff_test:
  fixes acc :: "'a::len word"
  assumes "0 < b" "b < 2 ^ LENGTH('a)" "v < b"
  shows "(acc > - 1 div of_nat b \<or> (acc = - 1 div of_nat b \<and> v > unat (- 1 mod of_nat b :: 'a word)))
    \<longleftrightarrow> unat acc * b + v \<ge> 2 ^ LENGTH('a)"
proof -
  let ?M = "2 ^ LENGTH('a) - 1 :: nat"
  have ub: "unat (of_nat b :: 'a word) = b"
    using assms(2) by (simp add: unat_of_nat)
  have um: "unat (- 1 :: 'a word) = ?M"
    by (simp add: unsigned_minus_1_eq_mask mask_eq_exp_minus_1)
  have q: "unat (- 1 div of_nat b :: 'a word) = ?M div b" "unat (- 1 mod of_nat b :: 'a word) = ?M mod b"
    by (simp_all only: unat_div unat_mod ub um)
  have eq: "acc = - 1 div of_nat b \<longleftrightarrow> unat acc = ?M div b"
    unfolding word_unat_eq_iff q ..
  have lt: "acc > - 1 div of_nat b \<longleftrightarrow> unat acc > ?M div b"
    unfolding word_less_nat_alt q ..
  have "(0 :: nat) < 2 ^ LENGTH('a)"
    by simp
  then have "unat acc * b + v \<ge> 2 ^ LENGTH('a) \<longleftrightarrow> ?M < unat acc * b + v"
    by linarith
  then show ?thesis
    unfolding eq lt q mult_add_gt_iff [OF assms(1,3)] by simp
qed

lemma loop_digits:
  fixes acc :: "'a::len word"
  assumes "list_all2 is_digit_char cs ds" "\<forall>d\<in>set ds. d < b" "1 < b" "b < 2 ^ LENGTH('a)"
    and "digit_value (deref rest) = None \<or> rest = []" "0 \<le> any" "cs \<noteq> [] \<or> any = 1"
  shows "\<exists>acc'. strtoul_loop b (- 1 div of_nat b) (unat (- 1 mod of_nat b :: 'a word)) acc any (cs @ rest) =
    (if digits_value b (unat acc) ds < 2 ^ LENGTH('a)
     then (of_nat (digits_value b (unat acc) ds), 1, rest) else (acc', - 1, rest))"
  using assms
proof (induction cs ds arbitrary: acc any rule: list_all2_induct)
  case Nil
  then show ?case
    by (cases rest) (auto simp: deref_def)
next
  case (Cons c cs d ds)
  let ?loop = "strtoul_loop b (- 1 div of_nat b) (unat (- 1 mod of_nat b :: 'a word))"
  have dv: "digit_value c = Some d" "d < b" "0 < b"
    using Cons.hyps(1) Cons.prems by (auto simp: is_digit_char_def)
  note ct = cutoff_test [OF dv(3) Cons.prems(3) dv(2), of acc]
  show ?case
  proof (cases "unat acc * b + d < 2 ^ LENGTH('a)")
    case True
    then have step: "?loop acc any ((c # cs) @ rest) = ?loop (acc * of_nat b + of_nat d) 1 (cs @ rest)"
      using dv ct Cons.prems(5) by (auto simp: not_le)
    let ?a = "acc * of_nat b + of_nat d"
    have eq: "unat ?a = unat acc * b + d"
    proof -
      have "acc * of_nat b + of_nat d = of_nat (unat acc * b + d)"
        by simp
      then show ?thesis
        using True by (simp only: unat_of_nat mod_less)
    qed
    have "\<exists>acc'. ?loop ?a 1 (cs @ rest) =
      (if digits_value b (unat ?a) ds < 2 ^ LENGTH('a)
       then (of_nat (digits_value b (unat ?a) ds), 1, rest) else (acc', - 1, rest))"
      using Cons.prems by (intro Cons.IH) auto
    then show ?thesis
      unfolding step eq digits_value.simps .
  next
    case False
    then have step: "?loop acc any ((c # cs) @ rest) = ?loop acc (- 1) (cs @ rest)"
      using dv ct by (auto simp: not_less)
    have "2 ^ LENGTH('a) \<le> digits_value b (unat acc * b + d) ds"
      using False digits_value_mono [OF dv(3), of "unat acc * b + d" ds] by simp
    moreover have "?loop acc (- 1) (cs @ rest) = (acc, - 1, rest)"
      using Cons by (intro loop_overflowed) auto
    ultimately show ?thesis
      unfolding step digits_value.simps by (auto simp: not_less)
  qed
qed

lemma digit_char_prefix:
  assumes "digit_value c = Some d"
  shows "\<not> isspace c" "c \<noteq> 45" "c \<noteq> 43" "c \<noteq> 0"
  using assms
  by (auto simp: digit_value_def isspace_def isdigit_def isalpha_def isupper_def islower_def
      word_le_nat_alt split: if_splits)

lemma strto_unsigned_digits:
  assumes "list_all2 is_digit_char cs ds" "cs \<noteq> []" "\<forall>d\<in>set ds. d < b" "1 < b" "b \<le> 36"
    and "b < 2 ^ LENGTH('a::len)" "digit_value (deref rest) = None"
  shows "strto_unsigned TYPE('a) (cs @ rest) b =
    (if digits_value b 0 ds < 2 ^ LENGTH('a) then of_nat (digits_value b 0 ds) else - 1, rest)"
proof -
  obtain c cs' where cs: "cs = c # cs'"
    using assms(2) by (cases cs) auto
  obtain d ds' where ds: "ds = d # ds'" "digit_value c = Some d" "list_all2 is_digit_char cs' ds'"
    using assms(1) cs by (auto simp: list_all2_Cons1 is_digit_char_def)
  note pre = digit_char_prefix [OF ds(2)]
  have dv: "digit_value 120 = Some 33" "digit_value 88 = Some 33"
    by (simp_all add: digit_value_def isdigit_def isalpha_def isupper_def islower_def isascii_def)
  have nox: "\<not> (b = 16 \<and> (deref (cs' @ rest) = 120 \<or> deref (cs' @ rest) = 88))"
  proof (cases cs')
    case Nil
    then show ?thesis
      using assms(7) dv by auto
  next
    case (Cons c' cs'')
    then obtain d' where "digit_value c' = Some d'" "d' < b"
      using ds assms(3) by (auto simp: list_all2_Cons1 is_digit_char_def)
    then show ?thesis
      using Cons dv by (auto simp: deref_def)
  qed
  have "deref (cs @ rest) = c" "dropWhile isspace (cs @ rest) = cs @ rest" "tl (cs @ rest) = cs' @ rest"
    using cs pre by (simp_all add: deref_def)
  moreover obtain acc' where
    "strtoul_loop b (- 1 div of_nat b) (unat (- 1 mod of_nat b :: 'a word)) (0 :: 'a word) 0 (cs @ rest) =
     (if digits_value b 0 ds < 2 ^ LENGTH('a) then (of_nat (digits_value b 0 ds), 1, rest)
      else (acc', - 1, rest))"
    using loop_digits [OF assms(1,3,4,6), of rest 0 0, unfolded unat_0] assms(2,7) by auto
  ultimately show ?thesis
    using pre nox assms(4) by (auto simp: strto_unsigned_def Let_def)
qed

section \<open>Properties\<close>

text \<open>
  A string of digits of a base between 2 and 36 is converted to its value when
  it fits the result type and to the greatest value otherwise; the end pointer is behind
  the last digit.
\<close>

theorem strtoul_converts:
  assumes "list_all2 is_digit_char cs ds" "cs \<noteq> []" "\<forall>d\<in>set ds. d < b" "1 < b" "b \<le> 36"
    and "digit_value (deref rest) = None"
  shows "strtoul (cs @ rest) b =
      (if digits_value b 0 ds < 2 ^ 32 then of_nat (digits_value b 0 ds) else - 1, rest)
    \<and> strtouq (cs @ rest) b =
      (if digits_value b 0 ds < 2 ^ 64 then of_nat (digits_value b 0 ds) else - 1, rest)"
  using strto_unsigned_digits [OF assms(1-5) _ assms(6), where ?'a = 32]
    strto_unsigned_digits [OF assms(1-5) _ assms(6), where ?'a = 64] assms(5)
  by (simp add: strtoul_def strtouq_def)

theorem strtoul_converts_witness:
  "strtoul [0x32, 0x41, 0x2c] 16 = (0x2A, [0x2c])"
proof -
  have "list_all2 is_digit_char [0x32, 0x41] [2, 10]" "digit_value (deref [0x2c]) = None"
    by (simp_all add: is_digit_char_def digit_value_def isdigit_def isalpha_def isupper_def
        islower_def isascii_def deref_def)
  then show ?thesis
    using strtoul_converts [of "[0x32, 0x41]" "[2, 10]" 16 "[0x2c]"] by simp
qed

end
