(* ===== verification/Kprintf.thy ===== *)
theory Kprintf
  imports Strtoul
begin

text \<open>
  utils/kprintf.c.  The variable arguments are a list of typed values; the
  characters that \<open>PCHAR\<close> passes to the output function are the result, and
  \<open>retval\<close> is their number.  An argument of the wrong type is an error of the
  model, and so is running past the end of a format that ends within a
  conversion, where the code goes on reading behind the terminator.
\<close>

section \<open>Numbers\<close>

definition bytes_of :: "string \<Rightarrow> u8 list" where
  "bytes_of s = map of_char s"

definition hex2ascii_data :: "u8 list" where
  "hex2ascii_data = bytes_of ''0123456789abcdefghijklmnopqrstuvwxyz''"

definition hex2ascii :: "nat \<Rightarrow> u8" where
  "hex2ascii h = hex2ascii_data ! h"

definition human_units :: "u8 list list" where
  "human_units = map bytes_of [''B'', ''KB'', ''MB'', ''GB'', ''TB'', ''PB'']"

definition max_human_unit :: nat where
  "max_human_unit = 5"

text \<open>
  The characters in the order of the buffer, the least significant digit first.
  The base is between 2 and 36; for a smaller one the code does not get past
  the division.
\<close>

function ksprintn_digits :: "nat \<Rightarrow> nat \<Rightarrow> bool \<Rightarrow> u8 list" where
  "ksprintn_digits num base upper =
     (let c = hex2ascii (num mod base);
          c = (if upper then toupper c else c)
      in c # (if base < 2 \<or> num div base = 0 then [] else ksprintn_digits (num div base) base upper))"
  by pat_completeness auto
termination
proof (relation "measure (\<lambda>(num, _, _). num)")
  fix num base :: nat and upper
  assume "\<not> (base < 2 \<or> num div base = 0)"
  then have "1 < base" "0 < num" by (auto intro: gr0I)
  then show "((num div base, base, upper), num, base, upper) \<in> measure (\<lambda>(num, _, _). num)"
    by (simp add: div_less_dividend)
qed simp

declare ksprintn_digits.simps [simp del]

text \<open>The string that is read backwards from the returned pointer, and its length.\<close>

definition ksprintn :: "u64 \<Rightarrow> nat \<Rightarrow> bool \<Rightarrow> u8 list \<times> int" where
  "ksprintn num base upper =
     (let p = ksprintn_digits (unat num) base upper in (rev p, int (length p)))"

section \<open>Conversions\<close>

datatype karg = AInt u32 | AQuad u64 | AStr "u8 list option" | ABytes "u8 list" | ARef u32

datatype kv_error = BadArgument | FormatOverrun

record kflags =
  padc :: u8
  width :: int
  qflag :: bool
  lflag :: bool
  ladjust :: bool
  sharpflag :: bool
  sign :: bool
  dot :: bool
  dwidth :: int
  upper :: bool
  cflag :: bool
  hflag :: bool
  jflag :: bool
  tflag :: bool
  zflag :: bool
  Bflag :: bool

definition kflags0 :: kflags where
  "kflags0 = \<lparr> padc = 32, width = 0, qflag = False, lflag = False, ladjust = False,
     sharpflag = False, sign = False, dot = False, dwidth = 0, upper = False, cflag = False,
     hflag = False, jflag = False, tflag = False, zflag = False, Bflag = False \<rparr>"

definition handle_nosign :: "kflags \<Rightarrow> karg list \<Rightarrow> (u64 \<times> karg list) option" where
  "handle_nosign fl ap =
     (if jflag fl \<or> qflag fl then (case ap of AQuad q # ap \<Rightarrow> Some (q, ap) | _ \<Rightarrow> None)
      else (case ap of
        AInt i # ap \<Rightarrow>
          Some (if tflag fl then scast i
                else if lflag fl \<or> zflag fl then ucast i
                else if hflag fl then ucast (ucast i :: u16)
                else if cflag fl then ucast (ucast i :: u8)
                else ucast i, ap)
      | _ \<Rightarrow> None))"

definition handle_sign :: "kflags \<Rightarrow> karg list \<Rightarrow> (u64 \<times> karg list) option" where
  "handle_sign fl ap =
     (if jflag fl \<or> qflag fl then (case ap of AQuad q # ap \<Rightarrow> Some (q, ap) | _ \<Rightarrow> None)
      else (case ap of
        AInt i # ap \<Rightarrow>
          Some (if tflag fl \<or> lflag fl \<or> zflag fl then scast i
                else if hflag fl then scast (ucast i :: u16)
                else if cflag fl then scast (ucast i :: u8)
                else scast i, ap)
      | _ \<Rightarrow> None))"

text \<open>
  \<open>if (cond && width && (width -= tmp) > 0) while (width--) PCHAR(padc);\<close> with the value
  of \<open>width\<close> it leaves.
\<close>

definition kv_pad :: "bool \<Rightarrow> u8 \<Rightarrow> int \<Rightarrow> int \<Rightarrow> u8 list \<times> int" where
  "kv_pad cond pc w tmp =
     (if cond \<and> w \<noteq> 0
      then (if w - tmp > 0 then (replicate (nat (w - tmp)) pc, - 1) else ([], w - tmp))
      else ([], w))"

fun kv_human :: "nat \<Rightarrow> u64 \<Rightarrow> nat \<Rightarrow> u64 \<times> nat" where
  "kv_human 0 num Bunits = (num, Bunits)"
| "kv_human (Suc k) num Bunits =
     (if num > 1024 then kv_human k (num div 1024) (Suc Bunits) else (num, Bunits))"

text \<open>The characters before, between and behind the prefix and the digits.\<close>

definition kv_fill :: "kflags \<Rightarrow> int \<Rightarrow> u8 list \<Rightarrow> u8 list \<Rightarrow> u8 list" where
  "kv_fill fl tmp prefix body =
     (let (pad1, w) = kv_pad (\<not> ladjust fl \<and> padc fl \<noteq> 48) (padc fl) (width fl) tmp;
          (pad2, w) = kv_pad (\<not> ladjust fl) (padc fl) w tmp;
          (pad3, w) = kv_pad (ladjust fl) (padc fl) w tmp
      in pad1 @ prefix @ pad2 @ body @ pad3)"

definition kv_sharp :: "kflags \<Rightarrow> nat \<Rightarrow> u64 \<Rightarrow> u8 list" where
  "kv_sharp fl base num =
     (if sharpflag fl \<and> num \<noteq> 0
      then (if base = 8 then [48] else if base = 16 then [48, 120] else []) else [])"

definition kv_sharp_len :: "kflags \<Rightarrow> nat \<Rightarrow> u64 \<Rightarrow> int" where
  "kv_sharp_len fl base num =
     (if sharpflag fl \<and> num \<noteq> 0
      then (if base = 8 then 1 else if base = 16 then 2 else 0) else 0)"

definition kv_number :: "kflags \<Rightarrow> nat \<Rightarrow> u64 \<Rightarrow> u8 list" where
  "kv_number fl base num =
     (let neg = (sign fl \<and> sint num < 0);
          num = (if neg then - num else num);
          (num, Bunits) = (if Bflag fl then kv_human max_human_unit num 0 else (num, 0));
          Bunitsstr = human_units ! Bunits;
          (p, tmp) = ksprintn num base (upper fl);
          tmp = tmp + kv_sharp_len fl base num + (if neg then 1 else 0)
                + (if Bflag fl then int (length Bunitsstr) else 0)
      in kv_fill fl tmp ((if neg then [45] else []) @ kv_sharp fl base num)
           (p @ (if Bflag fl then Bunitsstr else [])))"

definition kv_string :: "kflags \<Rightarrow> u8 list option \<Rightarrow> u8 list" where
  "kv_string fl p =
     (let p = (case p of None \<Rightarrow> bytes_of ''(null)'' | Some s \<Rightarrow> s);
          n = (if \<not> dot fl then length p else min (nat (dwidth fl)) (length p));
          w = width fl - int n
      in (if \<not> ladjust fl \<and> w > 0 then replicate (nat w) (padc fl) else [])
         @ take n p
         @ (if ladjust fl \<and> w > 0 then replicate (nat w) (padc fl) else []))"

definition gt_space :: "u8 \<Rightarrow> bool" where
  "gt_space c \<longleftrightarrow> sint c > 32"

text \<open>The names of the bits that are set, for \<open>%b\<close>; the processor takes a shift count
  modulo 32.\<close>

function kv_bit_names :: "u32 \<Rightarrow> bool \<Rightarrow> u8 list \<Rightarrow> u8 list" where
  "kv_bit_names num tmp [] = (if tmp then [62] else [])"
| "kv_bit_names num tmp (n # p) =
     (let rest = dropWhile gt_space p in
      if bit num ((unat n - 1) mod 32)
      then (if tmp then 44 else 60) # takeWhile gt_space p @ kv_bit_names num True rest
      else kv_bit_names num tmp rest)"
  by pat_completeness auto
termination
  by (relation "measure (\<lambda>(_, _, p). length p)")
    (auto simp: Let_def less_Suc_eq_le length_dropWhile_le)

definition kv_bits :: "u32 \<Rightarrow> u8 list \<Rightarrow> u8 list option" where
  "kv_bits num p =
     (let base = unat (deref p) in
      if base < 2 \<or> base > 36 then None
      else Some (fst (ksprintn (ucast num) base False)
                 @ (if num = 0 then [] else kv_bit_names num False (tl p))))"

definition hex_byte :: "u8 \<Rightarrow> u8 list" where
  "hex_byte b = [hex2ascii (unat (drop_bit 4 b)), hex2ascii (unat (b AND 0x0f))]"

fun kv_hexdump :: "u8 list \<Rightarrow> u8 list \<Rightarrow> nat \<Rightarrow> u8 list option" where
  "kv_hexdump up sep 0 = Some []"
| "kv_hexdump [] sep (Suc w) = None"
| "kv_hexdump (b # up) sep (Suc w) =
     map_option (\<lambda>r. hex_byte b @ (if w \<noteq> 0 then sep else []) @ r) (kv_hexdump up sep w)"

section \<open>The format\<close>

text \<open>What \<open>%n\<close> stores: the address, the size of the object and the value.\<close>

type_synonym kv_store = "u32 \<times> nat \<times> nat"

definition kv_store_size :: "kflags \<Rightarrow> nat" where
  "kv_store_size fl =
     (if jflag fl \<or> qflag fl then 8 else if lflag fl \<or> zflag fl then 4
      else if hflag fl then 2 else if cflag fl then 1 else 4)"

text \<open>The output of a conversion, the stores of \<open>%n\<close>, the rest of the format and of
  the arguments, and \<open>stop\<close>.\<close>

type_synonym kv_step = "kv_error + (u8 list \<times> kv_store list \<times> u8 list \<times> karg list \<times> bool)"

definition kv_emit :: "u8 list option \<Rightarrow> u8 list \<Rightarrow> karg list \<Rightarrow> kv_step" where
  "kv_emit out fmt ap =
     (case out of None \<Rightarrow> Inl BadArgument | Some s \<Rightarrow> Inr (s, [], fmt, ap, False))"

definition kv_num :: "kflags \<Rightarrow> nat \<Rightarrow> (u64 \<times> karg list) option \<Rightarrow> u8 list \<Rightarrow> kv_step" where
  "kv_num fl base arg fmt =
     (case arg of None \<Rightarrow> Inl BadArgument
      | Some (num, ap) \<Rightarrow> Inr (kv_number fl base num, [], fmt, ap, False))"

definition kv_nosign :: "kflags \<Rightarrow> nat \<Rightarrow> u8 list \<Rightarrow> karg list \<Rightarrow> kv_step" where
  "kv_nosign fl base fmt ap = kv_num (fl \<lparr> sign := False \<rparr>) base (handle_nosign fl ap) fmt"

definition kv_sign :: "kflags \<Rightarrow> nat \<Rightarrow> u8 list \<Rightarrow> karg list \<Rightarrow> kv_step" where
  "kv_sign fl base fmt ap = kv_num fl base (handle_sign fl ap) fmt"

fun digits_to_int :: "int \<Rightarrow> u8 list \<Rightarrow> int" where
  "digits_to_int n [] = n"
| "digits_to_int n (c # cs) = digits_to_int (n * 10 + (uint c - 48)) cs"

text \<open>\<open>seen\<close> is the text of the conversion so far, from its percent sign.\<close>

function kv_switch :: "nat \<Rightarrow> nat \<Rightarrow> kflags \<Rightarrow> u8 list \<Rightarrow> u8 list \<Rightarrow> karg list \<Rightarrow> kv_step" where
  "kv_switch radix retval fl seen [] ap = Inl FormatOverrun"
| "kv_switch radix retval fl seen (ch # fmt) ap =
     (let again = (\<lambda>fl. kv_switch radix retval fl (seen @ [ch]) fmt ap) in
      if ch = 0 then Inl FormatOverrun
      else if ch = 46 then again (fl \<lparr> dot := True \<rparr>)
      else if ch = 35 then again (fl \<lparr> sharpflag := True \<rparr>)
      else if ch = 43 then again (fl \<lparr> sign := True \<rparr>)
      else if ch = 45 then again (fl \<lparr> ladjust := True \<rparr>)
      else if ch = 37 then Inr ([ch], [], fmt, ap, False)
      else if ch = 42 then
        (case ap of
           AInt i # ap \<Rightarrow>
             (let v = sint i;
                  fl = (if \<not> dot fl
                        then (if v < 0 then fl \<lparr> ladjust := \<not> ladjust fl, width := - v \<rparr>
                              else fl \<lparr> width := v \<rparr>)
                        else fl \<lparr> dwidth := v \<rparr>)
              in kv_switch radix retval fl (seen @ [ch]) fmt ap)
         | _ \<Rightarrow> Inl BadArgument)
      else if ch = 48 \<and> \<not> dot fl then again (fl \<lparr> padc := 48 \<rparr>)
      else if isdigit ch then
        (let ds = takeWhile isdigit fmt; n = digits_to_int 0 (ch # ds) in
         kv_switch radix retval (if dot fl then fl \<lparr> dwidth := n \<rparr> else fl \<lparr> width := n \<rparr>)
           (seen @ ch # ds) (dropWhile isdigit fmt) ap)
      else if ch = 66 then kv_nosign (fl \<lparr> Bflag := True \<rparr>) 10 fmt ap
      else if ch = 98 then
        (case ap of AInt i # AStr (Some p) # ap \<Rightarrow> kv_emit (kv_bits i p) fmt ap
         | _ \<Rightarrow> Inl BadArgument)
      else if ch = 99 then
        (case ap of AInt i # ap \<Rightarrow> kv_emit (Some [ucast i]) fmt ap | _ \<Rightarrow> Inl BadArgument)
      else if ch = 68 then
        (case ap of
           ABytes up # AStr (Some p) # ap \<Rightarrow>
             kv_emit (kv_hexdump up p (nat (if width fl = 0 then 16 else width fl))) fmt ap
         | _ \<Rightarrow> Inl BadArgument)
      else if ch = 100 \<or> ch = 105 then kv_sign (fl \<lparr> sign := True \<rparr>) 10 fmt ap
      else if ch = 104 then
        again (if hflag fl then fl \<lparr> hflag := False, cflag := True \<rparr> else fl \<lparr> hflag := True \<rparr>)
      else if ch = 106 then again (fl \<lparr> jflag := True \<rparr>)
      else if ch = 108 then
        again (if lflag fl then fl \<lparr> lflag := False, qflag := True \<rparr> else fl \<lparr> lflag := True \<rparr>)
      else if ch = 110 then
        (case ap of ARef r # ap \<Rightarrow> Inr ([], [(r, kv_store_size fl, retval)], fmt, ap, False) | _ \<Rightarrow> Inl BadArgument)
      else if ch = 111 then kv_nosign fl 8 fmt ap
      else if ch = 112 then
        (case ap of
           AInt i # ap \<Rightarrow>
             kv_num (fl \<lparr> sharpflag := (width fl = 0), sign := False \<rparr>) 16 (Some (ucast i, ap)) fmt
         | _ \<Rightarrow> Inl BadArgument)
      else if ch = 113 then again (fl \<lparr> qflag := True \<rparr>)
      else if ch = 114 then (if sign fl then kv_sign fl radix fmt ap else kv_nosign fl radix fmt ap)
      else if ch = 115 then
        (case ap of AStr p # ap \<Rightarrow> kv_emit (Some (kv_string fl p)) fmt ap | _ \<Rightarrow> Inl BadArgument)
      else if ch = 116 then again (fl \<lparr> tflag := True \<rparr>)
      else if ch = 117 then kv_nosign fl 10 fmt ap
      else if ch = 88 then kv_nosign (fl \<lparr> upper := True \<rparr>) 16 fmt ap
      else if ch = 120 then kv_nosign fl 16 fmt ap
      else if ch = 121 then kv_sign (fl \<lparr> sign := True \<rparr>) 16 fmt ap
      else if ch = 122 then again (fl \<lparr> zflag := True \<rparr>)
      else Inr (seen @ [ch], [], fmt, ap, True))"
  by pat_completeness auto
termination
  by (relation "measure (\<lambda>(_, _, _, _, fmt, _). length fmt)")
    (auto simp: less_Suc_eq_le length_dropWhile_le)

declare kv_switch.simps [simp del]

text \<open>Every conversion consumes a character, which is what makes the main loop end.\<close>

definition rest_within :: "nat \<Rightarrow> kv_step \<Rightarrow> bool" where
  "rest_within n r \<longleftrightarrow> (case r of Inl _ \<Rightarrow> True | Inr (_, _, fmt, _, _) \<Rightarrow> length fmt \<le> n)"

lemma rest_within_step [simp]:
  "rest_within n (Inl e)"
  "length fmt \<le> n \<Longrightarrow> rest_within n (Inr (out, st, fmt, ap, b))"
  "length fmt \<le> n \<Longrightarrow> rest_within n (kv_emit s fmt ap)"
  "length fmt \<le> n \<Longrightarrow> rest_within n (kv_num fl base arg fmt)"
  "length fmt \<le> n \<Longrightarrow> rest_within n (kv_nosign fl base fmt ap)"
  "length fmt \<le> n \<Longrightarrow> rest_within n (kv_sign fl base fmt ap)"
  by (auto simp: rest_within_def kv_emit_def kv_nosign_def kv_sign_def kv_num_def split: option.splits)

lemma rest_within_if: "rest_within n x \<Longrightarrow> rest_within n y \<Longrightarrow> rest_within n (if c then x else y)"
  by simp

lemma kv_switch_within:
  "length fmt \<le> Suc n \<Longrightarrow> rest_within n (kv_switch radix retval fl seen fmt ap)"
proof (induction "length fmt" arbitrary: n radix retval fl seen fmt ap rule: less_induct)
  case less
  show ?case
  proof (cases fmt)
    case Nil
    then show ?thesis
      by (simp add: kv_switch.simps)
  next
    case (Cons ch fs)
    have IH: "rest_within n (kv_switch radix retval fl' seen' fs' ap')"
      if "length fs' \<le> length fs" for fl' seen' fs' ap'
      using less.hyps [of fs' n] less.prems that Cons by simp
    have "length (dropWhile isdigit fs) \<le> length fs" "length fs \<le> n"
      using less.prems Cons by (simp_all add: length_dropWhile_le)
    then show ?thesis
      unfolding Cons kv_switch.simps Let_def
      by (intro rest_within_if)
        (simp_all add: IH split: list.split karg.split option.split)
  qed
qed

lemma kv_switch_consumes:
  "kv_switch radix retval fl seen fmt ap = Inr (out, st, fmt', ap', b) \<Longrightarrow> length fmt' < Suc (length fmt)"
  using kv_switch_within [of fmt "length fmt" radix retval fl seen ap]
  by (simp add: rest_within_def)

text \<open>The loop over the format.  The text before the next conversion is output as it is, and
  all of the rest once \<open>stop\<close> is set.\<close>

function kv_loop ::
    "nat \<Rightarrow> bool \<Rightarrow> u8 list \<Rightarrow> kv_store list \<Rightarrow> u8 list \<Rightarrow> karg list \<Rightarrow> kv_error + (u8 list \<times> kv_store list)" where
  "kv_loop radix stop out st [] ap = Inr (out, st)"
| "kv_loop radix stop out st (ch # fmt) ap =
     (if ch \<noteq> 37 \<or> stop
      then (if ch = 0 then Inr (out, st) else kv_loop radix stop (out @ [ch]) st fmt ap)
      else (case kv_switch radix (length out) kflags0 [ch] fmt ap of
              Inl e \<Rightarrow> Inl e
            | Inr (s, st', fmt', ap', stop') \<Rightarrow> kv_loop radix stop' (out @ s) (st @ st') fmt' ap'))"
  by pat_completeness auto
termination
  by (relation "measure (\<lambda>(_, _, _, _, fmt, _). length fmt)") (auto dest: kv_switch_consumes)

definition kvprintf ::
    "u8 list option \<Rightarrow> int \<Rightarrow> karg list \<Rightarrow> kv_error + (u8 list \<times> kv_store list)" where
  "kvprintf fmt radix ap =
     (let fmt = (case fmt of None \<Rightarrow> bytes_of ''(fmt null)'' @ [10] | Some fmt \<Rightarrow> fmt);
          radix = (if radix < 2 \<or> radix > 36 then 10 else radix)
      in kv_loop (nat radix) False [] [] fmt ap)"

text \<open>What \<open>putchar\<close> passes on to \<open>tty_putc\<close>.\<close>

definition kprintf :: "u8 list \<Rightarrow> karg list \<Rightarrow> kv_error + u8 list" where
  "kprintf fmt ap = map_sum id fst (kvprintf (Some fmt) 10 ap)"

section \<open>Digits\<close>

lemma hex2ascii_value:
  assumes "d < 36"
  shows "digit_value (hex2ascii d) = Some d" "digit_value (toupper (hex2ascii d)) = Some d"
proof -
  have "\<forall>d\<in>set [0..<36]. digit_value (hex2ascii d) = Some d
      \<and> digit_value (toupper (hex2ascii d)) = Some d"
    by code_simp
  then show "digit_value (hex2ascii d) = Some d" "digit_value (toupper (hex2ascii d)) = Some d"
    using assms by simp_all
qed

lemma digits_value_snoc: "digits_value b acc (ds @ [d]) = digits_value b acc ds * b + d"
  by (induction ds arbitrary: acc) simp_all

text \<open>The digits of a number, the least significant first.\<close>

function number_digits :: "nat \<Rightarrow> nat \<Rightarrow> nat list" where
  "number_digits b n = n mod b # (if b < 2 \<or> n div b = 0 then [] else number_digits b (n div b))"
  by pat_completeness auto
termination
proof (relation "measure snd")
  fix b n :: nat
  assume "\<not> (b < 2 \<or> n div b = 0)"
  then show "((b, n div b), b, n) \<in> measure snd"
    by (cases "n = 0") simp_all
qed simp

declare number_digits.simps [simp del]

lemma number_digits_value: "1 < b \<Longrightarrow> digits_value b 0 (rev (number_digits b n)) = n"
proof (induction b n rule: number_digits.induct)
  case (1 b n)
  show ?case
  proof (cases "n div b = 0")
    case True
    then show ?thesis
      using "1.prems" by (subst number_digits.simps) (simp add: div_eq_0_iff)
  next
    case False
    then show ?thesis
      using 1 by (subst number_digits.simps) (simp add: digits_value_snoc)
  qed
qed

lemma number_digits_less: "1 < b \<Longrightarrow> d \<in> set (number_digits b n) \<Longrightarrow> d < b"
proof (induction b n rule: number_digits.induct)
  case (1 b n)
  then show ?case
    by (subst (asm) (2) number_digits.simps) (auto split: if_splits)
qed

lemma ksprintn_digits_chars:
  "1 < b \<Longrightarrow> b \<le> 36 \<Longrightarrow> list_all2 is_digit_char (ksprintn_digits n b u) (number_digits b n)"
proof (induction n b u rule: ksprintn_digits.induct)
  case (1 n b u)
  have "n mod b < 36"
    using 1 by (meson mod_less_divisor less_le_trans less_trans zero_less_one)
  then have d: "is_digit_char (if u then toupper (hex2ascii (n mod b)) else hex2ascii (n mod b)) (n mod b)"
    by (simp add: is_digit_char_def hex2ascii_value)
  have "n div b \<noteq> 0 \<Longrightarrow> list_all2 is_digit_char (ksprintn_digits (n div b) b u) (number_digits b (n div b))"
    using 1 by simp
  with d show ?case
    unfolding ksprintn_digits.simps [of n b u] number_digits.simps [of b n] Let_def
    by (simp del: if_split)
qed

lemma length_ksprintn_digits: "1 < b \<Longrightarrow> n < b ^ Suc k \<Longrightarrow> length (ksprintn_digits n b u) \<le> Suc k"
proof (induction k arbitrary: n)
  case 0
  then show ?case
    by (subst ksprintn_digits.simps) (simp add: Let_def)
next
  case (Suc k)
  have "n div b < b ^ Suc k"
    using Suc.prems by (simp add: less_mult_imp_div_less mult.commute)
  then show ?case
    using Suc by (subst ksprintn_digits.simps) (simp add: Let_def)
qed

lemma ksprintn_digits_nonempty [simp]: "ksprintn_digits n b u \<noteq> []"
  by (subst ksprintn_digits.simps) (simp add: Let_def)

section \<open>Properties\<close>

text \<open>
  C39: printing a 64-bit number in a base between 2 and 36 and converting the text back
  gives the number, in either case of letters; the text with its terminator fits the
  buffer of 65 bytes, and the length returned is its length.
\<close>

theorem ksprintn_round_trip:
  assumes "1 < base" "base \<le> 36"
  shows "strtouq (fst (ksprintn num base up)) base = (num, [])
    \<and> snd (ksprintn num base up) = int (length (fst (ksprintn num base up)))
    \<and> length (fst (ksprintn num base up)) + 1 \<le> 8 * 8 + 1"
proof -
  let ?cs = "rev (ksprintn_digits (unat num) base up)" and ?ds = "rev (number_digits base (unat num))"
  have "list_all2 is_digit_char ?cs ?ds"
    using ksprintn_digits_chars [OF assms] by simp
  moreover have "\<forall>d\<in>set ?ds. d < base"
    using number_digits_less assms by simp
  moreover have "base < 2 ^ LENGTH(64)"
    using assms(2) by simp
  moreover have "digit_value (deref []) = None"
    by code_simp
  moreover have "unat num < 2 ^ LENGTH(64)"
    by (rule unat_bound)
  ultimately have "strto_unsigned TYPE(64) (?cs @ []) base = (num, [])"
    using strto_unsigned_digits [of ?cs ?ds base "[]", where ?'a = 64] assms
    by (simp add: number_digits_value)
  moreover have "length (ksprintn_digits (unat num) base up) \<le> Suc 63"
  proof (rule length_ksprintn_digits)
    have "(2 :: nat) ^ Suc 63 \<le> base ^ Suc 63"
      using assms(1) by (intro power_mono) simp_all
    then show "unat num < base ^ Suc 63"
      using unat_bound [of num] by simp
  qed (fact assms(1))
  ultimately show ?thesis
    by (simp add: strtouq_def ksprintn_def Let_def)
qed

theorem ksprintn_round_trip_witness:
  "strtouq (fst (ksprintn 255 16 True)) 16 = (255, [])
   \<and> fst (ksprintn 255 16 True) = bytes_of ''FF''"
proof -
  have "fst (ksprintn 255 16 True) = bytes_of ''FF''"
    by code_simp
  then show ?thesis
    using ksprintn_round_trip [of 16 255 True] by simp
qed

lemma length_kv_fill:
  assumes "0 \<le> width fl" "tmp = int (length prefix + length body)"
  shows "length (kv_fill fl tmp prefix body) = max (nat (width fl)) (length prefix + length body)"
proof -
  obtain n where n: "length prefix + length body = n"
    by simp
  then show ?thesis
    using assms by (auto simp: kv_fill_def kv_pad_def)
qed

lemma kv_number_parts:
  "\<exists>prefix body. \<forall>w. kv_number (fl \<lparr> width := w \<rparr>) base num =
     kv_fill (fl \<lparr> width := w \<rparr>) (int (length prefix + length body)) prefix body"
proof -
  let ?neg = "sign fl \<and> sint num < 0"
  let ?num = "if ?neg then - num else num"
  obtain n u where nu: "(if Bflag fl then kv_human max_human_unit ?num 0 else (?num, 0)) = (n, u)"
    by fastforce
  obtain p tmp where p: "ksprintn n base (upper fl) = (p, tmp)" "tmp = int (length p)"
    by (simp add: ksprintn_def Let_def)
  let ?prefix = "(if ?neg then [45] else []) @ kv_sharp fl base n"
  let ?body = "p @ (if Bflag fl then human_units ! u else [])"
  have "int (length (kv_sharp fl base n)) = kv_sharp_len fl base n"
    by (simp add: kv_sharp_def kv_sharp_len_def)
  then have len: "int (length ?prefix + length ?body) =
      tmp + kv_sharp_len fl base n + (if ?neg then 1 else 0)
      + (if Bflag fl then int (length (human_units ! u)) else 0)"
    using p(2) by simp
  have sel: "sign (fl \<lparr> width := w \<rparr>) = sign fl" "Bflag (fl \<lparr> width := w \<rparr>) = Bflag fl"
    "upper (fl \<lparr> width := w \<rparr>) = upper fl" for w
    by simp_all
  have sharp: "kv_sharp (fl \<lparr> width := w \<rparr>) base n = kv_sharp fl base n"
    "kv_sharp_len (fl \<lparr> width := w \<rparr>) base n = kv_sharp_len fl base n" for w
    by (simp_all add: kv_sharp_def kv_sharp_len_def)
  have "kv_number (fl \<lparr> width := w \<rparr>) base num =
      kv_fill (fl \<lparr> width := w \<rparr>) (int (length ?prefix + length ?body)) ?prefix ?body" for w
    unfolding len kv_number_def sel Let_def nu case_prod_conv sharp p(1) ..
  then show ?thesis
    by blast
qed

text \<open>
  A number is printed on exactly the width that was asked for, whichever side and
  character it is padded with, unless it needs more characters, and then on those.
\<close>

theorem kv_number_width:
  assumes "0 \<le> width fl"
  shows "length (kv_number fl base num) =
    max (nat (width fl)) (length (kv_number (fl \<lparr> width := 0 \<rparr>) base num))"
proof -
  obtain prefix body where parts: "\<And>w. kv_number (fl \<lparr> width := w \<rparr>) base num =
     kv_fill (fl \<lparr> width := w \<rparr>) (int (length prefix + length body)) prefix body"
    using kv_number_parts by blast
  show ?thesis
    using parts [of "width fl"] parts [of 0] assms by (simp add: length_kv_fill)
qed

theorem kv_number_width_witness:
  "length (kv_number (kflags0 \<lparr> width := 6, padc := 48, sign := True \<rparr>) 10 (- 42)) = 6"
proof -
  have "length (kv_number (kflags0 \<lparr> width := 0, padc := 48, sign := True \<rparr>) 10 (- 42)) = 3"
    by code_simp
  then show ?thesis
    using kv_number_width [of "kflags0 \<lparr> width := 6, padc := 48, sign := True \<rparr>" 10 "- 42"]
    by (simp add: kflags0_def)
qed

text \<open>The text of an integer in base ten.\<close>

definition decimal :: "int \<Rightarrow> u8 list" where
  "decimal i = (if i < 0 then [45] else []) @ rev (ksprintn_digits (nat \<bar>i\<bar>) 10 False)"

lemma kv_loop_text:
  assumes "0 \<notin> set s" "37 \<notin> set s"
  shows "kv_loop radix stop out st (s @ fmt) ap = kv_loop radix stop (out @ s) st fmt ap"
  using assms by (induction s arbitrary: out) simp_all

lemma sint_nonneg:
  assumes "0 \<le> sint (n :: 'a::len word)"
  shows "sint n = uint n"
proof -
  have "n = word_of_int (sint n)"
    by simp
  then have "uint n = sint n mod 2 ^ LENGTH('a)"
    by (metis uint_word_of_int)
  moreover have "sint n < 2 ^ LENGTH('a)"
    using sint_lt [of n] by (meson less_le_trans power_increasing one_le_numeral diff_le_self)
  ultimately show ?thesis
    using assms by simp
qed

lemma unat_neg:
  assumes "sint (n :: u64) < 0"
  shows "unat (- n) = nat (- sint n)"
proof -
  have "- n = word_of_int (- sint n)"
    by simp
  then have "uint (- n) = (- sint n) mod 2 ^ 64"
    by (simp only: uint_word_of_int) simp
  moreover have "- (2 ^ 63) \<le> sint n"
    using sint_ge [of n] by simp
  ultimately have "uint (- n) = - sint n"
    using assms by simp
  then show ?thesis
    by (simp add: unat_eq_nat_uint)
qed

lemma kv_number_plain:
  "kv_number (kflags0 \<lparr> sign := sg \<rparr>) 10 num = decimal (if sg then sint num else uint num)"
proof -
  let ?neg = "sg \<and> sint num < 0" and ?fl = "kflags0 \<lparr> sign := sg \<rparr>"
  have sel: "sign ?fl = sg" "Bflag ?fl = False" "upper ?fl = False" "width ?fl = 0"
    and sharp: "kv_sharp ?fl 10 n = []" for n
    by (simp_all add: kflags0_def kv_sharp_def)
  have fill: "kv_fill ?fl tmp prefix body = prefix @ body" for tmp prefix body
    by (simp add: kv_fill_def kv_pad_def sel)
  have "nat \<bar>if sg then sint num else uint num\<bar> = unat (if ?neg then - num else num)"
  proof (cases "?neg")
    case True
    then show ?thesis
      by (simp add: unat_neg)
  next
    case False
    have "(if sg then sint num else uint num) = uint num"
      using False sint_nonneg [of num] by (simp add: not_less)
    moreover have "(if ?neg then - num else num) = num"
      by (rule if_not_P [OF False])
    ultimately show ?thesis
      by (simp only: abs_of_nonneg uint_nonnegative unat_eq_nat_uint)
  qed
  moreover have "(if sg then sint num else uint num) < 0 \<longleftrightarrow> ?neg"
    by simp
  ultimately show ?thesis
    unfolding kv_number_def sel sharp fill if_False Let_def case_prod_conv ksprintn_def decimal_def
    by simp
qed

text \<open>A format in pieces, each with its text, its arguments and what it prints.\<close>

datatype piece = Txt "u8 list" | PctD u32 | PctU u32 | PctS "u8 list option" | PctC u32 | PctPct

fun piece_ok :: "piece \<Rightarrow> bool" where
  "piece_ok (Txt s) \<longleftrightarrow> 0 \<notin> set s \<and> 37 \<notin> set s"
| "piece_ok _ \<longleftrightarrow> True"

fun piece_fmt :: "piece \<Rightarrow> u8 list" where
  "piece_fmt (Txt s) = s"
| "piece_fmt (PctD _) = [37, 100]"
| "piece_fmt (PctU _) = [37, 117]"
| "piece_fmt (PctS _) = [37, 115]"
| "piece_fmt (PctC _) = [37, 99]"
| "piece_fmt PctPct = [37, 37]"

fun piece_args :: "piece \<Rightarrow> karg list" where
  "piece_args (PctD i) = [AInt i]"
| "piece_args (PctU i) = [AInt i]"
| "piece_args (PctS s) = [AStr s]"
| "piece_args (PctC i) = [AInt i]"
| "piece_args _ = []"

fun piece_out :: "piece \<Rightarrow> u8 list" where
  "piece_out (Txt s) = s"
| "piece_out (PctD i) = decimal (sint i)"
| "piece_out (PctU i) = decimal (uint i)"
| "piece_out (PctS s) = (case s of None \<Rightarrow> bytes_of ''(null)'' | Some s \<Rightarrow> s)"
| "piece_out (PctC i) = [ucast i]"
| "piece_out PctPct = [37]"

lemma kv_loop_piece:
  assumes "piece_ok p"
  shows "kv_loop radix False out st (piece_fmt p @ fmt) (piece_args p @ ap) =
    kv_loop radix False (out @ piece_out p) st fmt ap"
proof -
  have fetch: "handle_nosign kflags0 (AInt i # ap) = Some (ucast i, ap)"
    "handle_sign (kflags0 \<lparr> sign := True \<rparr>) (AInt i # ap) = Some (scast i, ap)" for i
    by (simp_all add: handle_nosign_def handle_sign_def kflags0_def)
  have nums: "kv_number (kflags0 \<lparr> sign := True \<rparr>) 10 (scast (i :: u32)) = decimal (sint i)"
    "kv_number (kflags0 \<lparr> sign := False \<rparr>) 10 (ucast (i :: u32)) = decimal (uint i)" for i
    by (simp_all add: kv_number_plain sint_up_scast is_up uint_up_ucast)
  have str: "kv_string kflags0 s = (case s of None \<Rightarrow> bytes_of ''(null)'' | Some s \<Rightarrow> s)" for s
    by (simp add: kv_string_def kflags0_def Let_def)
  show ?thesis
    using assms
    by (cases p)
      (simp_all add: kv_loop_text kv_switch.simps isdigit_def kv_sign_def kv_nosign_def kv_num_def
        kv_emit_def fetch nums str)
qed

text \<open>
  C38: a format made of text and of the conversions \<open>%d\<close>, \<open>%u\<close>, \<open>%s\<close>, \<open>%c\<close> and \<open>%%\<close> is printed
  as the text with the arguments in their places: the integers in decimal, the strings
  copied, a null string as such, the characters as they are.
\<close>

theorem kvprintf_prints:
  assumes "\<forall>p\<in>set ps. piece_ok p"
  shows "kvprintf (Some (concat (map piece_fmt ps))) 10 (concat (map piece_args ps)) =
    Inr (concat (map piece_out ps), [])"
proof -
  have "kv_loop 10 False out [] (concat (map piece_fmt ps)) (concat (map piece_args ps)) =
      Inr (out @ concat (map piece_out ps), [])" for out
    using assms by (induction ps arbitrary: out) (simp_all add: kv_loop_piece)
  then show ?thesis
    by (simp add: kvprintf_def)
qed

theorem kvprintf_prints_witness:
  "kvprintf (Some (bytes_of ''x=%d%%'')) 10 [AInt (- 7)] = Inr (bytes_of ''x=-7%'', [])"
proof -
  have "bytes_of ''x=%d%%'' = concat (map piece_fmt [Txt (bytes_of ''x=''), PctD (- 7), PctPct])"
    "bytes_of ''x=-7%'' = concat (map piece_out [Txt (bytes_of ''x=''), PctD (- 7), PctPct])"
    by code_simp+
  moreover have "\<forall>p\<in>set [Txt (bytes_of ''x=''), PctD (- 7), PctPct]. piece_ok p"
    by code_simp
  ultimately show ?thesis
    using kvprintf_prints [of "[Txt (bytes_of ''x=''), PctD (- 7), PctPct]"] by simp
qed

end
