(* ===== verification/Paging.thy ===== *)
theory Paging
  imports MemUtils
begin

text \<open>
  ia32/paging.c and arch/paging.h: the two-level page tables.  Page directories
  and page tables are objects of the store, found by their virtual address; an
  entry pointer is the address of the table with the index.  The address that
  \<open>KERNEL_VMA\<close> stands for is a symbol of the linker script and a parameter.
  The operations that copy tables need the memory managers and are in VmSpace.
\<close>

section \<open>Definitions\<close>

definition PDT_ENTRIES :: nat where "PDT_ENTRIES = 1024"
definition PDT_KERNEL_START :: nat where "PDT_KERNEL_START = 768"

definition I86_PDE_PRESENT :: u32 where "I86_PDE_PRESENT = 1"
definition I86_PDE_WRITABLE :: u32 where "I86_PDE_WRITABLE = 2"
definition I86_PDE_USER :: u32 where "I86_PDE_USER = 4"
definition I86_PDE_4MB :: u32 where "I86_PDE_4MB = 0x80"
definition I86_PDE_FRAME :: u32 where "I86_PDE_FRAME = 0xFFFFF000"
definition I86_PTE_PRESENT :: u32 where "I86_PTE_PRESENT = 1"
definition I86_PTE_WRITABLE :: u32 where "I86_PTE_WRITABLE = 2"
definition I86_PTE_USER :: u32 where "I86_PTE_USER = 4"
definition I86_PTE_FRAME :: u32 where "I86_PTE_FRAME = 0xFFFFF000"

lemmas paging_flags = I86_PDE_PRESENT_def I86_PDE_WRITABLE_def I86_PDE_USER_def I86_PDE_4MB_def
  I86_PDE_FRAME_def I86_PTE_PRESENT_def I86_PTE_WRITABLE_def I86_PTE_USER_def I86_PTE_FRAME_def

record paging =
  pdirs :: "u32 \<Rightarrow> nat \<Rightarrow> u32"
  ptabs :: "u32 \<Rightarrow> nat \<Rightarrow> u32"
  kernel_layout :: layout
  kernel_page_dir :: u32
  current_page_dir :: u32
  cr0 :: u32
  cr3 :: u32
  cr3_loads :: nat

definition paging_pd_current :: "paging \<Rightarrow> u32" where
  "paging_pd_current st = current_page_dir st"

definition paging_set_attr :: "u32 \<Rightarrow> u32 \<Rightarrow> u32" where
  "paging_set_attr e attr = e OR attr"

definition paging_clear_attr :: "u32 \<Rightarrow> u32 \<Rightarrow> u32" where
  "paging_clear_attr e attr = e AND NOT attr"

definition paging_pd_entry_invl :: "u32 \<Rightarrow> u32" where
  "paging_pd_entry_invl e = paging_clear_attr e I86_PDE_PRESENT"

definition paging_pd_entry_zero :: "u32 \<Rightarrow> u32" where
  "paging_pd_entry_zero e = 0"

definition paging_pd_entry_present :: "u32 \<Rightarrow> u32" where
  "paging_pd_entry_present e = paging_set_attr e I86_PDE_PRESENT"

definition paging_pd_entry_is_present :: "u32 \<Rightarrow> bool" where
  "paging_pd_entry_is_present e \<longleftrightarrow> e AND I86_PDE_PRESENT \<noteq> 0"

definition paging_pd_entry_writable :: "u32 \<Rightarrow> u32" where
  "paging_pd_entry_writable e = paging_set_attr e I86_PDE_WRITABLE"

definition paging_pd_entry_set_flags :: "u32 \<Rightarrow> u32 \<Rightarrow> u32 \<Rightarrow> u32" where
  "paging_pd_entry_set_flags e flags keep =
     (let flags_and_frame_mask = keep OR I86_PDE_FRAME in (e AND flags_and_frame_mask) OR flags)"

definition paging_pd_entry_set_frame :: "u32 \<Rightarrow> u32 \<Rightarrow> u32 kres" where
  "paging_pd_entry_set_frame e frame =
     (if frame AND NOT I86_PDE_FRAME \<noteq> 0 then Inl (Panic ''frame not page aligned'')
      else Inr ((e AND NOT I86_PDE_FRAME) OR frame))"

definition paging_pd_entry_get_frame :: "u32 \<Rightarrow> u32" where
  "paging_pd_entry_get_frame e = e AND I86_PDE_FRAME"

definition paging_pd_entry_id_for_addr :: "u32 \<Rightarrow> u32" where
  "paging_pd_entry_id_for_addr addr = addr div PAGE_SIZE div PT_ENTRIES"

definition paging_pd_entry_for_addr :: "u32 \<Rightarrow> u32 \<Rightarrow> u32 \<times> nat" where
  "paging_pd_entry_for_addr ptd addr = (ptd, unat (paging_pd_entry_id_for_addr addr))"

definition paging_pt_entry_id_for_addr :: "u32 \<Rightarrow> u32 kres" where
  "paging_pt_entry_id_for_addr addr =
     (let pt_mask = PAGE_SIZE * PT_ENTRIES - 1;
          i = (addr AND pt_mask) div PAGE_SIZE
      in kbind (kassert (i < PT_ENTRIES) ''id < PT_ENTRIES'') (\<lambda>_. Inr i))"

definition paging_pt_entry_for_addr :: "u32 \<Rightarrow> u32 \<Rightarrow> (u32 \<times> nat) kres" where
  "paging_pt_entry_for_addr pt addr =
     kbind (paging_pt_entry_id_for_addr addr) (\<lambda>i. Inr (pt, unat i))"

definition load_pde :: "paging \<Rightarrow> u32 \<times> nat \<Rightarrow> u32" where
  "load_pde st pde = pdirs st (fst pde) (snd pde)"

definition store_pde :: "u32 \<times> nat \<Rightarrow> u32 \<Rightarrow> paging \<Rightarrow> paging" where
  "store_pde pde e st =
     st \<lparr> pdirs := (pdirs st)(fst pde := (pdirs st (fst pde))(snd pde := e)) \<rparr>"

definition store_pt :: "u32 \<Rightarrow> (nat \<Rightarrow> u32) \<Rightarrow> paging \<Rightarrow> paging" where
  "store_pt pt es st = st \<lparr> ptabs := (ptabs st)(pt := es) \<rparr>"

definition paging_pd_install_pt :: "u32 \<Rightarrow> u32 \<times> nat \<Rightarrow> u32 \<Rightarrow> u32 \<Rightarrow> paging \<Rightarrow> paging kres" where
  "paging_pd_install_pt vma pde pt flags st =
     kbind (paging_pd_entry_set_frame (load_pde st pde) (pt - vma)) (\<lambda>e.
       Inr (store_pde pde (paging_pd_entry_set_flags e flags 0) st))"

text \<open>The null pointer is \<open>None\<close>.\<close>

definition paging_pt_for_pd_entry :: "u32 \<Rightarrow> u32 \<Rightarrow> u32 option" where
  "paging_pt_for_pd_entry vma e =
     (let frame = paging_pd_entry_get_frame e in if frame \<noteq> 0 then Some (frame + vma) else None)"

text \<open>The loops over the entries from \<open>i\<close>, \<open>n\<close> of them.\<close>

fun pt_fill :: "(nat \<Rightarrow> u32) \<Rightarrow> nat \<Rightarrow> nat \<Rightarrow> u32 \<Rightarrow> u32 \<Rightarrow> nat \<Rightarrow> u32" where
  "pt_fill es i 0 addr flags = es"
| "pt_fill es i (Suc n) addr flags =
     pt_fill (es(i := addr OR flags)) (Suc i) n (addr + PAGE_SIZE) flags"

fun pt_clear :: "(nat \<Rightarrow> u32) \<Rightarrow> nat \<Rightarrow> nat \<Rightarrow> nat \<Rightarrow> u32" where
  "pt_clear es i 0 = es"
| "pt_clear es i (Suc n) = pt_clear (es(i := 0)) (Suc i) n"

definition paging_pt_map ::
    "u32 \<Rightarrow> u32 \<Rightarrow> u32 \<Rightarrow> u32 \<Rightarrow> u32 \<Rightarrow> paging \<Rightarrow> (u32 \<times> paging) kres" where
  "paging_pt_map pt vaddr base_addr pages flags st =
     kbind (paging_pt_entry_id_for_addr vaddr) (\<lambda>pt_id.
       let pt_end_id = pt_id + pages;
           (actual_pages, pt_end_id) =
             (if pt_end_id > PT_ENTRIES then (pages - (pt_end_id - PT_ENTRIES), PT_ENTRIES)
              else (pages, pt_end_id))
       in Inr (actual_pages,
               store_pt pt (pt_fill (ptabs st pt) (unat pt_id) (unat pt_end_id - unat pt_id)
                              base_addr flags) st))"

definition paging_pt_unmap :: "u32 \<Rightarrow> u32 \<Rightarrow> u32 \<Rightarrow> paging \<Rightarrow> paging kres" where
  "paging_pt_unmap pt vaddr pages st =
     kbind (paging_pt_entry_id_for_addr vaddr) (\<lambda>pt_id.
       let pt_end_id = pt_id + pages in
       kbind (kassert (pt_end_id \<le> PT_ENTRIES) ''pt_end_id <= PT_ENTRIES'') (\<lambda>_.
         Inr (store_pt pt (pt_clear (ptabs st pt) (unat pt_id) (unat pt_end_id - unat pt_id)) st)))"

definition kalloc_static_page :: "paging \<Rightarrow> (u32 \<times> paging) kres" where
  "kalloc_static_page st =
     kbind (kalloc_static (kernel_layout st) 4096 PAGE_SIZE) (\<lambda>(a, l).
       Inr (a, st \<lparr> kernel_layout := l \<rparr>))"

definition paging_alloc_static_pt :: "paging \<Rightarrow> (u32 \<times> paging) kres" where
  "paging_alloc_static_pt st =
     kbind (kalloc_static_page st) (\<lambda>(pt, st). Inr (pt, store_pt pt (\<lambda>_. 0) st))"

definition paging_new_pt_map :: "u32 \<Rightarrow> u32 \<Rightarrow> u32 \<Rightarrow> u32 \<Rightarrow> paging \<Rightarrow> (u32 \<times> paging) kres" where
  "paging_new_pt_map vaddr base_addr pages flags st =
     kbind (kalloc_static_page st) (\<lambda>(pt, st).
       if pt \<noteq> 0
       then kbind (paging_pt_map pt vaddr base_addr pages flags st) (\<lambda>(_, st). Inr (pt, st))
       else Inr (pt, st))"

section \<open>Mapping and unmapping ranges\<close>

text \<open>The page table of a directory entry, installed when there is none.\<close>

definition map_page_table :: "u32 \<Rightarrow> u32 \<times> nat \<Rightarrow> paging \<Rightarrow> (u32 \<times> paging) kres" where
  "map_page_table vma pde st =
     (case paging_pt_for_pd_entry vma (load_pde st pde) of
        None \<Rightarrow>
          kbind (paging_alloc_static_pt st) (\<lambda>(pt, st).
            if pt = 0 then Inl (Panic ''couldn't alloc page table'')
            else kbind (paging_pd_install_pt vma pde pt
                          (I86_PDE_PRESENT OR I86_PDE_WRITABLE OR I86_PDE_USER) st) (\<lambda>st.
                   Inr (pt, st)))
      | Some pt \<Rightarrow>
          if \<not> paging_pd_entry_is_present (load_pde st pde)
          then Inl (Panic ''paging pd entry is not present'')
          else Inr (pt, st))"

text \<open>
  The loop of \<open>paging_map\<close>.  Neither \<open>vaddr\<close> nor \<open>base_addr\<close> changes from one turn to
  the next: only the local \<open>addr\<close> is advanced, which nothing reads.
\<close>

partial_function (option) paging_map_loop ::
    "u32 \<Rightarrow> u32 \<Rightarrow> u32 \<Rightarrow> u32 \<Rightarrow> u32 \<Rightarrow> u32 \<Rightarrow> u32 \<Rightarrow> paging \<Rightarrow> paging kres option" where
  "paging_map_loop vma ptd base_addr vaddr flags sz pages st =
     (if sz = 0 then Some (Inr st)
      else (case map_page_table vma (paging_pd_entry_for_addr ptd vaddr) st of
              Inl e \<Rightarrow> Some (Inl e)
            | Inr (pt, st) \<Rightarrow>
                (case paging_pt_entry_id_for_addr vaddr of
                   Inl e \<Rightarrow> Some (Inl e)
                 | Inr pt_id \<Rightarrow>
                     let cur_pages = min pages (PT_ENTRIES - pt_id) in
                     (case paging_pt_map pt vaddr base_addr cur_pages flags st of
                        Inl e \<Rightarrow> Some (Inl e)
                      | Inr (_, st) \<Rightarrow>
                          paging_map_loop vma ptd base_addr vaddr flags
                            (sz - cur_pages * PAGE_SIZE) (pages - cur_pages) st))))"

definition paging_map ::
    "u32 \<Rightarrow> u32 \<Rightarrow> u32 \<Rightarrow> u32 \<Rightarrow> u32 \<Rightarrow> u32 \<Rightarrow> paging \<Rightarrow> paging kres option" where
  "paging_map vma ptd base_addr sz vaddr flags st =
     (case kbind (kassert (align_address vaddr PAGE_SIZE = vaddr) ''align_address(vaddr, PAGE_SIZE) == vaddr'')
             (\<lambda>_. kassert (align_address sz PAGE_SIZE = sz) ''align_address(size, PAGE_SIZE) == size'') of
        Inl e \<Rightarrow> Some (Inl e)
      | Inr _ \<Rightarrow> paging_map_loop vma ptd base_addr vaddr flags sz (sz div PAGE_SIZE) st)"

definition paging_identity_map ::
    "u32 \<Rightarrow> u32 \<Rightarrow> u32 \<Rightarrow> u32 \<Rightarrow> u32 \<Rightarrow> paging \<Rightarrow> paging kres option" where
  "paging_identity_map vma ptd base_addr sz flags st = paging_map vma ptd base_addr sz base_addr flags st"

partial_function (option) paging_unmap_loop ::
    "u32 \<Rightarrow> u32 \<Rightarrow> u32 \<Rightarrow> u32 \<Rightarrow> u32 \<Rightarrow> paging \<Rightarrow> paging kres option" where
  "paging_unmap_loop vma ptd vaddr sz pages st =
     (if pages = 0 then Some (kbind (kassert (sz = 0) ''size == 0'') (\<lambda>_. Inr st))
      else
        let pde = paging_pd_entry_for_addr ptd vaddr in
        (case paging_pt_for_pd_entry vma (load_pde st pde) of
           None \<Rightarrow> Some (Inl (Panic ''page table not installed. can't unmap''))
         | Some pt \<Rightarrow>
             if \<not> paging_pd_entry_is_present (load_pde st pde)
             then Some (Inl (Panic ''paging pd entry is not present''))
             else
               (case paging_pt_entry_id_for_addr vaddr of
                  Inl e \<Rightarrow> Some (Inl e)
                | Inr pt_id \<Rightarrow>
                    let cur_pages = min pages (PT_ENTRIES - pt_id);
                        incr = cur_pages * PAGE_SIZE in
                    (case paging_pt_unmap pt vaddr cur_pages st of
                       Inl e \<Rightarrow> Some (Inl e)
                     | Inr st \<Rightarrow>
                         paging_unmap_loop vma ptd (vaddr + incr) (sz - incr) (pages - cur_pages) st))))"

definition paging_unmap :: "u32 \<Rightarrow> u32 \<Rightarrow> u32 \<Rightarrow> u32 \<Rightarrow> paging \<Rightarrow> paging kres option" where
  "paging_unmap vma ptd vaddr sz st =
     (case kbind (kassert (align_address vaddr PAGE_SIZE = vaddr) ''align_address(vaddr, PAGE_SIZE) == vaddr'')
             (\<lambda>_. kassert (align_address sz PAGE_SIZE = sz) ''align_address(size, PAGE_SIZE) == size'') of
        Inl e \<Rightarrow> Some (Inl e)
      | Inr _ \<Rightarrow> paging_unmap_loop vma ptd vaddr sz (sz div PAGE_SIZE) st)"

section \<open>Start-up\<close>

text \<open>The control registers, as far as the code writes them.\<close>

definition paging_load_page_dir :: "u32 \<Rightarrow> u32 \<Rightarrow> paging \<Rightarrow> paging" where
  "paging_load_page_dir vma pd st =
     st \<lparr> current_page_dir := pd, cr3 := pd - vma, cr3_loads := Suc (cr3_loads st) \<rparr>"

definition paging_enable :: "paging \<Rightarrow> paging" where
  "paging_enable st = st \<lparr> cr0 := cr0 st OR 0x80000000 \<rparr>"

definition paging_flush :: "paging \<Rightarrow> paging" where
  "paging_flush st = st \<lparr> cr3_loads := Suc (cr3_loads st) \<rparr>"

text \<open>The directory given is not used: the kernel's own is cleared.\<close>

definition paging_pd_init :: "u32 \<Rightarrow> paging \<Rightarrow> paging" where
  "paging_pd_init pd st =
     st \<lparr> pdirs := (pdirs st)(kernel_page_dir st :=
             (\<lambda>i. if i < PDT_ENTRIES then paging_pd_entry_zero (pdirs st (kernel_page_dir st) i)
                  else pdirs st (kernel_page_dir st) i)) \<rparr>"

definition paging_init_kernel_page_dir :: "paging \<Rightarrow> paging kres" where
  "paging_init_kernel_page_dir st =
     kbind (kalloc_static_page st) (\<lambda>(pd, st).
       Inr (paging_pd_init pd (st \<lparr> kernel_page_dir := pd \<rparr>)))"

definition paging_map_kernel :: "u32 \<Rightarrow> u32 \<Rightarrow> paging \<Rightarrow> paging kres option" where
  "paging_map_kernel vma ptd st =
     (let start = align_address_down (segment_start (kernel_layout st)) (PT_ENTRIES * PAGE_SIZE);
          sz = memory_end (kernel_layout st) - start
      in paging_map vma ptd 0 sz start (I86_PTE_PRESENT OR I86_PTE_WRITABLE OR I86_PTE_USER) st)"

definition paging_init :: "u32 \<Rightarrow> paging \<Rightarrow> paging kres option" where
  "paging_init vma st =
     (case paging_init_kernel_page_dir st of
        Inl e \<Rightarrow> Some (Inl e)
      | Inr st \<Rightarrow>
          (case paging_identity_map vma (kernel_page_dir st) 0 (PT_ENTRIES * PAGE_SIZE)
                  (I86_PTE_PRESENT OR I86_PTE_WRITABLE OR I86_PTE_USER) st of
             None \<Rightarrow> None
           | Some (Inl e) \<Rightarrow> Some (Inl e)
           | Some (Inr st) \<Rightarrow>
               (case paging_map_kernel vma (kernel_page_dir st) st of
                  None \<Rightarrow> None
                | Some (Inl e) \<Rightarrow> Some (Inl e)
                | Some (Inr st) \<Rightarrow>
                    Some (Inr (paging_enable (paging_load_page_dir vma (kernel_page_dir st) st))))))"

definition paging_cleanup_bootstrap :: "u32 \<Rightarrow> paging \<Rightarrow> paging kres option" where
  "paging_cleanup_bootstrap vma st = paging_unmap vma (kernel_page_dir st) 0 (PT_ENTRIES * PAGE_SIZE) st"

section \<open>Indices and entries\<close>

text \<open>The indices of an address in the directory and in its page table, as the processor takes them.\<close>

definition pd_index :: "u32 \<Rightarrow> nat" where
  "pd_index a = unat a div 2 ^ 22"

definition pt_index :: "u32 \<Rightarrow> nat" where
  "pt_index a = unat a div 2 ^ 12 mod 2 ^ 10"

lemma pt_index_less: "pt_index a < 1024"
  by (simp add: pt_index_def)

lemma pt_entry_id [simp]: "paging_pt_entry_id_for_addr a = Inr (of_nat (pt_index a))"
proof -
  have m: "PAGE_SIZE * PT_ENTRIES - 1 = (mask 22 :: u32)"
    by (simp add: PAGE_SIZE_def PT_ENTRIES_def mask_eq_exp_minus_1)
  have "unat ((a AND mask 22) div PAGE_SIZE) = unat a mod 2 ^ 22 div 2 ^ 12"
    by (simp add: unat_div unat_and_mask PAGE_SIZE_def)
  also have "\<dots> = pt_index a"
    using mod_mult2_eq [of "unat a" "2 ^ 12" "2 ^ 10"] by (simp add: pt_index_def)
  finally have u: "unat ((a AND mask 22) div PAGE_SIZE) = pt_index a" .
  then have "(a AND mask 22) div PAGE_SIZE = of_nat (pt_index a)"
    by (metis ucast_id unsigned_of_nat word_unat_eq_iff of_nat_unat)
  moreover have "(a AND mask 22) div PAGE_SIZE < PT_ENTRIES"
    using u pt_index_less [of a] by (simp add: word_less_nat_alt PT_ENTRIES_def)
  ultimately show ?thesis
    by (simp add: paging_pt_entry_id_for_addr_def m)
qed

lemma pd_entry_for_addr [simp]: "paging_pd_entry_for_addr ptd a = (ptd, pd_index a)"
  by (simp add: paging_pd_entry_for_addr_def paging_pd_entry_id_for_addr_def pd_index_def unat_div
      PAGE_SIZE_def PT_ENTRIES_def div_mult2_eq [symmetric])

lemma pt_fill_apply:
  "pt_fill es i n addr flags j =
     (if i \<le> j \<and> j < i + n then (addr + of_nat (j - i) * PAGE_SIZE) OR flags else es j)"
proof (induction n arbitrary: es i addr)
  case (Suc n)
  show ?case
  proof (cases "i < j \<and> j < Suc (i + n)")
    case True
    then have "j - i = Suc (j - Suc i)"
      by linarith
    then have "of_nat (j - i) = (1 + of_nat (j - Suc i) :: u32)"
      by (simp only: of_nat_Suc)
    then show ?thesis
      using True by (simp add: Suc.IH algebra_simps)
  next
    case False
    then show ?thesis
      by (auto simp: Suc.IH)
  qed
qed auto

lemma pt_clear_apply: "pt_clear es i n j = (if i \<le> j \<and> j < i + n then 0 else es j)"
  by (induction n arbitrary: es i) auto

lemma page_aligned_iff: "align_address a PAGE_SIZE = a \<longleftrightarrow> 2 ^ 12 dvd unat a"
proof -
  have "PAGE_SIZE = 2 ^ 12"
    by (simp add: PAGE_SIZE_def)
  moreover have "align_address a (2 ^ 12) = a \<longleftrightarrow> 2 ^ 12 dvd unat a"
  proof
    assume "align_address a (2 ^ 12) = a"
    moreover have "2 ^ 12 dvd unat (align_address a (2 ^ 12))"
      unfolding align_address_def exp_minus_one_mask unat_and_not_mask by (rule dvd_minus_mod)
    ultimately show "2 ^ 12 dvd unat a"
      by simp
  next
    assume dvd: "2 ^ 12 dvd unat a"
    then obtain k where "unat a = 2 ^ 12 * k"
      by blast
    then have le: "unat a + 2 ^ 12 \<le> 2 ^ 32"
      using unat_u32_less [of a] by simp
    have "unat (align_address a (2 ^ 12)) = unat a"
      using align_address_bounds [OF _ le] dvd aligned_unique [of "2 ^ 12" _ "unat a" "unat a"] by simp
    then show "align_address a (2 ^ 12) = a"
      by (rule unsigned_word_eqI)
  qed
  ultimately show ?thesis
    by simp
qed

section \<open>The tables of an entry\<close>

lemma frame_bits:
  assumes "f AND NOT I86_PDE_FRAME = 0" "fl AND I86_PDE_FRAME = 0"
  shows "(((e AND NOT I86_PDE_FRAME) OR f) AND (0 OR I86_PDE_FRAME) OR fl) AND I86_PDE_FRAME = f"
proof (rule bit_word_eqI)
  fix n
  assume "n < LENGTH(32)"
  have "bit (f AND NOT I86_PDE_FRAME) n = False" "bit (fl AND I86_PDE_FRAME) n = False"
    using assms by simp_all
  then show "bit ((((e AND NOT I86_PDE_FRAME) OR f) AND (0 OR I86_PDE_FRAME) OR fl) AND I86_PDE_FRAME) n = bit f n"
    using \<open>n < LENGTH(32)\<close> by (auto simp: bit_simps)
qed

lemma or_7_present: "(x OR 7) AND 1 \<noteq> (0 :: u32)"
proof -
  have "bit ((x OR 7) AND 1 :: u32) 0"
    by (simp add: bit_simps)
  then show ?thesis
    by auto
qed

text \<open>An entry that leads to the page table \<open>pt\<close>.\<close>

definition leads_to :: "u32 \<Rightarrow> u32 \<Rightarrow> u32 \<Rightarrow> bool" where
  "leads_to vma e pt \<longleftrightarrow> paging_pt_for_pd_entry vma e = Some pt \<and> paging_pd_entry_is_present e"

lemma map_page_table_leads:
  assumes "map_page_table vma (ptd, i) st = Inr (pt, st')" "pt \<noteq> vma"
  shows "leads_to vma (pdirs st' ptd i) pt"
    and "\<And>p j. (p, j) \<noteq> (ptd, i) \<Longrightarrow> pdirs st' p j = pdirs st p j"
    and "\<And>t. t \<noteq> pt \<Longrightarrow> ptabs st' t = ptabs st t"
proof -
  have "leads_to vma (pdirs st' ptd i) pt \<and> (\<forall>p j. (p, j) \<noteq> (ptd, i) \<longrightarrow> pdirs st' p j = pdirs st p j)
    \<and> (\<forall>t. t \<noteq> pt \<longrightarrow> ptabs st' t = ptabs st t)"
  proof (cases "paging_pt_for_pd_entry vma (load_pde st (ptd, i))")
    case (Some pt')
    then show ?thesis
      using assms by (auto simp: map_page_table_def leads_to_def load_pde_def split: if_splits)
  next
    case None
    then obtain l where a: "kalloc_static (kernel_layout st) 4096 PAGE_SIZE = Inr (pt, l)"
      and i: "paging_pd_install_pt vma (ptd, i) pt 7
        (store_pt pt (\<lambda>_. 0) (st \<lparr> kernel_layout := l \<rparr>)) = Inr st'"
      using assms(1)
      by (auto simp: map_page_table_def paging_alloc_static_pt_def kalloc_static_page_def
          paging_flags kbind_eq_Inr split: if_splits)
    let ?e = "load_pde (store_pt pt (\<lambda>_. 0) (st \<lparr> kernel_layout := l \<rparr>)) (ptd, i)"
    have f: "(pt - vma) AND NOT I86_PDE_FRAME = 0"
      and st': "st' = store_pde (ptd, i) (((?e AND NOT I86_PDE_FRAME) OR (pt - vma)) AND (0 OR I86_PDE_FRAME) OR 7)
        (store_pt pt (\<lambda>_. 0) (st \<lparr> kernel_layout := l \<rparr>))"
      using i by (auto simp: paging_pd_install_pt_def paging_pd_entry_set_frame_def
          paging_pd_entry_set_flags_def Let_def split: if_splits)
    have "(7 :: u32) AND I86_PDE_FRAME = 0" "pt - vma \<noteq> 0"
      using assms(2) by (simp_all add: I86_PDE_FRAME_def)
    then have "leads_to vma (pdirs st' ptd i) pt"
      using frame_bits [OF f, of 7 ?e]
      by (simp add: st' store_pde_def leads_to_def paging_pt_for_pd_entry_def paging_pd_entry_get_frame_def
          paging_pd_entry_is_present_def I86_PDE_PRESENT_def or_7_present)
    then show ?thesis
      by (auto simp: st' store_pde_def store_pt_def)
  qed
  then show "leads_to vma (pdirs st' ptd i) pt"
    and "\<And>p j. (p, j) \<noteq> (ptd, i) \<Longrightarrow> pdirs st' p j = pdirs st p j"
    and "\<And>t. t \<noteq> pt \<Longrightarrow> ptabs st' t = ptabs st t"
    by blast+
qed

lemma map_page_table_again:
  "leads_to vma (pdirs st ptd i) pt \<Longrightarrow> map_page_table vma (ptd, i) st = Inr (pt, st)"
  by (simp add: map_page_table_def leads_to_def load_pde_def)

section \<open>The loops\<close>

lemma unat_pt_index: "unat (of_nat (pt_index a) :: u32) = pt_index a"
  using pt_index_less [of a] by simp

lemma unat_cur_pages:
  "unat (min pages (PT_ENTRIES - of_nat (pt_index a))) = min (unat pages) (1024 - pt_index a)"
proof -
  have "unat (PT_ENTRIES - of_nat (pt_index a)) = 1024 - pt_index a"
    using pt_index_less [of a] by (subst unat_diff_le) (simp_all add: PT_ENTRIES_def)
  then show ?thesis
    by (simp add: min_def word_le_nat_alt)
qed

lemma pt_end_id:
  assumes "pt_index a + unat pages \<le> 1024"
  shows "unat (of_nat (pt_index a) + pages) = pt_index a + unat pages"
    "of_nat (pt_index a) + pages \<le> PT_ENTRIES"
proof -
  show u: "unat (of_nat (pt_index a) + pages) = pt_index a + unat pages"
    using assms by (subst unat_add_small) (simp_all add: unat_pt_index)
  show "of_nat (pt_index a) + pages \<le> PT_ENTRIES"
    using assms u by (simp add: word_le_nat_alt PT_ENTRIES_def)
qed

lemma pt_map_within:
  assumes "pt_index a + unat pages \<le> 1024"
  shows "paging_pt_map pt a base pages flags st =
    Inr (pages, store_pt pt (pt_fill (ptabs st pt) (pt_index a) (unat pages) base flags) st)"
  using pt_end_id [OF assms] by (simp add: paging_pt_map_def unat_pt_index Let_def leD)

lemma pt_unmap_within:
  assumes "pt_index a + unat pages \<le> 1024"
  shows "paging_pt_unmap pt a pages st =
    Inr (store_pt pt (pt_clear (ptabs st pt) (pt_index a) (unat pages)) st)"
  using pt_end_id [OF assms] by (simp add: paging_pt_unmap_def unat_pt_index Let_def)

text \<open>A size of \<open>pages\<close> pages, less some of them.\<close>

lemma size_minus_pages:
  assumes "unat sz = unat pages * 4096" "unat c \<le> unat pages"
  shows "unat (sz - c * PAGE_SIZE) = unat (pages - c) * 4096" "unat (c * PAGE_SIZE) = unat c * 4096"
proof -
  have "unat c * 4096 \<le> unat sz"
    using assms by simp
  then have "unat c * 4096 < 4294967296"
    using unat_u32_less [of sz] by (rule le_less_trans)
  then show u: "unat (c * PAGE_SIZE) = unat c * 4096"
    by (simp add: PAGE_SIZE_def unat_word_ariths)
  show "unat (sz - c * PAGE_SIZE) = unat (pages - c) * 4096"
    using assms \<open>unat c * 4096 \<le> unat sz\<close> by (simp add: unat_diff_le u diff_mult_distrib)
qed

lemma store_pt_simps [simp]:
  "pdirs (store_pt pt es st) = pdirs st"
  "ptabs (store_pt pt es st) pt = es"
  "store_pt pt es (store_pt pt es' st) = store_pt pt es st"
  by (simp_all add: store_pt_def)

lemma pt_fill_twice:
  "m \<le> n \<Longrightarrow> pt_fill (pt_fill es i n base flags) i m base flags = pt_fill es i n base flags"
  by (rule ext) (auto simp: pt_fill_apply)

lemma paging_map_loop_ends:
  assumes "leads_to vma (pdirs st ptd (pd_index a)) pt" "unat sz = unat pages * 4096" "pages \<noteq> 0"
  shows "paging_map_loop vma ptd base a flags sz pages st =
    Some (Inr (store_pt pt (pt_fill (ptabs st pt) (pt_index a) (min (unat pages) (1024 - pt_index a)) base flags) st))"
  using assms
proof (induction "unat pages" arbitrary: sz pages st rule: less_induct)
  case less
  let ?c = "min pages (PT_ENTRIES - of_nat (pt_index a))"
  let ?n = "min (unat pages) (1024 - pt_index a)"
  let ?st = "store_pt pt (pt_fill (ptabs st pt) (pt_index a) ?n base flags) st"
  have c: "unat ?c = ?n" "unat ?c \<le> unat pages"
    by (simp_all add: unat_cur_pages)
  have "0 < unat pages"
    using less.prems(3) by (simp add: unat_gt_0)
  then have pos: "0 < unat ?c" "sz \<noteq> 0"
    using c(1) pt_index_less [of a] less.prems(2) by auto
  have sz': "unat (sz - ?c * PAGE_SIZE) = unat (pages - ?c) * 4096"
    using size_minus_pages [OF less.prems(2) c(2)] by simp
  have "pt_index a + unat ?c \<le> 1024"
    using c(1) pt_index_less [of a] by simp
  note map = pt_map_within [OF this, of pt base flags st, unfolded c(1)]
  have step: "paging_map_loop vma ptd base a flags sz pages st =
      paging_map_loop vma ptd base a flags (sz - ?c * PAGE_SIZE) (pages - ?c) ?st"
    using pos(2) map_page_table_again [OF less.prems(1)] map
    by (subst paging_map_loop.simps) (simp add: Let_def)
  show ?case
  proof (cases "pages - ?c = 0")
    case True
    then have "sz - ?c * PAGE_SIZE = 0"
      using sz' by (simp add: unat_eq_0)
    then show ?thesis
      unfolding step by (subst paging_map_loop.simps) simp
  next
    case False
    have "unat (pages - ?c) < unat pages"
      using pos(1) c(2) by (simp add: unat_diff_le)
    moreover have "leads_to vma (pdirs ?st ptd (pd_index a)) pt"
      using less.prems(1) by simp
    ultimately have "paging_map_loop vma ptd base a flags (sz - ?c * PAGE_SIZE) (pages - ?c) ?st =
      Some (Inr (store_pt pt (pt_fill (ptabs ?st pt) (pt_index a)
        (min (unat (pages - ?c)) (1024 - pt_index a)) base flags) ?st))"
      using sz' False by (intro less.hyps)
    moreover have "unat pages > 1024 - pt_index a"
    proof (rule ccontr)
      assume "\<not> ?thesis"
      then have "unat ?c = unat pages"
        using c(1) by simp
      then have "?c = pages"
        by (rule unsigned_word_eqI)
      then show False
        using False by simp
    qed
    ultimately show ?thesis
      unfolding step by (simp add: pt_fill_twice)
  qed
qed

text \<open>The indices of the pages behind an address.\<close>

lemma page_number:
  assumes "unat a + k * 4096 < 2 ^ 32"
  shows "unat (a + of_nat k * PAGE_SIZE) = unat a + k * 4096"
proof -
  have "a + of_nat k * PAGE_SIZE = of_nat (unat a + k * 4096)"
    by (simp add: PAGE_SIZE_def)
  then show ?thesis
    using assms by (simp only: unat_of_nat mod_less len_num1 len_bit0 mult.commute)  simp
qed

lemma page_index_add:
  assumes "unat a + k * 4096 < 2 ^ 32" "pt_index a + k < 1024"
  shows "pd_index (a + of_nat k * PAGE_SIZE) = pd_index a" "pt_index (a + of_nat k * PAGE_SIZE) = pt_index a + k"
proof -
  let ?q = "unat a div 4096"
  have q: "unat (a + of_nat k * PAGE_SIZE) div 4096 = ?q + k"
    using page_number [OF assms(1)] by simp
  have ix: "pd_index b = unat b div 4096 div 1024" "pt_index b = unat b div 4096 mod 1024" for b
    by (simp_all add: pd_index_def pt_index_def div_mult2_eq [symmetric])
  have "?q = ?q div 1024 * 1024 + ?q mod 1024"
    by simp
  then have eq: "?q + k = ?q div 1024 * 1024 + (?q mod 1024 + k)" and lt: "?q mod 1024 + k < 1024"
    using assms(2) by (simp_all add: ix)
  have parts: "(m * 1024 + r) div 1024 = m \<and> (m * 1024 + r) mod 1024 = r" if "r < 1024" for m r :: nat
    using that by simp
  have "(?q + k) div 1024 = ?q div 1024 \<and> (?q + k) mod 1024 = ?q mod 1024 + k"
    unfolding eq by (rule parts [OF lt])
  then show "pd_index (a + of_nat k * PAGE_SIZE) = pd_index a"
    "pt_index (a + of_nat k * PAGE_SIZE) = pt_index a + k"
    unfolding ix q by simp_all
qed

lemma paging_unmap_loop_ends:
  assumes "unat sz = unat pages * 4096" "unat a + unat pages * 4096 \<le> 2 ^ 32"
    and "\<And>k. k < unat pages \<Longrightarrow> \<exists>pt. leads_to vma (pdirs st ptd (pd_index (a + of_nat k * PAGE_SIZE))) pt"
  shows "\<exists>st'. paging_unmap_loop vma ptd a sz pages st = Some (Inr st') \<and> pdirs st' = pdirs st
    \<and> (\<forall>t i. ptabs st' t i = ptabs st t i \<or> ptabs st' t i = 0)
    \<and> (\<forall>k<unat pages. \<forall>pt. leads_to vma (pdirs st ptd (pd_index (a + of_nat k * PAGE_SIZE))) pt
         \<longrightarrow> ptabs st' pt (pt_index (a + of_nat k * PAGE_SIZE)) = 0)"
  using assms
proof (induction "unat pages" arbitrary: sz pages a st rule: less_induct)
  case less
  show ?case
  proof (cases "pages = 0")
    case True
    then show ?thesis
      using less.prems(1) by (subst paging_unmap_loop.simps) (simp add: unat_eq_0)
  next
    case False
    let ?c = "min pages (PT_ENTRIES - of_nat (pt_index a))" and ?a = "\<lambda>k. a + of_nat k * PAGE_SIZE"
    have "0 < unat pages"
      using False by (simp add: unat_gt_0)
    with less.prems(3) [of 0] obtain pt where pt: "leads_to vma (pdirs st ptd (pd_index a)) pt"
      by auto
    have c: "unat ?c = min (unat pages) (1024 - pt_index a)" "unat ?c \<le> unat pages" "0 < unat ?c"
      "pt_index a + unat ?c \<le> 1024"
      using pt_index_less [of a] \<open>0 < unat pages\<close> by (simp_all add: unat_cur_pages)
    note sz' = size_minus_pages [OF less.prems(1) c(2)]
    let ?st = "store_pt pt (pt_clear (ptabs st pt) (pt_index a) (unat ?c)) st"
    have step: "paging_unmap_loop vma ptd a sz pages st =
        paging_unmap_loop vma ptd (?a (unat ?c)) (sz - ?c * PAGE_SIZE) (pages - ?c) ?st"
      using False pt pt_unmap_within [OF c(4), of pt st]
      by (subst paging_unmap_loop.simps) (simp add: Let_def leads_to_def load_pde_def)
    have first: "ptabs ?st p (pt_index (?a k)) = 0"
      if "k < unat ?c" "leads_to vma (pdirs st ptd (pd_index (?a k))) p" for k p
    proof -
      have "pd_index (?a k) = pd_index a" "pt_index (?a k) = pt_index a + k"
        using that(1) c less.prems(2) by (auto intro!: page_index_add)
      then show ?thesis
        using that pt by (simp add: leads_to_def pt_clear_apply)
    qed
    have rest: "?a (unat ?c) + of_nat k * PAGE_SIZE = ?a (unat ?c + k)" for k
      by (simp add: algebra_simps)
    have np: "unat (pages - ?c) = unat pages - unat ?c"
      using c(2) by (rule unat_diff_le)
    have le: "unat (?a (unat ?c)) + unat (pages - ?c) * 4096 \<le> 2 ^ 32"
    proof (cases "unat pages = unat ?c")
      case True
      moreover have "unat (?a (unat ?c)) \<le> 2 ^ 32"
        by (rule less_imp_le) (use unat_bound [of "?a (unat ?c)"] in simp)
      ultimately show ?thesis
        unfolding np by simp
    next
      case False
      then have "unat a + unat ?c * 4096 < 2 ^ 32"
        using less.prems(2) c(2) by simp
      then show ?thesis
        unfolding page_number [OF \<open>unat a + unat ?c * 4096 < 2 ^ 32\<close>] np
        using less.prems(2) c(2) by simp
    qed
    have "\<exists>st'. paging_unmap_loop vma ptd (?a (unat ?c)) (sz - ?c * PAGE_SIZE) (pages - ?c) ?st = Some (Inr st')
      \<and> pdirs st' = pdirs ?st \<and> (\<forall>t i. ptabs st' t i = ptabs ?st t i \<or> ptabs st' t i = 0)
      \<and> (\<forall>k<unat (pages - ?c). \<forall>pt. leads_to vma (pdirs ?st ptd (pd_index (?a (unat ?c) + of_nat k * PAGE_SIZE))) pt
           \<longrightarrow> ptabs st' pt (pt_index (?a (unat ?c) + of_nat k * PAGE_SIZE)) = 0)"
    proof (rule less.hyps [OF _ sz'(1) le])
      show "unat (pages - ?c) < unat pages"
        using np c(3) \<open>0 < unat pages\<close> by simp
      show "\<exists>pt. leads_to vma (pdirs ?st ptd (pd_index (?a (unat ?c) + of_nat k * PAGE_SIZE))) pt"
        if "k < unat (pages - ?c)" for k
        unfolding rest using that np less.prems(3) [of "unat ?c + k"] by simp
    qed
    then obtain st' where st': "paging_unmap_loop vma ptd a sz pages st = Some (Inr st')" "pdirs st' = pdirs st"
      "\<And>t i. ptabs st' t i = ptabs ?st t i \<or> ptabs st' t i = 0"
      "\<And>k p. k < unat (pages - ?c) \<Longrightarrow> leads_to vma (pdirs st ptd (pd_index (?a (unat ?c + k)))) p
         \<Longrightarrow> ptabs st' p (pt_index (?a (unat ?c + k))) = 0"
      unfolding step rest by auto
    have "ptabs st' p (pt_index (?a k)) = 0"
      if "k < unat pages" "leads_to vma (pdirs st ptd (pd_index (?a k))) p" for k p
      using that first [of k p] st'(3) [of p "pt_index (?a k)"] st'(4) [of "k - unat ?c" p] np
      by (cases "k < unat ?c") auto
    moreover have "ptabs st' t i = ptabs st t i \<or> ptabs st' t i = 0" for t i
      using st'(3) [of t i] by (cases "t = pt") (auto simp: store_pt_def pt_clear_apply split: if_splits)
    ultimately show ?thesis
      using st'(1,2) by blast
  qed
qed

section \<open>Properties\<close>

text \<open>The address that the processor makes of a virtual address.\<close>

definition translate :: "u32 \<Rightarrow> paging \<Rightarrow> u32 \<Rightarrow> u32 \<Rightarrow> u32 option" where
  "translate vma st ptd a =
     (let pde = pdirs st ptd (pd_index a) in
      if pde AND I86_PDE_PRESENT = 0 then None
      else
        let pte = ptabs st ((pde AND I86_PDE_FRAME) + vma) (pt_index a) in
        if pte AND I86_PTE_PRESENT = 0 then None
        else Some ((pte AND I86_PTE_FRAME) + (a AND 0xFFF)))"

lemma translate_leads:
  "leads_to vma (pdirs st ptd (pd_index a)) pt \<Longrightarrow>
   translate vma st ptd a =
     (let pte = ptabs st pt (pt_index a) in
      if pte AND I86_PTE_PRESENT = 0 then None else Some ((pte AND I86_PTE_FRAME) + (a AND 0xFFF)))"
  by (auto simp: translate_def leads_to_def paging_pt_for_pd_entry_def paging_pd_entry_get_frame_def
      paging_pd_entry_is_present_def Let_def split: if_splits)

lemma pte_bits:
  assumes "f AND NOT I86_PTE_FRAME = 0" "fl AND I86_PTE_FRAME = 0" "fl AND I86_PTE_PRESENT \<noteq> 0"
  shows "(f OR fl) AND I86_PTE_FRAME = f" "(f OR fl) AND I86_PTE_PRESENT \<noteq> 0"
proof -
  show "(f OR fl) AND I86_PTE_FRAME = f"
  proof (rule bit_word_eqI)
    fix n
    assume "n < LENGTH(32)"
    have "bit (f AND NOT I86_PTE_FRAME) n = False" "bit (fl AND I86_PTE_FRAME) n = False"
      using assms by simp_all
    then show "bit ((f OR fl) AND I86_PTE_FRAME) n = bit f n"
      using \<open>n < LENGTH(32)\<close> by (auto simp: bit_simps)
  qed
  have "bit (fl AND I86_PTE_PRESENT) 0"
    using assms(3) by (simp add: I86_PTE_PRESENT_def and_one_eq odd_iff_mod_2_eq_one bit_0)
  then have "bit ((f OR fl) AND I86_PTE_PRESENT) 0"
    by (simp add: bit_simps)
  then show "(f OR fl) AND I86_PTE_PRESENT \<noteq> 0"
    by auto
qed

lemma frame_aligned: "2 ^ 12 dvd unat f \<Longrightarrow> f AND NOT I86_PTE_FRAME = 0"
proof -
  assume "2 ^ 12 dvd unat f"
  moreover have "NOT I86_PTE_FRAME = (mask 12 :: u32)"
    by (simp add: I86_PTE_FRAME_def mask_eq_exp_minus_1)
  ultimately show ?thesis
    by (simp add: unat_and_mask dvd_eq_mod_eq_0 flip: unat_eq_0)
qed

lemma add_pages_aligned:
  assumes "2 ^ 12 dvd unat a"
  shows "2 ^ 12 dvd unat (a + of_nat k * PAGE_SIZE)"
proof -
  have "a + of_nat k * PAGE_SIZE = of_nat (unat a + k * 4096)"
    by (simp add: PAGE_SIZE_def)
  then have "unat (a + of_nat k * PAGE_SIZE) = (unat a + k * 4096) mod 2 ^ 32"
    by (simp only: unat_of_nat) simp
  moreover have "2 ^ 12 dvd unat a + k * 4096" "(2 :: nat) ^ 12 dvd 2 ^ 32"
    using assms by (simp_all add: le_imp_power_dvd)
  ultimately show ?thesis
    by (simp only: dvd_mod)
qed

lemma page_offset:
  assumes "2 ^ 12 dvd unat a" "pt_index a + k < 1024" "off < 4096"
  defines "b \<equiv> a + of_nat k * PAGE_SIZE + of_nat off"
  shows "pd_index b = pd_index a" "pt_index b = pt_index a + k" "b AND 0xFFF = of_nat off"
    "unat a + k * 4096 < 2 ^ 32"
proof -
  obtain q where "unat a = 2 ^ 12 * q"
    using assms(1) by blast
  then have q: "unat a = q * 4096"
    by simp
  have "pt_index a = q mod 1024"
    by (simp add: pt_index_def q)
  moreover have "q < 1024 * 1024"
    using unat_u32_less [of a] q by simp
  then have "q div 1024 \<le> 1023"
    by (simp add: less_mult_imp_div_less flip: less_Suc_eq_le)
  moreover have "q = 1024 * (q div 1024) + q mod 1024"
    by simp
  ultimately have lt: "q + k < 1024 * 1024"
    using assms(2) by linarith
  then show le: "unat a + k * 4096 < 2 ^ 32"
    by (simp add: q)
  have "unat (a + of_nat k * PAGE_SIZE) = (q + k) * 4096"
    using page_number [OF le] q by simp
  then have "unat (a + of_nat k * PAGE_SIZE) + unat (of_nat off :: u32) < 2 ^ LENGTH(32)"
    using lt assms(3) by simp
  then have b: "unat b = unat (a + of_nat k * PAGE_SIZE) + off"
    unfolding b_def using assms(3) by (subst unat_add_small) simp_all
  obtain m where "unat (a + of_nat k * PAGE_SIZE) = m * 4096"
    using \<open>unat (a + of_nat k * PAGE_SIZE) = (q + k) * 4096\<close> by blast
  with b have "unat b div 4096 = unat (a + of_nat k * PAGE_SIZE) div 4096" "unat b mod 4096 = off"
    using assms(3) by simp_all
  then have "pd_index b = pd_index (a + of_nat k * PAGE_SIZE)" "pt_index b = pt_index (a + of_nat k * PAGE_SIZE)"
    by (simp_all add: pd_index_def pt_index_def div_mult2_eq [of _ 4096 1024, simplified])
  then show "pd_index b = pd_index a" "pt_index b = pt_index a + k"
    using page_index_add [OF le assms(2)] by simp_all
  have "unat (b AND mask 12) = off"
    using \<open>unat b mod 4096 = off\<close> by (simp add: unat_and_mask)
  then have "b AND mask 12 = of_nat off"
    using assms(3) by (simp add: word_unat_eq_iff)
  then show "b AND 0xFFF = of_nat off"
    by (simp add: mask_eq_exp_minus_1)
qed


text \<open>A kernel at 3 GB with the directory at its fixed place and no page table yet.\<close>

definition demo_paging :: paging where
  "demo_paging =
     \<lparr> pdirs = (\<lambda>_ _. 0), ptabs = (\<lambda>_ _. 0),
       kernel_layout = \<lparr> segment_start = 0xC0000000, memory_start = 0xC0102000, memory_end = 0xC0400000 \<rparr>,
       kernel_page_dir = 0xC0101000, current_page_dir = 0xC0101000, cr0 = 0, cr3 = 0x101000, cr3_loads = 0 \<rparr>"

lemma demo_map_page_table:
  "\<exists>st. map_page_table 0xC0000000 (0xC0101000, 0) demo_paging = Inr (0xC0102000, st)"
  by (simp add: demo_paging_def map_page_table_def paging_pt_for_pd_entry_def paging_pd_entry_get_frame_def
      load_pde_def paging_alloc_static_pt_def kalloc_static_page_def kalloc_static_def align_address_def
      PAGE_SIZE_def paging_pd_install_pt_def paging_pd_entry_set_frame_def I86_PDE_FRAME_def store_pt_def)


text \<open>
  C11: \<open>paging_unmap\<close> of a range whose page tables are all installed ends without a panic, even
  across page tables: no address of the range is translated any more, the directory
  stays as it was, and an entry of a table is either unchanged or cleared.
\<close>

theorem paging_unmap_clears:
  assumes "2 ^ 12 dvd unat vaddr" "2 ^ 12 dvd unat sz" "unat vaddr + unat sz \<le> 2 ^ 32"
    and "\<And>k. k < unat sz div 4096 \<Longrightarrow>
      \<exists>pt. leads_to vma (pdirs st ptd (pd_index (vaddr + of_nat k * PAGE_SIZE))) pt"
  shows "\<exists>st'. paging_unmap vma ptd vaddr sz st = Some (Inr st')
    \<and> (\<forall>k<unat sz div 4096. \<forall>off<4096. translate vma st' ptd (vaddr + of_nat k * PAGE_SIZE + of_nat off) = None)
    \<and> pdirs st' = pdirs st \<and> (\<forall>t i. ptabs st' t i = ptabs st t i \<or> ptabs st' t i = 0)"
proof -
  let ?a = "\<lambda>k. vaddr + of_nat k * PAGE_SIZE"
  have p: "unat (sz div PAGE_SIZE) = unat sz div 4096"
    by (simp add: unat_div PAGE_SIZE_def)
  then have sz: "unat sz = unat (sz div PAGE_SIZE) * 4096"
    using assms(2) by simp
  moreover have "unat vaddr + unat (sz div PAGE_SIZE) * 4096 \<le> 2 ^ 32"
    using assms(3) sz by simp
  ultimately obtain st' where st': "paging_unmap_loop vma ptd vaddr sz (sz div PAGE_SIZE) st = Some (Inr st')"
    "pdirs st' = pdirs st" "\<And>t i. ptabs st' t i = ptabs st t i \<or> ptabs st' t i = 0"
    "\<And>k pt. k < unat sz div 4096 \<Longrightarrow> leads_to vma (pdirs st ptd (pd_index (?a k))) pt
       \<Longrightarrow> ptabs st' pt (pt_index (?a k)) = 0"
    using paging_unmap_loop_ends [of sz "sz div PAGE_SIZE" vaddr vma st ptd] assms(4) unfolding p by blast
  have "translate vma st' ptd (?a k + of_nat off) = None" if k: "k < unat sz div 4096" "off < 4096" for k off
  proof -
    obtain pt where pt: "leads_to vma (pdirs st ptd (pd_index (?a k))) pt"
      using assms(4) [OF k(1)] by blast
    have "pt_index (?a k) + 0 < 1024"
      using pt_index_less [of "?a k"] by simp
    note ix = page_offset [OF add_pages_aligned [OF assms(1)] this k(2)]
    show ?thesis
      using pt st'(2) st'(4) [OF k(1) pt] ix by (subst translate_leads [where pt = pt]) simp_all
  qed
  moreover have "paging_unmap vma ptd vaddr sz st = Some (Inr st')"
    using st'(1) assms(1,2) by (simp add: paging_unmap_def page_aligned_iff)
  ultimately show ?thesis
    using st'(2,3) by blast
qed

theorem paging_unmap_clears_witness:
  "\<exists>st. paging_unmap 0xC0000000 0x1000 0x3FF000 0x2000
      (demo_paging \<lparr> pdirs := (\<lambda>_ _. 0x103003), ptabs := (\<lambda>_ _. 0x5003) \<rparr>) = Some (Inr st)
    \<and> translate 0xC0000000 st 0x1000 0x400000 = None"
proof -
  let ?st = "demo_paging \<lparr> pdirs := (\<lambda>_ _. 0x103003), ptabs := (\<lambda>_ _. 0x5003) \<rparr>"
  have "leads_to 0xC0000000 (pdirs ?st d i) 0xC0103000" for d i
    by (simp add: leads_to_def paging_pt_for_pd_entry_def paging_pd_entry_get_frame_def
        paging_pd_entry_is_present_def paging_flags)
  then have "\<exists>pt. leads_to 0xC0000000 (pdirs ?st d i) pt" for d i
    by blast
  moreover have "(2 :: nat) ^ 12 dvd unat (0x3FF000 :: u32)" "(2 :: nat) ^ 12 dvd unat (0x2000 :: u32)"
    "unat (0x3FF000 :: u32) + unat (0x2000 :: u32) \<le> 2 ^ 32"
    by simp_all
  ultimately obtain st where "paging_unmap 0xC0000000 0x1000 0x3FF000 0x2000 ?st = Some (Inr st)"
    and t: "\<forall>k<unat (0x2000 :: u32) div 4096. \<forall>off<4096.
      translate 0xC0000000 st 0x1000 (0x3FF000 + of_nat k * PAGE_SIZE + of_nat off) = None"
    using paging_unmap_clears [of "0x3FF000" "0x2000" "0xC0000000" ?st "0x1000"] by blast
  then show ?thesis
    using t [rule_format, of 1 0] by (simp add: PAGE_SIZE_def)
qed

end
