(* ===== verification/KRun.thy ===== *)
theory KRun
  imports KPrelude
begin

text \<open>
  Runs of code that may panic and may not return: \<open>None\<close> is a run that never ends,
  \<open>Some (Inl e)\<close> one that stops with an error.
\<close>

type_synonym 'a krun = "'a kres option"

definition kret :: "'a \<Rightarrow> 'a krun" where
  "kret x = Some (Inr x)"

definition kfail :: "kerror \<Rightarrow> 'a krun" where
  "kfail e = Some (Inl e)"

definition krun_bind :: "'a krun \<Rightarrow> ('a \<Rightarrow> 'b krun) \<Rightarrow> 'b krun" where
  "krun_bind m f = (case m of None \<Rightarrow> None | Some (Inl e) \<Rightarrow> Some (Inl e) | Some (Inr x) \<Rightarrow> f x)"

definition krun_assert :: "bool \<Rightarrow> string \<Rightarrow> unit krun" where
  "krun_assert b msg = Some (kassert b msg)"

lemma krun_bind_simps [simp]:
  "krun_bind (kret x) f = f x"
  "krun_bind (kfail e) f = kfail e"
  "krun_bind None f = None"
  "krun_bind (Some (Inr x)) f = f x"
  "krun_bind (Some (Inl e)) f = kfail e"
  by (simp_all add: krun_bind_def kret_def kfail_def)

lemma krun_assert_simps [simp]:
  "krun_assert True msg = kret ()"
  "krun_assert False msg = kfail (Assert msg)"
  by (simp_all add: krun_assert_def kret_def kfail_def kassert_def)

lemma krun_bind_eq_kret:
  "krun_bind m f = kret y \<longleftrightarrow> (\<exists>x. m = kret x \<and> f x = kret y)"
  by (auto simp: krun_bind_def kret_def split: option.splits sum.splits)

lemma krun_bind_kretE:
  assumes "krun_bind m f = kret y"
  obtains x where "m = kret x" "f x = kret y"
  using assms krun_bind_eq_kret by metis

lemma krun_assert_kret [simp]: "krun_assert b msg = kret u \<longleftrightarrow> b"
  by (simp add: krun_assert_def kret_def)

lemma kret_inject [simp]: "kret x = kret y \<longleftrightarrow> x = y"
  by (simp add: kret_def)

lemma kret_neq_kfail [simp]: "kret x \<noteq> kfail e" "kfail e \<noteq> kret x" "kret x \<noteq> None" "None \<noteq> kret x"
  by (simp_all add: kret_def kfail_def)

end
