(* ===== verification/Registers.thy ===== *)
theory Registers
  imports Bits
begin

text \<open>
  ia32/registers.c: the flags register and the control registers.  The functions
  on register values address the bits through the byte array that holds the
  value; the interrupt flag is switched by \<open>interrupts_enter_cli\<close> and
  \<open>interrupts_leave_cli\<close> of ia32/interrupts.c.
\<close>

section \<open>Definitions\<close>

text \<open>A 32-bit value in memory, the least significant byte first.\<close>

definition word_bytes :: "u32 \<Rightarrow> nat \<Rightarrow> u8" where
  "word_bytes v i = ucast (drop_bit (8 * i) v)"

definition bytes_word :: "(nat \<Rightarrow> u8) \<Rightarrow> u32" where
  "bytes_word b =
     ucast (b 0) OR push_bit 8 (ucast (b 1)) OR push_bit 16 (ucast (b 2)) OR push_bit 24 (ucast (b 3))"

datatype flags_register_bit_sel =
  flags_carry_bit | flags_parity_bit | flags_aux_carry_bit | flags_zero_bit | flags_sign_bit
  | flags_trap_bit | flags_if_bit | flags_direction_Bit | flags_overflow_bit
  | flags_io_priv_bit_1 | flags_io_priv_bit_2 | flags_nt_bit | flags_rf_bit | flags_vm_bit
  | flags_ac_bit | flags_vif_bit | flags_vip_bit | flags_id_bit

fun flags_bit :: "flags_register_bit_sel \<Rightarrow> nat" where
  "flags_bit flags_carry_bit = 0"
| "flags_bit flags_parity_bit = 2"
| "flags_bit flags_aux_carry_bit = 4"
| "flags_bit flags_zero_bit = 6"
| "flags_bit flags_sign_bit = 7"
| "flags_bit flags_trap_bit = 8"
| "flags_bit flags_if_bit = 9"
| "flags_bit flags_direction_Bit = 10"
| "flags_bit flags_overflow_bit = 11"
| "flags_bit flags_io_priv_bit_1 = 12"
| "flags_bit flags_io_priv_bit_2 = 13"
| "flags_bit flags_nt_bit = 14"
| "flags_bit flags_rf_bit = 16"
| "flags_bit flags_vm_bit = 17"
| "flags_bit flags_ac_bit = 18"
| "flags_bit flags_vif_bit = 19"
| "flags_bit flags_vip_bit = 20"
| "flags_bit flags_id_bit = 21"

datatype cr0_register_bit_sel =
  cr0_pe_bit | cr0_mp_bit | cr0_em_bit | cr0_ts_bit | cr0_et_bit | cr0_ne_bit | cr0_wp_bit
  | cr0_am_bit | cr0_nw_bit | cr0_cd_bit | cr0_pg_bit

fun cr0_bit :: "cr0_register_bit_sel \<Rightarrow> nat" where
  "cr0_bit cr0_pe_bit = 0"
| "cr0_bit cr0_mp_bit = 1"
| "cr0_bit cr0_em_bit = 2"
| "cr0_bit cr0_ts_bit = 3"
| "cr0_bit cr0_et_bit = 4"
| "cr0_bit cr0_ne_bit = 5"
| "cr0_bit cr0_wp_bit = 16"
| "cr0_bit cr0_am_bit = 18"
| "cr0_bit cr0_nw_bit = 29"
| "cr0_bit cr0_cd_bit = 30"
| "cr0_bit cr0_pg_bit = 31"

datatype cr4_register_bit_sel =
  cr4_vme_bit | cr4_pvi_bit | cr4_tsd_bit | cr4_de_bit | cr4_pse_bit | cr4_pae_bit
  | cr4_mce_bit | cr4_pge_bit | cr4_pce_bit | cr4_osfxsr_bit | cr4_osxmmexcpt_bit
  | cr4_vmxe_bit | cr4_smxe_bit | cr4_fsgsbase_bit | cr4_pcide_bit | cr4_osxsave_bit
  | cr4_smep_bit | cr4_smap_bit

fun cr4_bit :: "cr4_register_bit_sel \<Rightarrow> nat" where
  "cr4_bit cr4_vme_bit = 0"
| "cr4_bit cr4_pvi_bit = 1"
| "cr4_bit cr4_tsd_bit = 2"
| "cr4_bit cr4_de_bit = 3"
| "cr4_bit cr4_pse_bit = 4"
| "cr4_bit cr4_pae_bit = 5"
| "cr4_bit cr4_mce_bit = 6"
| "cr4_bit cr4_pge_bit = 7"
| "cr4_bit cr4_pce_bit = 8"
| "cr4_bit cr4_osfxsr_bit = 9"
| "cr4_bit cr4_osxmmexcpt_bit = 10"
| "cr4_bit cr4_vmxe_bit = 13"
| "cr4_bit cr4_smxe_bit = 14"
| "cr4_bit cr4_fsgsbase_bit = 16"
| "cr4_bit cr4_pcide_bit = 17"
| "cr4_bit cr4_osxsave_bit = 18"
| "cr4_bit cr4_smep_bit = 20"
| "cr4_bit cr4_smap_bit = 21"

definition flags_register_value_clear_bit :: "u32 \<Rightarrow> flags_register_bit_sel \<Rightarrow> u32" where
  "flags_register_value_clear_bit value bit_sel = bytes_word (clrbit (word_bytes value) (flags_bit bit_sel))"

definition flags_register_value_set_bit :: "u32 \<Rightarrow> flags_register_bit_sel \<Rightarrow> u32" where
  "flags_register_value_set_bit value bit_sel = bytes_word (setbit (word_bytes value) (flags_bit bit_sel))"

definition flags_register_value_is_set :: "u32 \<Rightarrow> flags_register_bit_sel \<Rightarrow> bool" where
  "flags_register_value_is_set value bit_sel \<longleftrightarrow> isset (word_bytes value) (flags_bit bit_sel) \<noteq> 0"

text \<open>The flags register itself is an argument.\<close>

definition flags_register_is_set :: "u32 \<Rightarrow> flags_register_bit_sel \<Rightarrow> bool" where
  "flags_register_is_set eflags bit_sel = flags_register_value_is_set eflags bit_sel"

definition cr0_register_value_clear_bit :: "u32 \<Rightarrow> cr0_register_bit_sel \<Rightarrow> u32" where
  "cr0_register_value_clear_bit value bit_sel = bytes_word (clrbit (word_bytes value) (cr0_bit bit_sel))"

definition cr0_register_value_set_bit :: "u32 \<Rightarrow> cr0_register_bit_sel \<Rightarrow> u32" where
  "cr0_register_value_set_bit value bit_sel = bytes_word (setbit (word_bytes value) (cr0_bit bit_sel))"

definition cr0_register_value_is_set :: "u32 \<Rightarrow> cr0_register_bit_sel \<Rightarrow> bool" where
  "cr0_register_value_is_set value bit_sel \<longleftrightarrow> 1 = isset (word_bytes value) (cr0_bit bit_sel)"

definition cr0_register_is_set :: "u32 \<Rightarrow> cr0_register_bit_sel \<Rightarrow> bool" where
  "cr0_register_is_set reg bit_sel = cr0_register_value_is_set reg bit_sel"

definition cr4_register_value_clear_bit :: "u32 \<Rightarrow> cr4_register_bit_sel \<Rightarrow> u32" where
  "cr4_register_value_clear_bit value bit_sel = bytes_word (clrbit (word_bytes value) (cr4_bit bit_sel))"

definition cr4_register_value_set_bit :: "u32 \<Rightarrow> cr4_register_bit_sel \<Rightarrow> u32" where
  "cr4_register_value_set_bit value bit_sel = bytes_word (setbit (word_bytes value) (cr4_bit bit_sel))"

definition cr4_register_value_is_set :: "u32 \<Rightarrow> cr4_register_bit_sel \<Rightarrow> bool" where
  "cr4_register_value_is_set value bit_sel \<longleftrightarrow> 1 = isset (word_bytes value) (cr4_bit bit_sel)"

definition cr4_register_is_set :: "u32 \<Rightarrow> cr4_register_bit_sel \<Rightarrow> bool" where
  "cr4_register_is_set reg bit_sel = cr4_register_value_is_set reg bit_sel"

text \<open>The old flags, and the register with interrupts disabled.\<close>

definition interrupts_enter_cli :: "u32 \<Rightarrow> u32 \<times> u32" where
  "interrupts_enter_cli eflags = (eflags, eflags AND NOT (push_bit (flags_bit flags_if_bit) 1))"

definition interrupts_leave_cli :: "u32 \<Rightarrow> u32" where
  "interrupts_leave_cli flags = flags"

section \<open>Bits of a value in memory\<close>

lemma bit_bytes_word:
  assumes "n < 32"
  shows "bit (bytes_word b) n \<longleftrightarrow> bit (b (n div 8)) (n mod 8)"
proof -
  consider "n < 8" | "8 \<le> n" "n < 16" | "16 \<le> n" "n < 24" | "24 \<le> n"
    by linarith
  then show ?thesis
  proof cases
    case 1
    then show ?thesis
      by (simp add: bytes_word_def bit_simps)
  next
    case 2
    then have "n div 8 = 1" "n mod 8 = n - 8"
      by (simp_all add: mod_if)
    then show ?thesis
      using 2 by (auto simp: bytes_word_def bit_simps dest: bit_imp_le_length)
  next
    case 3
    then have "n div 8 = 2" "n mod 8 = n - 16"
      by (simp_all add: mod_if)
    then show ?thesis
      using 3 by (auto simp: bytes_word_def bit_simps dest: bit_imp_le_length)
  next
    case 4
    then have "n div 8 = 3" "n mod 8 = n - 24"
      using assms by (simp_all add: mod_if)
    then show ?thesis
      using 4 assms by (auto simp: bytes_word_def bit_simps dest: bit_imp_le_length)
  qed
qed

lemma bit_word_bytes: "n < 8 \<Longrightarrow> bit (word_bytes v i) n \<longleftrightarrow> bit v (8 * i + n)"
  by (simp add: word_bytes_def bit_simps)

lemma flags_bit_less [simp]: "flags_bit b < 32"
  by (cases b) simp_all

lemma cr0_bit_less [simp]: "cr0_bit b < 32"
  by (cases b) simp_all

lemma cr4_bit_less [simp]: "cr4_bit b < 32"
  by (cases b) simp_all

lemma byte_bit_no: "n div 8 = k div 8 \<and> n mod 8 = k mod 8 \<longleftrightarrow> n = (k :: nat)"
  by (metis div_mult_mod_eq)

lemma byte_bit_at: "n div 8 = k div 8 \<Longrightarrow> 8 * (k div 8) + n mod 8 = (n :: nat)"
  by (metis mult_div_mod_eq)

lemma bytes_word_bit:
  assumes "k < 32"
  shows "bytes_word (setbit (word_bytes v) k) = v OR push_bit k 1"
    and "bytes_word (clrbit (word_bytes v) k) = v AND NOT (push_bit k 1)"
proof -
  have "bit (bytes_word (setbit (word_bytes v) k)) n = bit (v OR push_bit k 1) n
      \<and> bit (bytes_word (clrbit (word_bytes v) k)) n = bit (v AND NOT (push_bit k 1)) n" if "n < 32" for n
    using that assms byte_bit_no [of n k] byte_bit_at [of n k]
    by (auto simp: bit_bytes_word setbit_def clrbit_def NBBY_def bit_word_bytes bit_simps)
  then show "bytes_word (setbit (word_bytes v) k) = v OR push_bit k 1"
    "bytes_word (clrbit (word_bytes v) k) = v AND NOT (push_bit k 1)"
    by (auto intro!: bit_word_eqI)
qed

lemma isset_word_bytes:
  "isset (word_bytes v) k = (if bit v k then push_bit (k mod 8) 1 else 0)"
proof (rule bit_word_eqI)
  fix n
  assume "n < LENGTH(8)"
  then show "bit (isset (word_bytes v) k) n = bit (if bit v k then push_bit (k mod 8) 1 else 0 :: u8) n"
    using div_mult_mod_eq [of k 8]
    by (auto simp: isset_def NBBY_def bit_simps bit_word_bytes mult.commute)
qed

lemma push_bit_1_byte: "n < 8 \<Longrightarrow> push_bit n 1 \<noteq> (0 :: u8) \<and> (1 = (push_bit n 1 :: u8) \<longleftrightarrow> n = 0)"
proof -
  have "\<forall>n\<in>set [0..<8]. push_bit n 1 \<noteq> (0 :: u8) \<and> (1 = (push_bit n 1 :: u8) \<longleftrightarrow> n = 0)"
    by code_simp
  then show "n < 8 \<Longrightarrow> push_bit n 1 \<noteq> (0 :: u8) \<and> (1 = (push_bit n 1 :: u8) \<longleftrightarrow> n = 0)"
    by (simp only: set_upt atLeastLessThan_iff Ball_def) simp
qed

section \<open>Properties\<close>

text \<open>
  The functions on register values set, clear and test exactly the bit they
  name, except the tests of the control registers: those compare the masked byte with
  one, so that they find a bit only at the lowest place of a byte and never see
  the paging bit.
\<close>

theorem register_bits:
  "flags_register_value_set_bit v b = v OR push_bit (flags_bit b) 1
   \<and> flags_register_value_clear_bit v b = v AND NOT (push_bit (flags_bit b) 1)
   \<and> (flags_register_value_is_set v b \<longleftrightarrow> bit v (flags_bit b))
   \<and> cr0_register_value_set_bit v c = v OR push_bit (cr0_bit c) 1
   \<and> cr0_register_value_clear_bit v c = v AND NOT (push_bit (cr0_bit c) 1)
   \<and> (cr0_register_value_is_set v c \<longleftrightarrow> bit v (cr0_bit c) \<and> cr0_bit c mod 8 = 0)
   \<and> cr4_register_value_set_bit v d = v OR push_bit (cr4_bit d) 1
   \<and> cr4_register_value_clear_bit v d = v AND NOT (push_bit (cr4_bit d) 1)
   \<and> (cr4_register_value_is_set v d \<longleftrightarrow> bit v (cr4_bit d) \<and> cr4_bit d mod 8 = 0)
   \<and> \<not> cr0_register_value_is_set v cr0_pg_bit"
  using push_bit_1_byte [of "flags_bit b mod 8"] push_bit_1_byte [of "cr0_bit c mod 8"]
    push_bit_1_byte [of "cr4_bit d mod 8"] push_bit_1_byte [of 7]
  by (simp add: flags_register_value_set_bit_def flags_register_value_clear_bit_def
      flags_register_value_is_set_def cr0_register_value_set_bit_def cr0_register_value_clear_bit_def
      cr0_register_value_is_set_def cr4_register_value_set_bit_def cr4_register_value_clear_bit_def
      cr4_register_value_is_set_def bytes_word_bit isset_word_bytes)

end
