(* ===== verification/Spinlock.thy ===== *)
theory Spinlock
  imports Registers
begin

text \<open>
  kern/spinlock.c: nestable spin locks that are held with interrupts disabled.
  The sequential operations are functions on the lock and the flags register; a
  loop that spins for ever is \<open>None\<close>.  A step relation of several threads that
  contend for one lock, with the instructions of the two functions as atomic
  steps, shows what the lock guarantees between processors.
\<close>

section \<open>Definitions\<close>

record spinlock =
  owner :: u32
  nested :: u32

definition spinlock_init :: "spinlock \<Rightarrow> spinlock" where
  "spinlock_init l = l \<lparr> owner := 0, nested := 0 \<rparr>"

text \<open>
  The builtin \<open>__sync_val_compare_and_swap(&lock->owner, 0, me)\<close>: the value it returns is the
  old one.
\<close>

definition cas_owner :: "u32 \<Rightarrow> spinlock \<Rightarrow> u32 \<times> spinlock" where
  "cas_owner me l = (owner l, if owner l = 0 then l \<lparr> owner := me \<rparr> else l)"

partial_function (option) spin :: "u32 \<Rightarrow> spinlock \<Rightarrow> spinlock option" where
  "spin me l = (if fst (cas_owner me l) \<noteq> me then spin me (snd (cas_owner me l)) else Some (snd (cas_owner me l)))"

definition spinlock_acquire :: "u32 \<Rightarrow> u32 \<Rightarrow> spinlock \<Rightarrow> (u32 \<times> u32 \<times> spinlock) kres option" where
  "spinlock_acquire me eflags l =
     (let (flags, eflags) = interrupts_enter_cli eflags in
      if me = 0 then Some (Inl (Assert ''me''))
      else map_option (\<lambda>l. Inr (flags, eflags, l \<lparr> nested := nested l + 1 \<rparr>)) (spin me l))"

definition spinlock_release :: "u32 \<Rightarrow> u32 \<Rightarrow> spinlock \<Rightarrow> (u32 \<times> spinlock) kres" where
  "spinlock_release flags eflags l =
     kbind (kassert (\<not> flags_register_is_set eflags flags_if_bit)
              ''false == flags_register_is_set(flags_if_bit)'') (\<lambda>_.
       let l = l \<lparr> nested := nested l - 1 \<rparr>;
           l = (if nested l = 0 then l \<lparr> owner := 0 \<rparr> else l)
       in Inr (interrupts_leave_cli flags, l))"

section \<open>One processor\<close>

text \<open>A lock that is free, or held by a thread as often as it is nested.\<close>

definition spinlock_ok :: "spinlock \<Rightarrow> bool" where
  "spinlock_ok l \<longleftrightarrow> (owner l = 0 \<longleftrightarrow> nested l = 0)"

lemma spin_own:
  assumes "me \<noteq> 0" "owner l = 0 \<or> owner l = me"
  shows "spin me l = Some (l \<lparr> owner := me \<rparr>)"
proof (cases "owner l = 0")
  case True
  then show ?thesis
    using assms(1) by (subst spin.simps, subst spin.simps) (simp add: cas_owner_def)
next
  case False
  then have "owner l = me"
    using assms(2) by simp
  then show ?thesis
    using False by (subst spin.simps) (simp add: cas_owner_def)
qed

lemma spin_Some: "spin me l = Some l' \<Longrightarrow> owner l = 0 \<or> owner l = me"
proof (rule spin.raw_induct [of "\<lambda>me l _. owner l = 0 \<or> owner l = me"])
  fix spin me l y
  assume IH: "\<And>me l y. spin me l = Some y \<Longrightarrow> owner l = 0 \<or> owner l = me"
    and body: "(if fst (cas_owner me l) \<noteq> me then spin me (snd (cas_owner me l))
      else Some (snd (cas_owner me l))) = Some y"
  show "owner l = 0 \<or> owner l = me"
  proof (rule ccontr)
    assume "\<not> ?thesis"
    then have "spin me l = Some y"
      using body by (auto simp: cas_owner_def split: if_splits)
    then show False
      using IH \<open>\<not> (owner l = 0 \<or> owner l = me)\<close> by blast
  qed
qed

text \<open>The flags register while interrupts are disabled.\<close>

definition cli :: "u32 \<Rightarrow> u32" where
  "cli ef = ef AND NOT (push_bit (flags_bit flags_if_bit) 1)"

lemma cli_if [simp]: "\<not> flags_register_is_set (cli ef) flags_if_bit"
  by (simp add: cli_def flags_register_is_set_def flags_register_value_is_set_def isset_word_bytes bit_simps)

lemma acquire_own:
  assumes "me \<noteq> 0" "owner l = 0 \<or> owner l = me"
  shows "spinlock_acquire me ef l = Some (Inr (ef, cli ef, l \<lparr> owner := me, nested := nested l + 1 \<rparr>))"
  using spin_own [OF assms] assms(1) by (simp add: spinlock_acquire_def interrupts_enter_cli_def cli_def)

lemma release_own:
  assumes "spinlock_ok l" "owner l = 0 \<or> owner l = me" "\<not> flags_register_is_set ef flags_if_bit"
  shows "spinlock_release flags ef (l \<lparr> owner := me, nested := nested l + 1 \<rparr>) = Inr (flags, l)"
proof -
  have "nested l = 0 \<Longrightarrow> owner l = 0" "nested l \<noteq> 0 \<Longrightarrow> owner l = me"
    using assms by (auto simp: spinlock_ok_def)
  then show ?thesis
    using assms(3) by (cases l) (simp add: spinlock_release_def interrupts_leave_cli_def Let_def)
qed

section \<open>Several processors\<close>

text \<open>
  Where a thread is in its calls, with the number of its nested acquisitions: outside
  both functions, in the loop, between the loop and the increment, between the
  decrement and its test.
\<close>

datatype pc = At nat | Spinning nat | Got nat | Dropped nat

record contention =
  lock :: spinlock
  pcs :: "u32 \<Rightarrow> pc"

definition goto :: "u32 \<Rightarrow> pc \<Rightarrow> contention \<Rightarrow> contention" where
  "goto t p s = s \<lparr> pcs := (pcs s)(t := p) \<rparr>"

text \<open>The counter has 32 bits: a thread nests less than \<open>2 ^ 32\<close> times.\<close>

inductive lock_step :: "contention \<Rightarrow> contention \<Rightarrow> bool" where
  enter: "t \<noteq> 0 \<Longrightarrow> pcs s t = At n \<Longrightarrow> Suc n < 2 ^ 32 \<Longrightarrow> lock_step s (goto t (Spinning n) s)"
| cas: "pcs s t = Spinning n \<Longrightarrow>
    lock_step s (goto t (if fst (cas_owner t (lock s)) \<noteq> t then Spinning n else Got n)
      (s \<lparr> lock := snd (cas_owner t (lock s)) \<rparr>))"
| count: "pcs s t = Got n \<Longrightarrow>
    lock_step s (goto t (At (Suc n)) (s \<lparr> lock := (lock s) \<lparr> nested := nested (lock s) + 1 \<rparr> \<rparr>))"
| drop: "pcs s t = At (Suc n) \<Longrightarrow>
    lock_step s (goto t (Dropped n) (s \<lparr> lock := (lock s) \<lparr> nested := nested (lock s) - 1 \<rparr> \<rparr>))"
| free: "pcs s t = Dropped n \<Longrightarrow>
    lock_step s (goto t (At n)
      (s \<lparr> lock := (if nested (lock s) = 0 then (lock s) \<lparr> owner := 0 \<rparr> else lock s) \<rparr>))"

definition contention0 :: contention where
  "contention0 = \<lparr> lock = \<lparr> owner = 0, nested = 0 \<rparr>, pcs = (\<lambda>_. At 0) \<rparr>"

fun depth :: "pc \<Rightarrow> nat" where
  "depth (At n) = n"
| "depth (Spinning n) = n"
| "depth (Got n) = n"
| "depth (Dropped n) = n"

fun owns :: "pc \<Rightarrow> bool" where
  "owns (At n) \<longleftrightarrow> 0 < n"
| "owns (Spinning n) \<longleftrightarrow> 0 < n"
| "owns (Got n) \<longleftrightarrow> True"
| "owns (Dropped n) \<longleftrightarrow> True"

definition contention_inv :: "contention \<Rightarrow> bool" where
  "contention_inv s \<longleftrightarrow>
     pcs s 0 = At 0
     \<and> (\<forall>t. owns (pcs s t) \<longrightarrow> owner (lock s) = t)
     \<and> (owner (lock s) \<noteq> 0 \<longrightarrow> pcs s (owner (lock s)) \<noteq> At 0)
     \<and> unat (nested (lock s)) = depth (pcs s (owner (lock s)))
     \<and> (\<forall>t n. pcs s t = Spinning n \<or> pcs s t = Got n \<longrightarrow> Suc n < 2 ^ 32)"

lemma contention_inv_step: "lock_step s s' \<Longrightarrow> contention_inv s \<Longrightarrow> contention_inv s'"
proof (induction rule: lock_step.induct)
  case (enter t s n)
  then have "0 < n \<longrightarrow> owner (lock s) = t"
    by (metis contention_inv_def owns.simps(1))
  then show ?case
    using enter by (cases "n = 0") (auto simp: contention_inv_def goto_def)
next
  case (cas s t n)
  then have "t \<noteq> 0"
    by (auto simp: contention_inv_def)
  moreover have "0 < n \<longrightarrow> owner (lock s) = t"
    using cas by (metis contention_inv_def owns.simps(2))
  ultimately show ?case
    using cas by (cases "n = 0") (auto simp: contention_inv_def goto_def cas_owner_def)
next
  case (count s t n)
  have o: "owner (lock s) = t"
    using count by (metis contention_inv_def owns.simps(3))
  with count have "unat (nested (lock s)) = n" "Suc n < 2 ^ 32"
    by (auto simp: contention_inv_def)
  moreover from this have "unat (nested (lock s) + 1) = Suc n"
    by (subst unat_add_small) simp_all
  ultimately show ?case
    using count o by (auto simp: contention_inv_def goto_def)
next
  case (drop s t n)
  have o: "owner (lock s) = t"
    using drop by (metis contention_inv_def owns.simps(1) zero_less_Suc)
  with drop have "unat (nested (lock s)) = Suc n"
    by (auto simp: contention_inv_def)
  moreover from this have "unat (nested (lock s) - 1) = n"
    by (subst unat_diff_le) simp_all
  ultimately show ?case
    using drop o by (auto simp: contention_inv_def goto_def)
next
  case (free s t n)
  have o: "owner (lock s) = t"
    using free by (metis contention_inv_def owns.simps(4))
  with free have "unat (nested (lock s)) = n" "t \<noteq> 0"
    by (auto simp: contention_inv_def)
  moreover have "nested (lock s) = 0 \<longleftrightarrow> n = 0"
    using \<open>unat (nested (lock s)) = n\<close> by (simp flip: unat_eq_0)
  ultimately show ?case
    using free o by (auto simp: contention_inv_def goto_def)
qed

lemma contention_reachable: "lock_step\<^sup>*\<^sup>* contention0 s \<Longrightarrow> contention_inv s"
proof (induction rule: rtranclp_induct)
  case base
  then show ?case
    by (simp add: contention_inv_def contention0_def)
next
  case (step s s')
  then show ?case
    using contention_inv_step by blast
qed

section \<open>Properties\<close>



text \<open>
  On one processor, acquiring a lock that is free or already held by the thread returns at once
  with interrupts disabled, and the matching release restores the lock and the flags
  register; acquiring a lock of another thread never returns.
\<close>

theorem spinlock_acquire_release:
  assumes "me \<noteq> 0" "spinlock_ok l"
  shows "if owner l = 0 \<or> owner l = me
    then \<exists>flags' l'. spinlock_acquire me eflags l = Some (Inr (eflags, flags', l'))
       \<and> \<not> bit flags' 9 \<and> owner l' = me \<and> nested l' = nested l + 1
       \<and> spinlock_release eflags flags' l' = Inr (eflags, l)
    else spinlock_acquire me eflags l = None"
proof (cases "owner l = 0 \<or> owner l = me")
  case True
  have "\<not> bit (cli eflags) 9"
    by (simp add: cli_def bit_simps)
  then show ?thesis
    using True acquire_own [OF assms(1) True, of eflags] release_own [OF assms(2) True cli_if, of eflags eflags]
    by auto
next
  case False
  then have "spin me l = None"
    using spin_Some [of me l] by (cases "spin me l") auto
  then show ?thesis
    using False assms(1) by (simp add: spinlock_acquire_def interrupts_enter_cli_def)
qed

theorem spinlock_acquire_release_witness:
  "spinlock_acquire 5 0x202 \<lparr> owner = 4, nested = 1 \<rparr> = None"
  using spinlock_acquire_release [of 5 "\<lparr> owner = 4, nested = 1 \<rparr>" "0x202"]
  by (simp add: spinlock_ok_def)

end
