(* ===== verification/Sched.thy ===== *)
theory Sched
  imports KRun Spinlock UtList
begin

text \<open>
  kern/scheduler.c, kern/thread.c and the context switch of kern/process.c.
  Threads are found by their address.  The run queue and the queue of blocked
  threads share the links \<open>scheduler_thread_next\<close> and \<open>scheduler_thread_prev\<close> and are
  changed by the \<open>DL_\<close> macros on those links; the wait queue of a mutex has links of its
  own.  The tick counter is an argument.  A function that switches to another
  thread ends, in the model, with the switch; what its caller does once it is
  resumed is a function of its own.
\<close>

section \<open>Threads\<close>

datatype thread_state = thread_created | thread_running | thread_runnable | thread_blocked | thread_dead

record registers =
  r_ds :: u32
  r_cr2 :: u32
  r_edi :: u32
  r_esi :: u32
  r_ebp :: u32
  r_esp :: u32
  r_ebx :: u32
  r_edx :: u32
  r_ecx :: u32
  r_eax :: u32
  int_no :: u32
  err_code :: u32
  r_eip :: u32
  r_cs :: u32
  r_eflags :: u32
  useresp :: u32
  r_ss :: u32

text \<open>The words above the frame, \<open>args\<close>, are a return address and the argument of the entry point.\<close>

record iret_stack_frame =
  f_ebp :: u32
  f_eip :: u32
  f_cs :: u32
  f_eflags :: u32
  f_args :: "u32 \<times> u32"

record ctx =
  c_edi :: u32
  c_esi :: u32
  c_ebx :: u32
  c_frame :: iret_stack_frame

text \<open>The context of a thread is the pointer with what it points to.\<close>

record thread =
  t_proc :: "u32 option"
  t_name :: string
  tid :: u32
  t_regs :: registers
  stack_context :: "u32 \<times> ctx"
  t_stack :: u32
  t_kernel_stack :: u32
  t_stack_size :: u32
  t_kernel_stack_size :: u32
  t_func :: u32
  t_data :: u32
  timed_sleep_timer_id :: u32
  t_state :: thread_state
  exit_code :: u32
  time_slice :: u32

abbreviation t_eip :: "thread \<Rightarrow> u32" where
  "t_eip t \<equiv> f_eip (c_frame (snd (stack_context t)))"

text \<open>
  The threads with their links, the globals of \<open>scheduler.c\<close>, \<open>thread.c\<close> and \<open>process.c\<close>, the
  registers that the functions change, and the blocks given back to \<open>kfree\<close>, the
  latest first.
\<close>

record sched =
  threads :: "u32 \<Rightarrow> thread"
  sched_next :: "u32 \<Rightarrow> u32 option"
  sched_prev :: "u32 \<Rightarrow> u32 option"
  wait_next :: "u32 \<Rightarrow> u32 option"
  wait_prev :: "u32 \<Rightarrow> u32 option"
  runnable_threads :: "u32 option"
  blocked_threads :: "u32 option"
  sched_spinlock :: spinlock
  last_scheduled_time_ticks :: u32
  cur_thread :: "u32 option"
  cur_proc :: "u32 option"
  next_tid :: u32
  eflags :: u32
  tss_esp0 :: u32
  kfreed :: "u32 list"

definition TIME_SLICE :: u32 where "TIME_SLICE = 1"
definition STACK_SIZE :: u32 where "STACK_SIZE = 4096"
definition KERNEL_STACK_SIZE :: u32 where "KERNEL_STACK_SIZE = 4096"

definition current_thread :: "sched \<Rightarrow> u32 option" where
  "current_thread s = cur_thread s"

definition current_thread_id :: "sched \<Rightarrow> u32" where
  "current_thread_id s = (case cur_thread s of None \<Rightarrow> 0 | Some t \<Rightarrow> tid (threads s t))"

definition thread_next_id :: "sched \<Rightarrow> u32 \<times> sched" where
  "thread_next_id s =
     (let n = next_tid s + 1; n = (if n = 0 then 1 else n) in (n, s \<lparr> next_tid := n \<rparr>))"

definition upd_thread :: "u32 \<Rightarrow> (thread \<Rightarrow> thread) \<Rightarrow> sched \<Rightarrow> sched" where
  "upd_thread t f s = s \<lparr> threads := (threads s)(t := f (threads s t)) \<rparr>"

section \<open>The scheduler\<close>

definition scheduler_init :: "sched \<Rightarrow> sched" where
  "scheduler_init s = s \<lparr> sched_spinlock := spinlock_init (sched_spinlock s) \<rparr>"

definition scheduler_lock :: "sched \<Rightarrow> (u32 \<times> sched) krun" where
  "scheduler_lock s =
     krun_bind (spinlock_acquire (current_thread_id s) (eflags s) (sched_spinlock s)) (\<lambda>(flags, ef, l).
       kret (flags, s \<lparr> eflags := ef, sched_spinlock := l \<rparr>))"

definition scheduler_unlock :: "u32 \<Rightarrow> sched \<Rightarrow> sched krun" where
  "scheduler_unlock flags s =
     krun_bind (Some (spinlock_release flags (eflags s) (sched_spinlock s))) (\<lambda>(ef, l).
       kret (s \<lparr> eflags := ef, sched_spinlock := l \<rparr>))"

definition scheduler_add_runnable_thread :: "u32 \<Rightarrow> sched \<Rightarrow> sched krun" where
  "scheduler_add_runnable_thread t s =
     krun_bind (krun_assert (Some t \<noteq> runnable_threads s) ''t != _runnable_threads'') (\<lambda>_.
       let s = upd_thread t (time_slice_update (\<lambda>_. TIME_SLICE)) s in
       krun_bind (DL_APPEND2 (sched_next s, sched_prev s, runnable_threads s) t) (\<lambda>(n, p, h).
         kret (s \<lparr> sched_next := n, sched_prev := p, runnable_threads := h \<rparr>)))"

definition scheduler_add_blocked_thread :: "u32 \<Rightarrow> sched \<Rightarrow> sched krun" where
  "scheduler_add_blocked_thread t s =
     krun_bind (krun_assert (Some t \<noteq> blocked_threads s) ''t != _blocked_threads'') (\<lambda>_.
       krun_bind (DL_APPEND2 (sched_next s, sched_prev s, blocked_threads s) t) (\<lambda>(n, p, h).
         kret (s \<lparr> sched_next := n, sched_prev := p, blocked_threads := h \<rparr>)))"

definition scheduler_remove_runnable_thread :: "u32 \<Rightarrow> sched \<Rightarrow> sched krun" where
  "scheduler_remove_runnable_thread t s =
     krun_bind (DL_DELETE2 (sched_next s, sched_prev s, runnable_threads s) t) (\<lambda>(n, p, h).
       kret (s \<lparr> sched_next := n(t := None), sched_prev := p(t := None), runnable_threads := h \<rparr>))"

definition scheduler_remove_blocked_thread :: "u32 \<Rightarrow> sched \<Rightarrow> sched krun" where
  "scheduler_remove_blocked_thread t s =
     krun_bind (DL_DELETE2 (sched_next s, sched_prev s, blocked_threads s) t) (\<lambda>(n, p, h).
       kret (s \<lparr> sched_next := n(t := None), sched_prev := p(t := None), blocked_threads := h \<rparr>))"

definition scheduler_remove_thread :: "u32 \<Rightarrow> sched \<Rightarrow> sched krun" where
  "scheduler_remove_thread t s =
     (if t_state (threads s t) = thread_running \<or> t_state (threads s t) = thread_runnable
      then scheduler_remove_runnable_thread t s else scheduler_remove_blocked_thread t s)"

definition scheduler_make_runnable :: "u32 \<Rightarrow> sched \<Rightarrow> sched krun" where
  "scheduler_make_runnable t s =
     krun_bind (scheduler_lock s) (\<lambda>(flags, s).
       krun_bind
         (if t_state (threads s t) \<noteq> thread_runnable
          then krun_bind (scheduler_remove_thread t s) (\<lambda>s.
                 scheduler_add_runnable_thread t (upd_thread t (t_state_update (\<lambda>_. thread_runnable)) s))
          else kret s)
         (scheduler_unlock flags))"

definition scheduler_make_blocked :: "u32 \<Rightarrow> sched \<Rightarrow> sched krun" where
  "scheduler_make_blocked t s =
     krun_bind (scheduler_lock s) (\<lambda>(flags, s).
       krun_bind
         (if t_state (threads s t) \<noteq> thread_blocked
          then krun_bind (scheduler_remove_thread t s) (\<lambda>s.
                 let s = upd_thread t (t_state_update (\<lambda>_. thread_blocked)) s in
                 krun_bind (krun_assert (Some t \<noteq> blocked_threads s) ''t != _blocked_threads'') (\<lambda>_.
                   scheduler_add_blocked_thread t s))
          else kret s)
         (scheduler_unlock flags))"

definition scheduler_add_thread :: "u32 \<Rightarrow> sched \<Rightarrow> sched krun" where
  "scheduler_add_thread t s =
     krun_bind (scheduler_lock s) (\<lambda>(flags, s).
       krun_bind (krun_assert (t_state (threads s t) \<noteq> thread_running) ''t->state != thread_running'') (\<lambda>_.
         let s = (if t_state (threads s t) = thread_created
                  then upd_thread t (t_state_update (\<lambda>_. thread_runnable)) s else s) in
         krun_bind
           (if t_state (threads s t) = thread_runnable
            then krun_bind (krun_assert (Some t \<noteq> runnable_threads s) ''t != _runnable_threads'') (\<lambda>_.
                   scheduler_add_runnable_thread t s)
            else krun_bind (krun_assert (Some t \<noteq> blocked_threads s) ''t != _blocked_threads'') (\<lambda>_.
                   scheduler_add_blocked_thread t s))
           (scheduler_unlock flags)))"

text \<open>The thread to run next; \<open>now\<close> is \<open>ticks_since_boot()\<close>.  The time slice is unsigned.\<close>

definition pick_next_thread :: "sched \<Rightarrow> (u32 \<times> sched) krun" where
  "pick_next_thread s =
     (case runnable_threads s of
        None \<Rightarrow> kfail (Panic ''no next thread available'')
      | Some next_thread \<Rightarrow>
          krun_bind (scheduler_remove_runnable_thread next_thread s) (\<lambda>s.
            krun_bind (scheduler_add_runnable_thread next_thread s) (\<lambda>s.
              kret (next_thread, upd_thread next_thread (t_state_update (\<lambda>_. thread_running)) s))))"

definition scheduler_next_thread :: "u32 \<Rightarrow> sched \<Rightarrow> (u32 \<times> sched) krun" where
  "scheduler_next_thread now s =
     (let previous_ticks = last_scheduled_time_ticks s;
          elapsed_ticks = now - previous_ticks;
          s = s \<lparr> last_scheduled_time_ticks := now \<rparr>
      in case current_thread s of
           None \<Rightarrow> pick_next_thread s
         | Some old_thread \<Rightarrow>
             let s = upd_thread old_thread (\<lambda>t. t \<lparr> time_slice := time_slice t - elapsed_ticks \<rparr>) s in
             if t_state (threads s old_thread) = thread_running then
               (if time_slice (threads s old_thread) > 0 then kret (old_thread, s)
                else pick_next_thread (upd_thread old_thread (t_state_update (\<lambda>_. thread_runnable)) s))
             else pick_next_thread s)"

text \<open>
  The context switch up to \<open>stack_switch\<close>.  The comparison with \<open>KERNEL_VMA\<close> reads the byte stored
  at that symbol, \<open>vma_byte\<close>, and not its address.
\<close>

definition thread_context_switch :: "u8 \<Rightarrow> u32 \<Rightarrow> sched \<Rightarrow> sched krun" where
  "thread_context_switch vma_byte t s =
     (if cur_thread s = Some t then kret s
      else
        let s = s \<lparr> cur_thread := Some t \<rparr> in
        if t_eip (threads s t) < ucast vma_byte
        then kfail (Panic ''about to stack switch to weird return address'')
        else kret (s \<lparr> tss_esp0 := t_kernel_stack (threads s t) + t_kernel_stack_size (threads s t) \<rparr>))"

definition process_context_switch :: "u8 \<Rightarrow> u32 \<Rightarrow> sched \<Rightarrow> sched krun" where
  "process_context_switch vma_byte t s =
     (let s = (case t_proc (threads s t) of
                 None \<Rightarrow> s
               | Some proc \<Rightarrow> if cur_proc s \<noteq> Some proc then s \<lparr> cur_proc := Some proc \<rparr> else s)
      in thread_context_switch vma_byte t s)"

definition enter_cli :: "sched \<Rightarrow> u32 \<times> sched" where
  "enter_cli s = (let (flags, ef) = interrupts_enter_cli (eflags s) in (flags, s \<lparr> eflags := ef \<rparr>))"

definition leave_cli :: "u32 \<Rightarrow> sched \<Rightarrow> sched" where
  "leave_cli flags s = s \<lparr> eflags := interrupts_leave_cli flags \<rparr>"

text \<open>
  Whether the caller goes on, or is suspended in \<open>process_context_switch\<close> with the flags that
  it restores by \<open>leave_cli\<close> when it is resumed.
\<close>

datatype outcome = Returned | Suspended u32

definition scheduler_yield :: "u8 \<Rightarrow> u32 \<Rightarrow> sched \<Rightarrow> (outcome \<times> sched) krun" where
  "scheduler_yield vma_byte now s =
     (let (flags1, s) = enter_cli s in
      krun_bind (scheduler_lock s) (\<lambda>(flags2, s).
        krun_bind (scheduler_next_thread now s) (\<lambda>(new_thread, s).
          krun_bind (scheduler_unlock flags2 s) (\<lambda>s.
            if Some new_thread \<noteq> current_thread s
            then krun_bind (process_context_switch vma_byte new_thread s) (\<lambda>s. kret (Suspended flags1, s))
            else kret (Returned, leave_cli flags1 s)))))"

definition scheduler_block :: "u8 \<Rightarrow> u32 \<Rightarrow> sched \<Rightarrow> (outcome \<times> sched) krun" where
  "scheduler_block vma_byte now s =
     (let (flags1, s) = enter_cli s in
      krun_bind (scheduler_lock s) (\<lambda>(flags2, s).
        case current_thread s of
          None \<Rightarrow> kfail NullDeref
        | Some me \<Rightarrow>
            krun_bind (scheduler_make_blocked me s) (\<lambda>s.
              krun_bind (scheduler_unlock flags2 s) (\<lambda>s.
                krun_bind (scheduler_yield vma_byte now s) (\<lambda>(r, s).
                  case r of
                    Returned \<Rightarrow> kret (Returned, leave_cli flags1 s)
                  | Suspended _ \<Rightarrow> kret (Suspended flags1, s))))))"

text \<open>
  \<open>scheduler_wait_object_acquire\<close>, from taking the lock: \<open>w\<close> is the word the thread
  wants to own.  One turn of the loop either gets it, or blocks the thread and switches;
  a resumed thread takes the lock again and makes another turn.
\<close>

definition scheduler_wait_object_turn ::
    "u8 \<Rightarrow> u32 \<Rightarrow> u32 \<Rightarrow> u32 \<Rightarrow> u32 \<Rightarrow> sched \<Rightarrow> (u32 \<times> outcome \<times> sched) krun" where
  "scheduler_wait_object_turn vma_byte now flags1 value w s =
     krun_bind (scheduler_lock s) (\<lambda>(flags2, s).
       let old = w; w = (if w = 0 then value else w) in
       if old \<noteq> value then
         (case current_thread s of
            None \<Rightarrow> kfail NullDeref
          | Some me \<Rightarrow>
              krun_bind (scheduler_make_blocked me s) (\<lambda>s.
                krun_bind (scheduler_next_thread now s) (\<lambda>(next_thread, s).
                  krun_bind (scheduler_unlock flags2 s) (\<lambda>s.
                    krun_bind (process_context_switch vma_byte next_thread s) (\<lambda>s.
                      kret (w, Suspended flags1, s))))))
       else krun_bind (scheduler_unlock flags2 s) (\<lambda>s. kret (w, Returned, leave_cli flags1 s)))"

section \<open>Creation, end and sleep of a thread\<close>

text \<open>A structure cleared by \<open>memset\<close>.\<close>

definition registers0 :: registers where
  "registers0 = \<lparr> r_ds = 0, r_cr2 = 0, r_edi = 0, r_esi = 0, r_ebp = 0, r_esp = 0, r_ebx = 0, r_edx = 0,
     r_ecx = 0, r_eax = 0, int_no = 0, err_code = 0, r_eip = 0, r_cs = 0, r_eflags = 0, useresp = 0, r_ss = 0 \<rparr>"

definition context0 :: ctx where
  "context0 = \<lparr> c_edi = 0, c_esi = 0, c_ebx = 0,
     c_frame = \<lparr> f_ebp = 0, f_eip = 0, f_cs = 0, f_eflags = 0, f_args = (0, 0) \<rparr> \<rparr>"

definition thread0 :: thread where
  "thread0 = \<lparr> t_proc = None, t_name = [], tid = 0, t_regs = registers0, stack_context = (0, context0),
     t_stack = 0, t_kernel_stack = 0, t_stack_size = 0,
     t_kernel_stack_size = 0, t_func = 0, t_data = 0, timed_sleep_timer_id = 0, t_state = thread_created,
     exit_code = 0, time_slice = 0 \<rparr>"

text \<open>The address \<open>t\<close> that \<open>kmalloc\<close> returns is an argument, zero on failure.\<close>

definition thread_alloc :: "u32 \<Rightarrow> sched \<Rightarrow> sched" where
  "thread_alloc t s = (if t \<noteq> 0 then upd_thread t (\<lambda>_. thread0) s else s)"

definition kfree_block :: "u32 \<Rightarrow> sched \<Rightarrow> sched" where
  "kfree_block p s = s \<lparr> kfreed := p # kfreed s \<rparr>"

definition thread_free :: "u32 \<Rightarrow> sched \<Rightarrow> sched" where
  "thread_free t s = kfree_block t s"

text \<open>
  \<open>stack_init\<close> fills in a context.  Its offset, the size less that of the context and of the
  argument frame, is added to a pointer to a context of 28 bytes.  What the memory
  held there before, \<open>old\<close>, stays in the fields that it does not write.
\<close>

definition stack_init :: "ctx \<Rightarrow> u16 \<Rightarrow> u32 \<Rightarrow> u32 \<Rightarrow> u32 \<Rightarrow> u32 \<Rightarrow> u32 \<Rightarrow> u32 \<times> ctx" where
  "stack_init old cs flags stack sz func data =
     (stack + (sz - 28 - 8) * 28,
      old \<lparr> c_frame := \<lparr> f_ebp = 0, f_eip = func, f_cs = ucast cs,
         f_eflags = flags_register_value_clear_bit flags flags_if_bit, f_args = (0, data) \<rparr> \<rparr>)"

text \<open>
  The addresses that \<open>kmalloc\<close> returns for the two stacks, \<open>thread_entry_point\<close> and the code segment
  register are arguments.  The result is the return value.
\<close>

definition thread_init ::
    "ctx \<Rightarrow> u16 \<Rightarrow> u32 \<Rightarrow> u32 \<Rightarrow> u32 \<Rightarrow> u32 \<Rightarrow> u32 \<Rightarrow> u32 \<Rightarrow> sched \<Rightarrow> int \<times> sched" where
  "thread_init old cs stack kernel_stack entry_point t f data s =
     (let (i, s) = thread_next_id s;
          s = upd_thread t (\<lambda>th. th \<lparr> tid := i, t_state := thread_created, t_stack := stack \<rparr>) s
      in if stack = 0 then (- 1, s)
         else
           let s = upd_thread t (\<lambda>th. th \<lparr> t_kernel_stack := kernel_stack \<rparr>) s in
           if kernel_stack = 0 then (- 1, kfree_block stack s)
           else (0, upd_thread t (\<lambda>th. th \<lparr> t_name := [], t_stack_size := STACK_SIZE,
                      t_kernel_stack_size := KERNEL_STACK_SIZE, t_func := f, t_data := data,
                      stack_context := stack_init old cs (eflags s) stack STACK_SIZE entry_point t \<rparr>) s))"

definition thread_start :: "u32 \<Rightarrow> sched \<Rightarrow> sched krun" where
  "thread_start t s = scheduler_add_thread t s"

definition thread_spawn_kthread ::
    "ctx \<Rightarrow> u16 \<Rightarrow> u32 \<Rightarrow> u32 \<Rightarrow> u32 \<Rightarrow> u32 \<Rightarrow> u32 \<Rightarrow> string \<Rightarrow> u32 \<Rightarrow> sched \<Rightarrow> (u32 \<times> sched) krun" where
  "thread_spawn_kthread old cs t stack kernel_stack entry_point f name data s =
     (let s = thread_alloc t s in
      if t = 0 then kret (0, s)
      else
        let (r, s) = thread_init old cs stack kernel_stack entry_point t f data s in
        if r \<noteq> 0 then kret (0, thread_free t s)
        else krun_bind (thread_start t (upd_thread t (\<lambda>th. th \<lparr> t_name := name \<rparr>) s)) (\<lambda>s. kret (t, s)))"

text \<open>
  The first thread, with a structure on the boot stack that is copied; \<open>garbage\<close> is what that stack
  held in the fields that are not set.
\<close>

definition thread_system_init :: "thread \<Rightarrow> u32 \<Rightarrow> u32 \<Rightarrow> sched \<Rightarrow> sched kres" where
  "thread_system_init garbage new_thread t s =
     (let (i, s) = thread_next_id s;
          s = upd_thread new_thread (\<lambda>_. garbage \<lparr> t_state := thread_running, tid := i, t_name := ''kbootstrap'' \<rparr>) s;
          s = s \<lparr> cur_thread := Some new_thread \<rparr>;
          s = (thread_alloc t s) \<lparr> cur_thread := (if t = 0 then None else Some t) \<rparr>
      in if t = 0 then Inl (Assert ''_current_thread'')
         else Inr (upd_thread t (\<lambda>_. threads s new_thread) s))"

definition current_thread_save_regs :: "registers \<Rightarrow> sched \<Rightarrow> sched kres" where
  "current_thread_save_regs regs s =
     (case current_thread s of
        None \<Rightarrow> Inl NullDeref
      | Some t \<Rightarrow> Inr (upd_thread t (\<lambda>th. th \<lparr> t_regs := regs \<rparr>) s))"

definition current_thread_restore_regs :: "sched \<Rightarrow> registers kres" where
  "current_thread_restore_regs s =
     (case current_thread s of None \<Rightarrow> Inl NullDeref | Some t \<Rightarrow> Inr (t_regs (threads s t)))"

text \<open>A thread that ends up here again after the switch panics.\<close>

definition thread_exit_resumed :: "sched \<Rightarrow> (outcome \<times> sched) krun" where
  "thread_exit_resumed s = kfail (Panic ''scheduler_yield returned control to dead thread'')"

definition thread_exit :: "u8 \<Rightarrow> u32 \<Rightarrow> u32 \<Rightarrow> u32 \<Rightarrow> sched \<Rightarrow> (outcome \<times> sched) krun" where
  "thread_exit vma_byte now t code s =
     krun_bind (scheduler_yield vma_byte now
                  (upd_thread t (\<lambda>th. th \<lparr> exit_code := code, t_state := thread_dead \<rparr>) s)) (\<lambda>(r, s).
       case r of Returned \<Rightarrow> thread_exit_resumed s | Suspended flags \<Rightarrow> kret (Suspended flags, s))"

text \<open>The body of a thread, \<open>func\<close>, is what its function does with the state, and the code it returns.\<close>

definition thread_entry_point ::
    "(u32 \<Rightarrow> u32 \<Rightarrow> sched \<Rightarrow> (u32 \<times> sched) krun) \<Rightarrow> u8 \<Rightarrow> u32 \<Rightarrow> u32 \<Rightarrow> sched \<Rightarrow> (outcome \<times> sched) krun" where
  "thread_entry_point func vma_byte now data s =
     (if cur_thread s \<noteq> Some data then kfail (Panic ''thread is not current thread'')
      else
        krun_bind (krun_assert (\<not> flags_register_is_set (eflags s) flags_if_bit)
                     ''false == flags_register_is_set(flags_if_bit)'') (\<lambda>_.
          let s = s \<lparr> eflags := flags_register_value_set_bit (eflags s) flags_if_bit \<rparr> in
          krun_bind (func (t_func (threads s data)) (t_data (threads s data)) s) (\<lambda>(result, s).
            case cur_thread s of
              None \<Rightarrow> kfail NullDeref
            | Some t \<Rightarrow> thread_exit vma_byte now t result s)))"

definition current_thread_sleep :: "u8 \<Rightarrow> u32 \<Rightarrow> sched \<Rightarrow> (outcome \<times> sched) krun" where
  "current_thread_sleep vma_byte now s =
     (case current_thread s of
        None \<Rightarrow> kfail (Assert ''t'')
      | Some t \<Rightarrow> krun_bind (scheduler_make_blocked t s) (scheduler_yield vma_byte now))"

definition thread_wake :: "u32 \<Rightarrow> sched \<Rightarrow> sched krun" where
  "thread_wake t s = scheduler_make_runnable t s"

definition scheduler_count_runnable_threads :: "sched \<Rightarrow> (nat \<times> sched) krun" where
  "scheduler_count_runnable_threads s =
     krun_bind (scheduler_lock s) (\<lambda>(flags, s).
       case DL_COUNT2 (sched_next s, sched_prev s, runnable_threads s) of
         None \<Rightarrow> None
       | Some n \<Rightarrow> krun_bind (scheduler_unlock flags s) (\<lambda>s. kret (n, s)))"

definition scheduler_count_blocked_threads :: "sched \<Rightarrow> (nat \<times> sched) krun" where
  "scheduler_count_blocked_threads s =
     krun_bind (scheduler_lock s) (\<lambda>(flags, s).
       case DL_COUNT2 (sched_next s, sched_prev s, blocked_threads s) of
         None \<Rightarrow> None
       | Some n \<Rightarrow> krun_bind (scheduler_unlock flags s) (\<lambda>s. kret (n, s)))"

section \<open>The links that the list macros change\<close>

lemma prvs_mem: "prvs prv p xs \<Longrightarrow> x \<in> set xs \<Longrightarrow> \<exists>q. prv x = Some q \<and> q \<in> insert p (set xs)"
  by (induction xs arbitrary: p) fastforce+

lemma lst_next_mem: "lst nxt h xs \<Longrightarrow> x \<in> set xs \<Longrightarrow> nxt x = Some y \<Longrightarrow> y \<in> set xs"
proof (induction xs arbitrary: h)
  case (Cons a xs)
  then show ?case
    by (cases xs) auto
qed simp

lemma dlst_links:
  assumes "dlst (nxt, prv, h) xs" "x \<in> set xs"
  shows "nxt x = Some y \<Longrightarrow> y \<in> set xs" "prv x = Some y \<Longrightarrow> y \<in> set xs"
proof -
  have l: "lst nxt h xs" and p: "prvs prv (last xs) xs"
    using assms by (auto simp: dlst_def)
  show "nxt x = Some y \<Longrightarrow> y \<in> set xs"
    using lst_next_mem [OF l assms(2)] .
  show "prv x = Some y \<Longrightarrow> y \<in> set xs"
    using prvs_mem [OF p assms(2)] assms(2) last_in_set [of xs] by (auto simp: in_set_conv_decomp)
qed

lemma dlst_head: "dlst (nxt, prv, h) xs \<Longrightarrow> h = (case xs of [] \<Rightarrow> None | x # _ \<Rightarrow> Some x)"
  by (cases xs) (auto simp: dlst_def)

lemma prvs_cong: "(\<And>x. x \<in> set xs \<Longrightarrow> p x = p' x) \<Longrightarrow> prvs p a xs = prvs p' a xs"
  by (induction xs arbitrary: a) auto

lemma dlst_cong:
  assumes "\<And>x. x \<in> set xs \<Longrightarrow> n x = n' x \<and> p x = p' x"
  shows "dlst (n, p, h) xs = dlst (n', p', h) xs"
  using lst_cong [of xs n n' h] prvs_cong [of xs p p' "last xs"] assms by (simp add: dlst_def)

lemma append_frame:
  assumes "dlst (nxt, prv, h) xs" "a \<notin> set xs"
  shows "\<exists>n p h'. DL_APPEND2 (nxt, prv, h) a = Some (Inr (n, p, h')) \<and> dlst (n, p, h') (xs @ [a])
    \<and> (\<forall>y. y \<notin> set xs \<longrightarrow> y \<noteq> a \<longrightarrow> n y = nxt y \<and> p y = prv y)"
proof -
  obtain n p h' where r: "DL_APPEND2 (nxt, prv, h) a = Some (Inr (n, p, h'))" "dlst (n, p, h') (xs @ [a])"
    using DL_APPEND2_list [OF assms] by (metis prod_cases3)
  have "n y = nxt y \<and> p y = prv y" if "y \<notin> set xs" "y \<noteq> a" for y
  proof (cases xs)
    case Nil
    then show ?thesis
      using r(1) that dlst_head [OF assms(1)] by (auto simp: DL_APPEND2_def Let_def)
  next
    case (Cons x ys)
    then have "h = Some x"
      using dlst_head [OF assms(1)] by simp
    moreover obtain t where t: "prv x = Some t" "t \<in> set xs"
      using assms(1) Cons prvs_mem [of prv "last xs" xs x] last_in_set [of xs] by (auto simp: dlst_def)
    ultimately show ?thesis
      using r(1) that Cons t assms(2) by (auto simp: DL_APPEND2_def Let_def split: if_splits)
  qed
  then show ?thesis
    using r by blast
qed

lemma delete_frame:
  assumes "dlst (nxt, prv, h) xs" "d \<in> set xs"
  shows "\<exists>n p h'. DL_DELETE2 (nxt, prv, h) d = Some (Inr (n, p, h')) \<and> dlst (n, p, h') (remove1 d xs)
    \<and> (\<forall>y. y \<notin> set xs \<longrightarrow> n y = nxt y \<and> p y = prv y)"
proof -
  obtain n p h' where r: "DL_DELETE2 (nxt, prv, h) d = Some (Inr (n, p, h'))" "dlst (n, p, h') (remove1 d xs)"
    using DL_DELETE2_list [OF assms] by (metis prod_cases3)
  have "n y = nxt y \<and> p y = prv y" if "y \<notin> set xs" for y
  proof -
    have "h = None \<or> (\<exists>x\<in>set xs. h = Some x)"
      using dlst_head [OF assms(1)] by (auto split: list.splits)
    then show ?thesis
      using r(1) that dlst_links [OF assms]
      by (auto simp: DL_DELETE2_def Let_def split: option.splits if_splits)
  qed
  then show ?thesis
    using r by blast
qed

section \<open>The queues\<close>

text \<open>
  The two lists are disjoint, and a thread that is in neither has null links.
\<close>

definition queues :: "sched \<Rightarrow> u32 list \<Rightarrow> u32 list \<Rightarrow> bool" where
  "queues s rs bs \<longleftrightarrow>
     dlst (sched_next s, sched_prev s, runnable_threads s) rs
     \<and> dlst (sched_next s, sched_prev s, blocked_threads s) bs
     \<and> set rs \<inter> set bs = {}
     \<and> (\<forall>t. t \<notin> set rs \<longrightarrow> t \<notin> set bs \<longrightarrow> sched_next s t = None \<and> sched_prev s t = None)"

text \<open>What none of the queue operations changes.\<close>

definition same_rest :: "sched \<Rightarrow> sched \<Rightarrow> bool" where
  "same_rest s s' \<longleftrightarrow>
     wait_next s' = wait_next s \<and> wait_prev s' = wait_prev s \<and> sched_spinlock s' = sched_spinlock s
     \<and> last_scheduled_time_ticks s' = last_scheduled_time_ticks s \<and> cur_thread s' = cur_thread s
     \<and> cur_proc s' = cur_proc s \<and> next_tid s' = next_tid s \<and> eflags s' = eflags s \<and> tss_esp0 s' = tss_esp0 s
     \<and> kfreed s' = kfreed s"

definition moved :: "sched \<Rightarrow> (u32 \<Rightarrow> thread) \<Rightarrow> u32 list \<Rightarrow> u32 list \<Rightarrow> sched \<Rightarrow> bool" where
  "moved s T rs bs s' \<longleftrightarrow> queues s' rs bs \<and> threads s' = T \<and> same_rest s s'"

lemma same_rest_trans: "same_rest s s' \<Longrightarrow> same_rest s' s'' \<Longrightarrow> same_rest s s''"
  by (simp add: same_rest_def)

lemma moved_trans: "moved s T rs bs s' \<Longrightarrow> moved s' T' rs' bs' s'' \<Longrightarrow> moved s T' rs' bs' s''"
  using same_rest_trans by (auto simp: moved_def)

lemma queues_heads:
  assumes "queues s rs bs"
  shows "runnable_threads s = (case rs of [] \<Rightarrow> None | x # _ \<Rightarrow> Some x)"
    and "blocked_threads s = (case bs of [] \<Rightarrow> None | x # _ \<Rightarrow> Some x)"
    and "t \<notin> set rs \<Longrightarrow> Some t \<noteq> runnable_threads s" "t \<notin> set bs \<Longrightarrow> Some t \<noteq> blocked_threads s"
    and "distinct rs" "distinct bs"
proof -
  have q: "dlst (sched_next s, sched_prev s, runnable_threads s) rs"
    "dlst (sched_next s, sched_prev s, blocked_threads s) bs"
    using assms by (auto simp: queues_def)
  then show r: "runnable_threads s = (case rs of [] \<Rightarrow> None | x # _ \<Rightarrow> Some x)"
    and b: "blocked_threads s = (case bs of [] \<Rightarrow> None | x # _ \<Rightarrow> Some x)"
    and "distinct rs" "distinct bs"
    using dlst_head dlst_distinct by blast+
  show "t \<notin> set rs \<Longrightarrow> Some t \<noteq> runnable_threads s" "t \<notin> set bs \<Longrightarrow> Some t \<noteq> blocked_threads s"
    unfolding r b by (auto split: list.splits)
qed

lemma queues_upd_thread [simp]: "queues (upd_thread t f s) rs bs \<longleftrightarrow> queues s rs bs"
  by (simp add: queues_def upd_thread_def)

lemma upd_thread_sel [simp]:
  "threads (upd_thread t f s) = (threads s)(t := f (threads s t))"
  "runnable_threads (upd_thread t f s) = runnable_threads s"
  "blocked_threads (upd_thread t f s) = blocked_threads s"
  "sched_next (upd_thread t f s) = sched_next s" "sched_prev (upd_thread t f s) = sched_prev s"
  "cur_thread (upd_thread t f s) = cur_thread s" "eflags (upd_thread t f s) = eflags s"
  "sched_spinlock (upd_thread t f s) = sched_spinlock s"
  "last_scheduled_time_ticks (upd_thread t f s) = last_scheduled_time_ticks s"
  "wait_next (upd_thread t f s) = wait_next s" "wait_prev (upd_thread t f s) = wait_prev s"
  "cur_proc (upd_thread t f s) = cur_proc s" "next_tid (upd_thread t f s) = next_tid s"
  "tss_esp0 (upd_thread t f s) = tss_esp0 s" "kfreed (upd_thread t f s) = kfreed s"
  by (simp_all add: upd_thread_def)

lemma moved_upd_thread:
  "moved s T rs bs s' \<Longrightarrow> moved s (T(t := f (T t))) rs bs (upd_thread t f s')"
  by (auto simp: moved_def same_rest_def upd_thread_def queues_def)

lemma add_runnable:
  assumes "queues s rs bs" "t \<notin> set rs" "t \<notin> set bs"
  shows "\<exists>s'. scheduler_add_runnable_thread t s = kret s'
    \<and> moved s ((threads s)(t := (threads s t) \<lparr> time_slice := TIME_SLICE \<rparr>)) (rs @ [t]) bs s'"
proof -
  have q: "dlst (sched_next s, sched_prev s, runnable_threads s) rs"
    "dlst (sched_next s, sched_prev s, blocked_threads s) bs"
    using assms(1) by (auto simp: queues_def)
  obtain n p h where r: "DL_APPEND2 (sched_next s, sched_prev s, runnable_threads s) t = Some (Inr (n, p, h))"
    "dlst (n, p, h) (rs @ [t])" "\<And>y. y \<notin> set rs \<Longrightarrow> y \<noteq> t \<Longrightarrow> n y = sched_next s y \<and> p y = sched_prev s y"
    using append_frame [OF q(1) assms(2)] by metis
  moreover have "dlst (n, p, blocked_threads s) bs"
    using q(2) r(3) assms by (subst dlst_cong [of bs n "sched_next s" p "sched_prev s"]) (auto simp: queues_def)
  ultimately show ?thesis
    using assms queues_heads(3) [OF assms(1,2)]
    by (auto simp: scheduler_add_runnable_thread_def moved_def same_rest_def queues_def)
qed

lemma add_blocked:
  assumes "queues s rs bs" "t \<notin> set rs" "t \<notin> set bs"
  shows "\<exists>s'. scheduler_add_blocked_thread t s = kret s' \<and> moved s (threads s) rs (bs @ [t]) s'"
proof -
  have q: "dlst (sched_next s, sched_prev s, runnable_threads s) rs"
    "dlst (sched_next s, sched_prev s, blocked_threads s) bs"
    using assms(1) by (auto simp: queues_def)
  obtain n p h where r: "DL_APPEND2 (sched_next s, sched_prev s, blocked_threads s) t = Some (Inr (n, p, h))"
    "dlst (n, p, h) (bs @ [t])" "\<And>y. y \<notin> set bs \<Longrightarrow> y \<noteq> t \<Longrightarrow> n y = sched_next s y \<and> p y = sched_prev s y"
    using append_frame [OF q(2) assms(3)] by metis
  moreover have "dlst (n, p, runnable_threads s) rs"
    using q(1) r(3) assms by (subst dlst_cong [of rs n "sched_next s" p "sched_prev s"]) (auto simp: queues_def)
  ultimately show ?thesis
    using assms queues_heads(4) [OF assms(1,3)]
    by (auto simp: scheduler_add_blocked_thread_def moved_def same_rest_def queues_def)
qed

lemma remove_runnable:
  assumes "queues s rs bs" "t \<in> set rs"
  shows "\<exists>s'. scheduler_remove_runnable_thread t s = kret s' \<and> moved s (threads s) (remove1 t rs) bs s'"
proof -
  have q: "dlst (sched_next s, sched_prev s, runnable_threads s) rs"
    "dlst (sched_next s, sched_prev s, blocked_threads s) bs" "t \<notin> set bs"
    using assms by (auto simp: queues_def)
  obtain n p h where r: "DL_DELETE2 (sched_next s, sched_prev s, runnable_threads s) t = Some (Inr (n, p, h))"
    "dlst (n, p, h) (remove1 t rs)" "\<And>y. y \<notin> set rs \<Longrightarrow> n y = sched_next s y \<and> p y = sched_prev s y"
    using delete_frame [OF q(1) assms(2)] by metis
  have d: "t \<notin> set (remove1 t rs)" "set (remove1 t rs) = set rs - {t}"
    using queues_heads(5) [OF assms(1)] by simp_all
  have "dlst (n(t := None), p(t := None), h) (remove1 t rs)"
    using r(2) d by (subst dlst_cong [of _ _ n _ p]) auto
  moreover have "dlst (n(t := None), p(t := None), blocked_threads s) bs"
    using q(2,3) r(3) assms(1) by (subst dlst_cong [of _ _ "sched_next s" _ "sched_prev s"]) (auto simp: queues_def)
  ultimately show ?thesis
    using assms r(1,3) d(2) by (auto simp: scheduler_remove_runnable_thread_def moved_def same_rest_def queues_def)
qed

lemma remove_blocked:
  assumes "queues s rs bs" "t \<in> set bs"
  shows "\<exists>s'. scheduler_remove_blocked_thread t s = kret s' \<and> moved s (threads s) rs (remove1 t bs) s'"
proof -
  have q: "dlst (sched_next s, sched_prev s, runnable_threads s) rs"
    "dlst (sched_next s, sched_prev s, blocked_threads s) bs" "t \<notin> set rs"
    using assms by (auto simp: queues_def)
  obtain n p h where r: "DL_DELETE2 (sched_next s, sched_prev s, blocked_threads s) t = Some (Inr (n, p, h))"
    "dlst (n, p, h) (remove1 t bs)" "\<And>y. y \<notin> set bs \<Longrightarrow> n y = sched_next s y \<and> p y = sched_prev s y"
    using delete_frame [OF q(2) assms(2)] by metis
  have d: "t \<notin> set (remove1 t bs)" "set (remove1 t bs) = set bs - {t}"
    using queues_heads(6) [OF assms(1)] by simp_all
  have "dlst (n(t := None), p(t := None), h) (remove1 t bs)"
    using r(2) d by (subst dlst_cong [of _ _ n _ p]) auto
  moreover have "dlst (n(t := None), p(t := None), runnable_threads s) rs"
    using q(1,3) r(3) assms(1) by (subst dlst_cong [of _ _ "sched_next s" _ "sched_prev s"]) (auto simp: queues_def)
  ultimately show ?thesis
    using assms r(1,3) d(2) by (auto simp: scheduler_remove_blocked_thread_def moved_def same_rest_def queues_def)
qed

section \<open>Sections under the scheduler's lock\<close>

text \<open>The current thread can take the lock: it has an identity and nobody else holds the lock.\<close>

definition lockable :: "sched \<Rightarrow> bool" where
  "lockable s \<longleftrightarrow>
     current_thread_id s \<noteq> 0 \<and> spinlock_ok (sched_spinlock s)
     \<and> (owner (sched_spinlock s) = 0 \<or> owner (sched_spinlock s) = current_thread_id s)
     \<and> unat (nested (sched_spinlock s)) < 100"

text \<open>The state in which the lock is held once more.\<close>

definition locked :: "sched \<Rightarrow> sched" where
  "locked s = s \<lparr> eflags := cli (eflags s),
     sched_spinlock := (sched_spinlock s) \<lparr> owner := current_thread_id s, nested := nested (sched_spinlock s) + 1 \<rparr> \<rparr>"

definition unlocked :: "sched \<Rightarrow> sched \<Rightarrow> sched" where
  "unlocked s s' = s' \<lparr> eflags := eflags s, sched_spinlock := sched_spinlock s \<rparr>"

lemma scheduler_lock_ok: "lockable s \<Longrightarrow> scheduler_lock s = kret (eflags s, locked s)"
  by (simp add: scheduler_lock_def lockable_def acquire_own locked_def)

lemma scheduler_unlock_ok:
  assumes "lockable s" "eflags s' = eflags (locked s)" "sched_spinlock s' = sched_spinlock (locked s)"
  shows "scheduler_unlock (eflags s) s' = kret (unlocked s s')"
  using release_own [of "sched_spinlock s" "current_thread_id s" "cli (eflags s)" "eflags s"] assms
  by (simp add: scheduler_unlock_def lockable_def locked_def unlocked_def)

lemma locked_sel [simp]:
  "threads (locked s) = threads s" "cur_thread (locked s) = cur_thread s"
  "last_scheduled_time_ticks (locked s) = last_scheduled_time_ticks s"
  "runnable_threads (locked s) = runnable_threads s" "blocked_threads (locked s) = blocked_threads s"
  "sched_next (locked s) = sched_next s" "sched_prev (locked s) = sched_prev s"
  by (simp_all add: locked_def)

lemma queues_locked [simp]:
  "queues (locked s) rs bs \<longleftrightarrow> queues s rs bs" "queues (unlocked s s') rs bs \<longleftrightarrow> queues s' rs bs"
  by (simp_all add: queues_def locked_def unlocked_def)

text \<open>A section under the lock that moves threads between the queues.\<close>

lemma locked_section:
  assumes "lockable s" "f (locked s) = kret s'" "moved (locked s) T rs bs s'"
  shows "krun_bind (scheduler_lock s) (\<lambda>(flags, s). krun_bind (f s) (scheduler_unlock flags)) = kret (unlocked s s')"
    and "moved s T rs bs (unlocked s s')"
proof -
  have "eflags s' = eflags (locked s)" "sched_spinlock s' = sched_spinlock (locked s)"
    using assms(3) by (auto simp: moved_def same_rest_def)
  then show "krun_bind (scheduler_lock s) (\<lambda>(flags, s). krun_bind (f s) (scheduler_unlock flags)) = kret (unlocked s s')"
    using assms(1,2) by (simp add: scheduler_lock_ok scheduler_unlock_ok)
  show "moved s T rs bs (unlocked s s')"
    using assms(3) by (simp add: moved_def same_rest_def unlocked_def locked_def queues_def)
qed

text \<open>The states of the threads of the two queues.\<close>

definition states_ok :: "sched \<Rightarrow> u32 list \<Rightarrow> u32 list \<Rightarrow> bool" where
  "states_ok s rs bs \<longleftrightarrow>
     (\<forall>t\<in>set rs. t_state (threads s t) = thread_running \<or> t_state (threads s t) = thread_runnable)
     \<and> (\<forall>t\<in>set bs. t_state (threads s t) = thread_blocked)"

definition sched_inv :: "sched \<Rightarrow> u32 list \<Rightarrow> u32 list \<Rightarrow> bool" where
  "sched_inv s rs bs \<longleftrightarrow> queues s rs bs \<and> states_ok s rs bs"

lemma states_ok_upd:
  assumes "states_ok s rs bs" "threads s' = (threads s)(t := v)"
    and "set rs' - {t} \<subseteq> set rs" "set bs' - {t} \<subseteq> set bs"
    and "t \<in> set rs' \<Longrightarrow> t_state v = thread_running \<or> t_state v = thread_runnable"
    and "t \<in> set bs' \<Longrightarrow> t_state v = thread_blocked"
  shows "states_ok s' rs' bs'"
  unfolding states_ok_def
proof (intro conjI ballI)
  fix u
  assume "u \<in> set rs'"
  then show "t_state (threads s' u) = thread_running \<or> t_state (threads s' u) = thread_runnable"
    using assms by (cases "u = t") (auto simp: states_ok_def)
next
  fix u
  assume "u \<in> set bs'"
  then show "t_state (threads s' u) = thread_blocked"
    using assms by (cases "u = t") (auto simp: states_ok_def)
qed

lemma make_blocked_spec:
  assumes "sched_inv s rs bs" "lockable s" "t \<in> set rs"
  shows "\<exists>s'. scheduler_make_blocked t s = kret s'
    \<and> moved s ((threads s)(t := (threads s t) \<lparr> t_state := thread_blocked \<rparr>)) (remove1 t rs) (bs @ [t]) s'"
proof -
  let ?f = "\<lambda>s. if t_state (threads s t) \<noteq> thread_blocked
          then krun_bind (scheduler_remove_thread t s) (\<lambda>s.
                 let s = upd_thread t (t_state_update (\<lambda>_. thread_blocked)) s in
                 krun_bind (krun_assert (Some t \<noteq> blocked_threads s) ''t != _blocked_threads'') (\<lambda>_.
                   scheduler_add_blocked_thread t s))
          else kret s"
  have q: "queues (locked s) rs bs" and st: "t_state (threads s t) = thread_running \<or> t_state (threads s t) = thread_runnable"
    and nt: "t \<notin> set bs" "t \<notin> set (remove1 t rs)"
    using assms queues_heads(5) [of s rs bs] by (auto simp: sched_inv_def states_ok_def queues_def)
  obtain s1 where s1: "scheduler_remove_runnable_thread t (locked s) = kret s1"
    "moved (locked s) (threads s) (remove1 t rs) bs s1"
    using remove_runnable [OF q assms(3)] by auto
  let ?s1 = "upd_thread t (t_state_update (\<lambda>_. thread_blocked)) s1"
  have m1: "moved (locked s) ((threads s)(t := (threads s t) \<lparr> t_state := thread_blocked \<rparr>)) (remove1 t rs) bs ?s1"
    using moved_upd_thread [OF s1(2), of t "t_state_update (\<lambda>_. thread_blocked)"] by simp
  then have q1: "queues ?s1 (remove1 t rs) bs"
    by (simp add: moved_def)
  obtain s2 where s2: "scheduler_add_blocked_thread t ?s1 = kret s2"
    "moved ?s1 (threads ?s1) (remove1 t rs) (bs @ [t]) s2"
    using add_blocked [OF q1 nt(2,1)] by blast
  have "Some t \<noteq> blocked_threads ?s1"
    using queues_heads(4) [OF q1 nt(1)] .
  then have "?f (locked s) = kret s2"
    using st s1(1) s2(1) by (auto simp: scheduler_remove_thread_def Let_def)
  moreover have "moved (locked s) ((threads s)(t := (threads s t) \<lparr> t_state := thread_blocked \<rparr>)) (remove1 t rs) (bs @ [t]) s2"
    using moved_trans [OF m1 s2(2)] s1(2) by (simp add: moved_def)
  ultimately show ?thesis
    using locked_section [OF assms(2), of ?f] unfolding scheduler_make_blocked_def by blast
qed

lemma make_runnable_spec:
  assumes "sched_inv s rs bs" "lockable s" "t \<in> set bs"
  shows "\<exists>s'. scheduler_make_runnable t s = kret s'
    \<and> moved s ((threads s)(t := (threads s t) \<lparr> t_state := thread_runnable, time_slice := TIME_SLICE \<rparr>))
        (rs @ [t]) (remove1 t bs) s'"
proof -
  let ?f = "\<lambda>s. if t_state (threads s t) \<noteq> thread_runnable
          then krun_bind (scheduler_remove_thread t s) (\<lambda>s.
                 scheduler_add_runnable_thread t (upd_thread t (t_state_update (\<lambda>_. thread_runnable)) s))
          else kret s"
  have q: "queues (locked s) rs bs" and st: "t_state (threads s t) = thread_blocked"
    and nt: "t \<notin> set rs" "t \<notin> set (remove1 t bs)"
    using assms queues_heads(6) [of s rs bs] by (auto simp: sched_inv_def states_ok_def queues_def)
  obtain s1 where s1: "scheduler_remove_blocked_thread t (locked s) = kret s1"
    "moved (locked s) (threads s) rs (remove1 t bs) s1"
    using remove_blocked [OF q assms(3)] by auto
  let ?s1 = "upd_thread t (t_state_update (\<lambda>_. thread_runnable)) s1"
  have m1: "moved (locked s) ((threads s)(t := (threads s t) \<lparr> t_state := thread_runnable \<rparr>)) rs (remove1 t bs) ?s1"
    using moved_upd_thread [OF s1(2), of t "t_state_update (\<lambda>_. thread_runnable)"] by simp
  then have q1: "queues ?s1 rs (remove1 t bs)"
    by (simp add: moved_def)
  obtain s2 where s2: "scheduler_add_runnable_thread t ?s1 = kret s2"
    "moved ?s1 ((threads ?s1)(t := (threads ?s1 t) \<lparr> time_slice := TIME_SLICE \<rparr>)) (rs @ [t]) (remove1 t bs) s2"
    using add_runnable [OF q1 nt] by blast
  have "?f (locked s) = kret s2"
    using st s1(1) s2(1) by (auto simp: scheduler_remove_thread_def)
  moreover have "moved (locked s) ((threads s)(t := (threads s t) \<lparr> t_state := thread_runnable, time_slice := TIME_SLICE \<rparr>))
      (rs @ [t]) (remove1 t bs) s2"
    using moved_trans [OF m1 s2(2)] s1(2) by (simp add: moved_def)
  ultimately show ?thesis
    using locked_section [OF assms(2), of ?f] unfolding scheduler_make_runnable_def by blast
qed

section \<open>The choice of the next thread\<close>

lemma pick_next_spec:
  assumes "queues s (x # xs) bs"
  shows "\<exists>s'. pick_next_thread s = kret (x, s')
    \<and> moved s ((threads s)(x := (threads s x) \<lparr> time_slice := TIME_SLICE, t_state := thread_running \<rparr>)) (xs @ [x]) bs s'"
proof -
  have h: "runnable_threads s = Some x" and x: "x \<notin> set xs" "x \<notin> set bs"
    using queues_heads [OF assms] assms by (auto simp: queues_def)
  obtain s1 where s1: "scheduler_remove_runnable_thread x s = kret s1" "moved s (threads s) xs bs s1"
    using remove_runnable [OF assms, of x] by auto
  then have "queues s1 xs bs"
    by (simp add: moved_def)
  then obtain s2 where s2: "scheduler_add_runnable_thread x s1 = kret s2"
    "moved s1 ((threads s1)(x := (threads s1 x) \<lparr> time_slice := TIME_SLICE \<rparr>)) (xs @ [x]) bs s2"
    using add_runnable x by blast
  have m: "moved s ((threads s)(x := (threads s x) \<lparr> time_slice := TIME_SLICE \<rparr>)) (xs @ [x]) bs s2"
    using moved_trans [OF s1(2) s2(2)] s1(2) by (simp add: moved_def)
  show ?thesis
    using moved_upd_thread [OF m, of x "t_state_update (\<lambda>_. thread_running)"] h s1(1) s2(1)
    by (simp add: pick_next_thread_def)
qed

text \<open>The old thread with its time slice charged.\<close>

definition charged :: "u32 \<Rightarrow> sched \<Rightarrow> u32 \<Rightarrow> sched" where
  "charged now s old =
     upd_thread old (\<lambda>t. t \<lparr> time_slice := time_slice t - (now - last_scheduled_time_ticks s) \<rparr>)
       (s \<lparr> last_scheduled_time_ticks := now \<rparr>)"

lemma next_thread_keeps:
  assumes "cur_thread s = Some c" "t_state (threads s c) = thread_running"
    and "time_slice (threads s c) \<noteq> now - last_scheduled_time_ticks s"
  shows "scheduler_next_thread now s = kret (c, charged now s c)"
proof -
  have "time_slice (threads s c) - (now - last_scheduled_time_ticks s) > 0"
    using assms(3) by (simp add: word_gt_0)
  then show ?thesis
    using assms(1,2) by (simp add: scheduler_next_thread_def current_thread_def charged_def Let_def)
qed

lemma next_thread_expired:
  assumes "cur_thread s = Some c" "t_state (threads s c) = thread_running"
    and "time_slice (threads s c) = now - last_scheduled_time_ticks s"
  shows "scheduler_next_thread now s =
    pick_next_thread (upd_thread c (t_state_update (\<lambda>_. thread_runnable)) (charged now s c))"
  using assms by (simp add: scheduler_next_thread_def current_thread_def charged_def Let_def)

lemma next_thread_not_running:
  assumes "cur_thread s = Some c" "t_state (threads s c) \<noteq> thread_running"
  shows "scheduler_next_thread now s = pick_next_thread (charged now s c)"
  using assms by (simp add: scheduler_next_thread_def current_thread_def charged_def Let_def)

text \<open>
  The situation in which the timer finds the processor: the current thread runs on a fresh
  time slice, and every thread of the run queue can be switched to.
\<close>

definition round_robin_ok :: "u8 \<Rightarrow> sched \<Rightarrow> u32 list \<Rightarrow> u32 list \<Rightarrow> bool" where
  "round_robin_ok vb s rs bs \<longleftrightarrow>
     sched_inv s rs bs
     \<and> (\<forall>t\<in>set rs. tid (threads s t) \<noteq> 0 \<and> \<not> t_eip (threads s t) < ucast vb)
     \<and> (\<exists>c\<in>set rs. cur_thread s = Some c \<and> t_state (threads s c) = thread_running
          \<and> time_slice (threads s c) = TIME_SLICE)"

definition lock_free :: "sched \<Rightarrow> bool" where
  "lock_free s \<longleftrightarrow> owner (sched_spinlock s) = 0 \<and> nested (sched_spinlock s) = 0"

lemma round_robin_lockable: "round_robin_ok vb s rs bs \<Longrightarrow> lock_free s \<Longrightarrow> lockable s"
  by (auto simp: round_robin_ok_def lock_free_def lockable_def current_thread_id_def spinlock_ok_def)

lemma round_robin_next:
  assumes "round_robin_ok vb s (x # xs) bs"
  shows "\<exists>s'. scheduler_next_thread (last_scheduled_time_ticks s + 1) s = kret (x, s')
    \<and> sched_inv s' (xs @ [x]) bs \<and> cur_thread s' = cur_thread s
    \<and> sched_spinlock s' = sched_spinlock s \<and> eflags s' = eflags s
    \<and> last_scheduled_time_ticks s' = last_scheduled_time_ticks s + 1
    \<and> t_state (threads s' x) = thread_running \<and> time_slice (threads s' x) = TIME_SLICE
    \<and> (\<forall>t. tid (threads s' t) = tid (threads s t) \<and> t_eip (threads s' t) = t_eip (threads s t))"
proof -
  obtain c where c: "c \<in> set (x # xs)" "cur_thread s = Some c" "t_state (threads s c) = thread_running"
    "time_slice (threads s c) = TIME_SLICE"
    using assms unfolding round_robin_ok_def by blast
  let ?now = "last_scheduled_time_ticks s + 1"
  let ?s = "upd_thread c (t_state_update (\<lambda>_. thread_runnable)) (charged ?now s c)"
  have inv: "queues s (x # xs) bs" "states_ok s (x # xs) bs"
    using assms by (auto simp: round_robin_ok_def sched_inv_def)
  have "queues ?s (x # xs) bs"
    using inv(1) by (simp add: charged_def queues_def)
  from pick_next_spec [OF this] obtain s' where s': "pick_next_thread ?s = kret (x, s')"
    "moved ?s ((threads ?s)(x := (threads ?s x) \<lparr> time_slice := TIME_SLICE, t_state := thread_running \<rparr>)) (xs @ [x]) bs s'"
    by blast
  have "scheduler_next_thread ?now s = kret (x, s')"
    using next_thread_expired [OF c(2,3)] s'(1) c(4) by (simp add: TIME_SLICE_def)
  moreover have "c \<notin> set bs"
    using c(1) inv(1) by (auto simp: queues_def)
  then have "sched_inv s' (xs @ [x]) bs"
    using s'(2) inv(2) by (auto simp: sched_inv_def moved_def states_ok_def charged_def)
  ultimately show ?thesis
    using s'(2) by (auto simp: moved_def same_rest_def charged_def)
qed

lemma context_switch_ok:
  assumes "\<not> t_eip (threads s t) < ucast vb"
  shows "\<exists>s'. process_context_switch vb t s = kret s' \<and> cur_thread s' = Some t \<and> threads s' = threads s
    \<and> sched_spinlock s' = sched_spinlock s \<and> eflags s' = eflags s
    \<and> last_scheduled_time_ticks s' = last_scheduled_time_ticks s \<and> (\<forall>rs bs. queues s' rs bs = queues s rs bs)"
  using assms by (auto simp: process_context_switch_def thread_context_switch_def Let_def queues_def split: option.splits)

lemma enter_cli_eq: "enter_cli s = (eflags s, s \<lparr> eflags := cli (eflags s) \<rparr>)"
  by (simp add: enter_cli_def interrupts_enter_cli_def cli_def)

lemma queues_cur [simp]: "queues (s \<lparr> cur_thread := c \<rparr>) rs bs \<longleftrightarrow> queues s rs bs"
  by (simp add: queues_def)

lemma yield_step:
  assumes "round_robin_ok vb s (x # xs) bs" "lock_free s"
  shows "\<exists>r s'. scheduler_yield vb (last_scheduled_time_ticks s + 1) s = kret (r, s')
    \<and> round_robin_ok vb s' (xs @ [x]) bs \<and> lock_free s' \<and> cur_thread s' = Some x
    \<and> last_scheduled_time_ticks s' = last_scheduled_time_ticks s + 1"
proof -
  let ?s1 = "s \<lparr> eflags := cli (eflags s) \<rparr>" and ?now = "last_scheduled_time_ticks s + 1"
  have rr: "round_robin_ok vb (locked ?s1) (x # xs) bs" and rr1: "round_robin_ok vb ?s1 (x # xs) bs"
    using assms(1) by (simp_all add: round_robin_ok_def sched_inv_def states_ok_def queues_def)
  have lk: "lockable ?s1"
    using round_robin_lockable [OF rr1] assms(2) by (simp add: lock_free_def)
  obtain s2 where s2: "scheduler_next_thread ?now (locked ?s1) = kret (x, s2)" "sched_inv s2 (xs @ [x]) bs"
    "cur_thread s2 = cur_thread s" "sched_spinlock s2 = sched_spinlock (locked ?s1)" "eflags s2 = eflags (locked ?s1)"
    "last_scheduled_time_ticks s2 = ?now" "t_state (threads s2 x) = thread_running"
    "time_slice (threads s2 x) = TIME_SLICE"
    "\<And>t. tid (threads s2 t) = tid (threads s t) \<and> t_eip (threads s2 t) = t_eip (threads s t)"
    using round_robin_next [OF rr] by auto
  let ?s3 = "unlocked ?s1 s2"
  have un: "scheduler_unlock (eflags ?s1) s2 = kret ?s3"
    using scheduler_unlock_ok [OF lk s2(5,4)] .
  have inv3: "round_robin_ok vb (?s3 \<lparr> cur_thread := Some x \<rparr>) (xs @ [x]) bs"
    using assms(1) s2(2,7,8,9) by (auto simp: round_robin_ok_def sched_inv_def states_ok_def queues_def unlocked_def)
  have y: "scheduler_yield vb ?now s =
      (if Some x \<noteq> cur_thread s
       then krun_bind (process_context_switch vb x ?s3) (\<lambda>s'. kret (Suspended (eflags s), s'))
       else kret (Returned, leave_cli (eflags s) ?s3))"
    using scheduler_lock_ok [OF lk] s2(1,3) un
    by (simp add: scheduler_yield_def enter_cli_eq current_thread_def unlocked_def)
  show ?thesis
  proof (cases "Some x = cur_thread s")
    case True
    have "round_robin_ok vb (leave_cli (eflags s) ?s3) (xs @ [x]) bs"
      using inv3 True s2(3)
      by (auto simp: round_robin_ok_def sched_inv_def states_ok_def queues_def leave_cli_def unlocked_def)
    then show ?thesis
      using y True s2 assms(2) by (auto simp: lock_free_def leave_cli_def unlocked_def)
  next
    case False
    have "\<not> t_eip (threads ?s3 x) < ucast vb"
      using assms(1) s2(9) by (auto simp: round_robin_ok_def unlocked_def)
    then obtain s4 where s4: "process_context_switch vb x ?s3 = kret s4" "cur_thread s4 = Some x"
      "threads s4 = threads ?s3" "sched_spinlock s4 = sched_spinlock ?s3"
      "last_scheduled_time_ticks s4 = last_scheduled_time_ticks ?s3" "\<And>rs bs. queues s4 rs bs = queues ?s3 rs bs"
      using context_switch_ok by blast
    have "round_robin_ok vb s4 (xs @ [x]) bs"
      using inv3 s4(2,3,6) by (simp add: round_robin_ok_def sched_inv_def states_ok_def)
    then show ?thesis
      using y False s4 s2(6) assms(2) by (auto simp: lock_free_def unlocked_def)
  qed
qed

text \<open>A yield on each of \<open>k\<close> consecutive ticks.\<close>

fun tick_yields :: "u8 \<Rightarrow> nat \<Rightarrow> sched \<Rightarrow> sched krun" where
  "tick_yields vb 0 s = kret s"
| "tick_yields vb (Suc k) s =
     krun_bind (tick_yields vb k s) (\<lambda>s.
       krun_bind (scheduler_yield vb (last_scheduled_time_ticks s + 1) s) (\<lambda>(r, s). kret s))"

lemma tick_yields_rotate:
  assumes "round_robin_ok vb s rs bs" "lock_free s"
  shows "\<exists>s'. tick_yields vb k s = kret s' \<and> round_robin_ok vb s' (rotate k rs) bs \<and> lock_free s'
    \<and> (k \<noteq> 0 \<longrightarrow> cur_thread s' = Some (rs ! ((k - 1) mod length rs)))"
proof (induction k)
  case 0
  then show ?case
    using assms by simp
next
  case (Suc k)
  then obtain s' where s': "tick_yields vb k s = kret s'" "round_robin_ok vb s' (rotate k rs) bs" "lock_free s'"
    by blast
  have "rs \<noteq> []"
    using assms(1) by (auto simp: round_robin_ok_def)
  then obtain x xs where x: "rotate k rs = x # xs"
    by (metis list.exhaust rotate_is_Nil_conv)
  have r: "rotate (Suc k) rs = xs @ [x]" "x = rs ! (k mod length rs)"
    using x \<open>rs \<noteq> []\<close> hd_rotate_conv_nth [of rs k] by simp_all
  obtain o' s'' where y: "scheduler_yield vb (last_scheduled_time_ticks s' + 1) s' = kret (o', s'')"
    "round_robin_ok vb s'' (xs @ [x]) bs" "lock_free s''" "cur_thread s'' = Some x"
    using yield_step [OF s'(2) [unfolded x] s'(3)] by blast
  have "tick_yields vb (Suc k) s = kret s''"
    by (simp only: tick_yields.simps s'(1) y(1) krun_bind_simps case_prod_conv)
  moreover have "round_robin_ok vb s'' (rotate (Suc k) rs) bs"
    unfolding r(1) by (fact y(2))
  moreover have "cur_thread s'' = Some (rs ! ((Suc k - 1) mod length rs))"
    unfolding y(4) diff_Suc_1 r(2) ..
  ultimately show ?case
    using y(3) by (intro exI [of _ s''] conjI impI)
qed

text \<open>The context of a new thread lies far behind its stack of 4096 bytes.\<close>

lemma stack_init_beyond: "fst (stack_init old cs flags stack STACK_SIZE func data) = stack + 113680"
  by (simp add: stack_init_def STACK_SIZE_def)

section \<open>Properties\<close>

text \<open>
  C3: the operations on the links of the threads implement two queues.  Blocking a
  thread moves it from the run queue to the end of the blocked queue, waking it moves it to the
  end of the run queue with a new time slice, and the choice of the next thread rotates
  the run queue; the invariant that the queues are disjoint, well linked and hold threads in
  the matching states is preserved, and the lock is given back.
\<close>

theorem scheduler_refines_queues:
  assumes "sched_inv s rs bs" "lockable s" "b \<in> set rs" "w \<in> set bs" "rs = x # xs"
  shows "(\<exists>s'. scheduler_make_blocked b s = kret s' \<and> sched_inv s' (remove1 b rs) (bs @ [b])
        \<and> same_rest s s' \<and> t_state (threads s' b) = thread_blocked)
    \<and> (\<exists>s'. scheduler_make_runnable w s = kret s' \<and> sched_inv s' (rs @ [w]) (remove1 w bs)
        \<and> same_rest s s' \<and> t_state (threads s' w) = thread_runnable \<and> time_slice (threads s' w) = TIME_SLICE)
    \<and> (\<exists>s'. pick_next_thread s = kret (x, s') \<and> sched_inv s' (xs @ [x]) bs
        \<and> same_rest s s' \<and> t_state (threads s' x) = thread_running)"
proof (intro conjI)
  have q: "queues s rs bs" and st: "states_ok s rs bs"
    using assms(1) by (simp_all add: sched_inv_def)
  have d: "distinct rs" "distinct bs"
    by (rule queues_heads(5,6) [OF q])+
  have "set rs \<inter> set bs = {}"
    using q by (simp add: queues_def)
  moreover have "x \<in> set rs"
    using assms(5) by simp
  ultimately have n: "b \<notin> set bs" "w \<notin> set rs" "x \<notin> set bs"
    using assms(3,4) by blast+
  show "\<exists>s'. scheduler_make_blocked b s = kret s' \<and> sched_inv s' (remove1 b rs) (bs @ [b])
        \<and> same_rest s s' \<and> t_state (threads s' b) = thread_blocked"
    using make_blocked_spec [OF assms(1-3)] states_ok_upd [OF st, of _ b _ "remove1 b rs" "bs @ [b]"] d n(1)
    by (auto simp: moved_def sched_inv_def)
  show "\<exists>s'. scheduler_make_runnable w s = kret s' \<and> sched_inv s' (rs @ [w]) (remove1 w bs)
        \<and> same_rest s s' \<and> t_state (threads s' w) = thread_runnable \<and> time_slice (threads s' w) = TIME_SLICE"
    using make_runnable_spec [OF assms(1,2,4)] states_ok_upd [OF st, of _ w _ "rs @ [w]" "remove1 w bs"] d n(2)
    by (auto simp: moved_def sched_inv_def)
  show "\<exists>s'. pick_next_thread s = kret (x, s') \<and> sched_inv s' (xs @ [x]) bs
        \<and> same_rest s s' \<and> t_state (threads s' x) = thread_running"
  proof -
    obtain s' where s': "pick_next_thread s = kret (x, s')"
      "moved s ((threads s)(x := (threads s x) \<lparr> time_slice := TIME_SLICE, t_state := thread_running \<rparr>)) (xs @ [x]) bs s'"
      using pick_next_spec [OF q [unfolded assms(5)]] by blast
    then have "states_ok s' (xs @ [x]) bs"
      using n(3) by (intro states_ok_upd [OF st [unfolded assms(5)]]) (auto simp: moved_def)
    then show ?thesis
      using s' by (auto simp: moved_def sched_inv_def)
  qed
qed

text \<open>Two threads that can run and one that is blocked.\<close>

definition demo_sched :: sched where
  "demo_sched = \<lparr>
     threads = (\<lambda>t. thread0 \<lparr> tid := t, stack_context := (0, context0 \<lparr> c_frame := (c_frame context0) \<lparr> f_eip := 0xC0101000 \<rparr> \<rparr>),
                     t_state := (if t = 3 then thread_blocked else if t = 1 then thread_running else thread_runnable),
                     time_slice := 1 \<rparr>),
     sched_next = (\<lambda>t. if t = 1 then Some 2 else None),
     sched_prev = (\<lambda>t. if t = 1 then Some 2 else if t = 2 then Some 1 else if t = 3 then Some 3 else None),
     wait_next = (\<lambda>_. None), wait_prev = (\<lambda>_. None),
     runnable_threads = Some 1, blocked_threads = Some 3,
     sched_spinlock = \<lparr> owner = 0, nested = 0 \<rparr>, last_scheduled_time_ticks = 7,
     cur_thread = Some 1, cur_proc = None, next_tid = 4, eflags = 0x202, tss_esp0 = 0, kfreed = [] \<rparr>"

lemma demo_sched_inv: "sched_inv demo_sched [1, 2] [3]"
  by (auto simp: sched_inv_def queues_def states_ok_def demo_sched_def dlst_def thread0_def)

lemma demo_sched_lockable: "lockable demo_sched"
  by (simp add: lockable_def current_thread_id_def spinlock_ok_def demo_sched_def)

theorem scheduler_refines_queues_witness:
  "\<exists>s. scheduler_make_blocked 2 demo_sched = kret s \<and> sched_inv s [1] [3, 2]"
  using scheduler_refines_queues [OF demo_sched_inv demo_sched_lockable, of 2 3 1 "[2]"] by auto

text \<open>
  C12: round robin.  With a yield on every tick, the thread at place \<open>i\<close> of the run queue has the
  processor after \<open>i + 1\<close> ticks, and again after each further \<open>length rs\<close> ticks: no
  runnable thread waits longer than one turn of the queue.
\<close>

theorem round_robin_fair:
  assumes "round_robin_ok vb s rs bs" "lock_free s" "i < length rs"
  shows "\<exists>s'. tick_yields vb (Suc i + m * length rs) s = kret s' \<and> cur_thread s' = Some (rs ! i)
    \<and> t_state (threads s' (rs ! i)) = thread_running"
proof -
  obtain s' where s': "tick_yields vb (Suc i + m * length rs) s = kret s'"
    "round_robin_ok vb s' (rotate (Suc i + m * length rs) rs) bs"
    "cur_thread s' = Some (rs ! ((i + m * length rs) mod length rs))"
    using tick_yields_rotate [OF assms(1,2), of "Suc i + m * length rs"] by auto
  moreover have "(i + m * length rs) mod length rs = i"
    using assms(3) by simp
  ultimately show ?thesis
    by (auto simp: round_robin_ok_def)
qed

theorem round_robin_fair_witness:
  "\<exists>s. tick_yields 0x12 4 demo_sched = kret s \<and> cur_thread s = Some 2"
proof -
  have "round_robin_ok 0x12 demo_sched [1, 2] [3]" "lock_free demo_sched"
    using demo_sched_inv by (simp_all add: round_robin_ok_def lock_free_def demo_sched_def TIME_SLICE_def)
  then show ?thesis
    using round_robin_fair [of "0x12" demo_sched "[1, 2]" "[3]" 1 1] by (auto simp: numeral_eq_Suc)
qed

text \<open>
  The time slice is unsigned, so that a thread that has been running for more than one tick,
  because interrupts were disabled or because the scheduler was not called, is not
  preempted: its time slice wraps around and it keeps the processor, whoever else is in the run queue.
\<close>

theorem time_slice_wraps:
  assumes "cur_thread s = Some c" "t_state (threads s c) = thread_running" "time_slice (threads s c) = TIME_SLICE"
    and "1 < now - last_scheduled_time_ticks s"
  shows "\<exists>s'. scheduler_next_thread now s = kret (c, s')
    \<and> unat (time_slice (threads s' c)) = 2 ^ 32 + 1 - unat (now - last_scheduled_time_ticks s)"
proof -
  let ?e = "now - last_scheduled_time_ticks s"
  have "unat (1 - ?e) = unat (1 :: u32) + 2 ^ LENGTH(32) - unat ?e"
    using assms(4) by (intro unat_diff_less) (simp add: word_less_nat_alt)
  then show ?thesis
    using next_thread_keeps [OF assms(1,2), of now] assms(3,4)
    by (auto simp: charged_def TIME_SLICE_def)
qed

theorem time_slice_wraps_witness:
  "\<exists>s. scheduler_next_thread 9 demo_sched = kret (1, s) \<and> unat (time_slice (threads s 1)) = 2 ^ 32 - 1"
proof -
  obtain s where s: "scheduler_next_thread 9 demo_sched = kret (1, s)"
    "unat (time_slice (threads s 1)) = 2 ^ 32 + 1 - unat (9 - last_scheduled_time_ticks demo_sched)"
    using time_slice_wraps [of demo_sched 1 9] by (auto simp: demo_sched_def TIME_SLICE_def)
  then have "unat (time_slice (threads s 1)) = 2 ^ 32 - 1"
    by (simp add: demo_sched_def)
  then show ?thesis
    using s(1) by blast
qed

end
