(* ===== verification/Mutex.thy ===== *)
theory Mutex
  imports Sched
begin

text \<open>
  kern/mutex.c on top of the scheduler.  The threads that wait for a mutex are
  linked through \<open>wait_queue_next\<close> and \<open>wait_queue_prev\<close>.
\<close>

section \<open>Definitions\<close>

record mutex =
  m_owner :: u32
  m_nested :: u32
  waiting_threads :: "u32 option"
  waiting_threads_lock :: spinlock

definition mutex_init :: "mutex \<Rightarrow> mutex" where
  "mutex_init m = m \<lparr> m_owner := 0, m_nested := 0, waiting_threads := None,
     waiting_threads_lock := \<lparr> owner = 0, nested = 0 \<rparr> \<rparr>"

definition mutex_lock_queue :: "mutex \<Rightarrow> sched \<Rightarrow> (u32 \<times> mutex \<times> sched) krun" where
  "mutex_lock_queue m s =
     krun_bind (spinlock_acquire (current_thread_id s) (eflags s) (waiting_threads_lock m)) (\<lambda>(flags, ef, l).
       kret (flags, m \<lparr> waiting_threads_lock := l \<rparr>, s \<lparr> eflags := ef \<rparr>))"

definition mutex_unlock_queue :: "u32 \<Rightarrow> mutex \<Rightarrow> sched \<Rightarrow> (mutex \<times> sched) krun" where
  "mutex_unlock_queue flags m s =
     krun_bind (Some (spinlock_release flags (eflags s) (waiting_threads_lock m))) (\<lambda>(ef, l).
       kret (m \<lparr> waiting_threads_lock := l \<rparr>, s \<lparr> eflags := ef \<rparr>))"

definition mutex_add_observer :: "u32 \<Rightarrow> mutex \<Rightarrow> sched \<Rightarrow> (mutex \<times> sched) krun" where
  "mutex_add_observer t m s =
     krun_bind (krun_assert (wait_next s t = None) ''t->wait_queue_next == 0'') (\<lambda>_.
       krun_bind (mutex_lock_queue m s) (\<lambda>(flags, m, s).
         krun_bind (DL_APPEND2 (wait_next s, wait_prev s, waiting_threads m) t) (\<lambda>(n, p, h).
           mutex_unlock_queue flags (m \<lparr> waiting_threads := h \<rparr>) (s \<lparr> wait_next := n, wait_prev := p \<rparr>))))"

definition mutex_remove_observer :: "u32 \<Rightarrow> mutex \<Rightarrow> sched \<Rightarrow> (mutex \<times> sched) krun" where
  "mutex_remove_observer t m s =
     krun_bind (mutex_lock_queue m s) (\<lambda>(flags, m, s).
       krun_bind (DL_DELETE2 (wait_next s, wait_prev s, waiting_threads m) t) (\<lambda>(n, p, h).
         mutex_unlock_queue flags (m \<lparr> waiting_threads := h \<rparr>)
           (s \<lparr> wait_next := n(t := None), wait_prev := p(t := None) \<rparr>)))"

text \<open>The compare and swap of the owner field: the old value and the mutex.\<close>

definition cas_mutex :: "u32 \<Rightarrow> mutex \<Rightarrow> u32 \<times> mutex" where
  "cas_mutex me m = (m_owner m, if m_owner m = 0 then m \<lparr> m_owner := me \<rparr> else m)"

definition mutex_trylock :: "mutex \<Rightarrow> sched \<Rightarrow> (bool \<times> mutex) krun" where
  "mutex_trylock m s =
     (case current_thread s of
        None \<Rightarrow> kfail (Assert ''me'')
      | Some me \<Rightarrow>
          let (old, m) = cas_mutex (tid (threads s me)) m in
          if old = tid (threads s me) then kret (True, m \<lparr> m_nested := m_nested m + 1 \<rparr>)
          else kret (False, m))"

text \<open>
  \<open>mutex_acquire\<close> in the parts between its context switches: a turn of the wait, which
  ends with the mutex or with the thread suspended, and the call up to its first turn.
\<close>

definition mutex_wait_turn :: "u8 \<Rightarrow> u32 \<Rightarrow> u32 \<Rightarrow> u32 \<Rightarrow> mutex \<Rightarrow> sched \<Rightarrow> (outcome \<times> mutex \<times> sched) krun" where
  "mutex_wait_turn vma_byte now flags1 me m s =
     krun_bind (scheduler_wait_object_turn vma_byte now flags1 (tid (threads s me)) (m_owner m) s) (\<lambda>(w, r, s).
       let m = m \<lparr> m_owner := w \<rparr> in
       case r of
         Suspended flags \<Rightarrow> kret (Suspended flags, m, s)
       | Returned \<Rightarrow>
           (case current_thread s of
              None \<Rightarrow> kfail NullDeref
            | Some cur \<Rightarrow>
                krun_bind (mutex_remove_observer cur m s) (\<lambda>(m, s).
                  kret (Returned, m \<lparr> m_nested := m_nested m + 1 \<rparr>, s))))"

definition mutex_acquire :: "u8 \<Rightarrow> u32 \<Rightarrow> mutex \<Rightarrow> sched \<Rightarrow> (outcome \<times> mutex \<times> sched) krun" where
  "mutex_acquire vma_byte now m s =
     (case current_thread s of
        None \<Rightarrow> kfail (Assert ''me'')
      | Some me \<Rightarrow>
          let (old, m) = cas_mutex (tid (threads s me)) m in
          if old \<noteq> tid (threads s me) then
            krun_bind (mutex_add_observer me m s) (\<lambda>(m, s).
              let (flags1, s) = enter_cli s in mutex_wait_turn vma_byte now flags1 me m s)
          else kret (Returned, m \<lparr> m_nested := m_nested m + 1 \<rparr>, s))"

definition mutex_release_and_wake_next_thread :: "mutex \<Rightarrow> sched \<Rightarrow> (mutex \<times> sched) krun" where
  "mutex_release_and_wake_next_thread m s =
     krun_bind (mutex_lock_queue m s) (\<lambda>(flags, m, s).
       case waiting_threads m of
         Some next_thread \<Rightarrow>
           (let m = m \<lparr> m_owner := tid (threads s next_thread) \<rparr> in
            krun_bind (scheduler_make_runnable next_thread s) (mutex_unlock_queue flags m))
       | None \<Rightarrow> mutex_unlock_queue flags (m \<lparr> m_owner := 0 \<rparr>) s)"

definition mutex_release :: "mutex \<Rightarrow> sched \<Rightarrow> (mutex \<times> sched) krun" where
  "mutex_release m s =
     (let m = m \<lparr> m_nested := m_nested m - 1 \<rparr> in
      if m_nested m = 0 then mutex_release_and_wake_next_thread m s else kret (m, s))"

section \<open>The queue of a mutex\<close>

definition waiters :: "mutex \<Rightarrow> sched \<Rightarrow> u32 list \<Rightarrow> bool" where
  "waiters m s ws \<longleftrightarrow> dlst (wait_next s, wait_prev s, waiting_threads m) ws"

definition queue_lockable :: "mutex \<Rightarrow> sched \<Rightarrow> bool" where
  "queue_lockable m s \<longleftrightarrow>
     current_thread_id s \<noteq> 0 \<and> owner (waiting_threads_lock m) = 0 \<and> nested (waiting_threads_lock m) = 0"

definition queue_locked :: "mutex \<Rightarrow> sched \<Rightarrow> mutex" where
  "queue_locked m s = m \<lparr> waiting_threads_lock := \<lparr> owner = current_thread_id s, nested = 1 \<rparr> \<rparr>"

lemma lock_queue_ok:
  "queue_lockable m s \<Longrightarrow>
   mutex_lock_queue m s = kret (eflags s, queue_locked m s, s \<lparr> eflags := cli (eflags s) \<rparr>)"
  by (cases "waiting_threads_lock m")
    (simp add: mutex_lock_queue_def queue_lockable_def acquire_own queue_locked_def)

lemma unlock_queue_ok:
  assumes "queue_lockable m s" "waiting_threads_lock m' = waiting_threads_lock (queue_locked m s)"
    and "eflags s' = cli (eflags s)"
  shows "mutex_unlock_queue (eflags s) m' s' =
    kret (m' \<lparr> waiting_threads_lock := waiting_threads_lock m \<rparr>, s' \<lparr> eflags := eflags s \<rparr>)"
proof -
  let ?l = "waiting_threads_lock m"
  have "?l \<lparr> owner := current_thread_id s, nested := nested ?l + 1 \<rparr> = waiting_threads_lock (queue_locked m s)"
    using assms(1) by (cases ?l) (simp add: queue_lockable_def queue_locked_def)
  then have "spinlock_release (eflags s) (cli (eflags s)) (waiting_threads_lock (queue_locked m s)) = Inr (eflags s, ?l)"
    using release_own [of ?l "current_thread_id s" "cli (eflags s)" "eflags s"] assms(1)
    by (simp add: queue_lockable_def spinlock_ok_def)
  then show ?thesis
    using assms(2,3) by (simp add: mutex_unlock_queue_def)
qed

lemma add_observer_ok:
  assumes "waiters m s ws" "t \<notin> set ws" "wait_next s t = None" "queue_lockable m s"
  shows "\<exists>n p h. mutex_add_observer t m s =
      kret (m \<lparr> waiting_threads := h \<rparr>, s \<lparr> wait_next := n, wait_prev := p \<rparr>)
    \<and> dlst (n, p, h) (ws @ [t])"
proof -
  obtain n p h where "DL_APPEND2 (wait_next s, wait_prev s, waiting_threads m) t = Some (Inr (n, p, h))"
    "dlst (n, p, h) (ws @ [t])"
    using append_frame [of "wait_next s" "wait_prev s" "waiting_threads m" ws t] assms(1,2)
    unfolding waiters_def by blast
  moreover have "waiting_threads (queue_locked m s) = waiting_threads m"
    by (simp add: queue_locked_def)
  ultimately show ?thesis
    using assms(3,4) lock_queue_ok [OF assms(4)]
      unlock_queue_ok [OF assms(4), of "(queue_locked m s) \<lparr> waiting_threads := h \<rparr>"
        "s \<lparr> eflags := cli (eflags s), wait_next := n, wait_prev := p \<rparr>"]
    by (auto simp: mutex_add_observer_def queue_locked_def)
qed

lemma remove_observer_ok:
  assumes "waiters m s ws" "t \<in> set ws" "queue_lockable m s"
  shows "\<exists>n p h. mutex_remove_observer t m s =
      kret (m \<lparr> waiting_threads := h \<rparr>, s \<lparr> wait_next := n(t := None), wait_prev := p(t := None) \<rparr>)
    \<and> dlst (n(t := None), p(t := None), h) (remove1 t ws)"
proof -
  have dw: "dlst (wait_next s, wait_prev s, waiting_threads m) ws"
    using assms(1) by (simp add: waiters_def)
  obtain n p h where d: "DL_DELETE2 (wait_next s, wait_prev s, waiting_threads m) t = Some (Inr (n, p, h))"
    "dlst (n, p, h) (remove1 t ws)"
    using delete_frame [OF dw assms(2)] by blast
  have "t \<notin> set (remove1 t ws)"
    using dlst_distinct [OF dw] by simp
  then have "dlst (n(t := None), p(t := None), h) (remove1 t ws)"
    using d(2) by (subst dlst_cong [of _ _ n _ p]) auto
  moreover have "waiting_threads (queue_locked m s) = waiting_threads m"
    by (simp add: queue_locked_def)
  ultimately show ?thesis
    using d(1) assms(3) lock_queue_ok [OF assms(3)]
      unlock_queue_ok [OF assms(3), of "(queue_locked m s) \<lparr> waiting_threads := h \<rparr>"
        "s \<lparr> eflags := cli (eflags s), wait_next := n(t := None), wait_prev := p(t := None) \<rparr>"]
    by (auto simp: mutex_remove_observer_def queue_locked_def)
qed

section \<open>Waiting\<close>

lemma mutex_upd_commute:
  "m \<lparr> waiting_threads := h, m_owner := w \<rparr> = m \<lparr> m_owner := w, waiting_threads := h \<rparr>"
  by (cases m) simp

lemma unlocked_locked [simp]: "unlocked s (locked s) = s"
  by (simp add: unlocked_def locked_def)

lemma wait_turn_owned:
  assumes "lockable s"
  shows "scheduler_wait_object_turn vb now flags1 value value s = kret (value, Returned, leave_cli flags1 s)"
  using assms scheduler_unlock_ok [OF assms, of "locked s"]
  by (simp add: scheduler_wait_object_turn_def scheduler_lock_ok Let_def)

lemma lock_free_lockable:
  assumes "lock_free s" "current_thread_id s \<noteq> 0"
  shows "lockable s" "lockable (locked s)"
  using assms
  by (auto simp: lock_free_def lockable_def spinlock_ok_def locked_def current_thread_id_def
      split: option.splits)

section \<open>Properties\<close>


definition demo_mutex :: mutex where
  "demo_mutex = \<lparr> m_owner = 0, m_nested = 0, waiting_threads = None,
     waiting_threads_lock = \<lparr> owner = 0, nested = 0 \<rparr> \<rparr>"

lemma demo_mutex_ok:
  "waiters demo_mutex demo_sched []" "queue_lockable demo_mutex demo_sched"
  by (simp_all add: waiters_def dlst_def queue_lockable_def demo_mutex_def demo_sched_def current_thread_id_def)


text \<open>
  C13: releasing a mutex for which threads wait hands it to the first of them, in the order in which they
  asked: that thread is the owner before it runs again, and it is moved to the run
  queue; the others keep waiting.
\<close>

theorem mutex_handover:
  assumes "sched_inv s rs bs" "lockable s" "queue_lockable m s" "waiters m s (t # ts)" "t \<in> set bs" "m_nested m = 1"
  shows "\<exists>m' s'. mutex_release m s = kret (m', s') \<and> m_owner m' = tid (threads s t) \<and> m_nested m' = 0
    \<and> waiters m' s' (t # ts) \<and> queues s' (rs @ [t]) (remove1 t bs)
    \<and> t_state (threads s' t) = thread_runnable \<and> cur_thread s' = cur_thread s"
proof -
  let ?m = "m \<lparr> m_nested := 0 \<rparr>" and ?s = "s \<lparr> eflags := cli (eflags s) \<rparr>"
  have ql: "queue_lockable ?m s"
    using assms(3) by (simp add: queue_lockable_def)
  have w: "waiting_threads (queue_locked ?m s) = Some t"
    using dlst_head [of "wait_next s" "wait_prev s" "waiting_threads m" "t # ts"] assms(4)
    by (simp add: queue_locked_def waiters_def)
  have "sched_inv ?s rs bs"
    using assms(1) by (simp add: sched_inv_def queues_def states_ok_def)
  moreover have "lockable ?s"
    using assms(2) by (cases "cur_thread s") (simp_all add: lockable_def current_thread_id_def)
  ultimately obtain s1 where s1: "scheduler_make_runnable t ?s = kret s1"
    "moved ?s ((threads s)(t := (threads s t) \<lparr> t_state := thread_runnable, time_slice := TIME_SLICE \<rparr>))
       (rs @ [t]) (remove1 t bs) s1"
    using make_runnable_spec [of ?s rs bs t] assms(5) by auto
  let ?m1 = "(queue_locked ?m s) \<lparr> m_owner := tid (threads s t) \<rparr>"
  have "mutex_unlock_queue (eflags s) ?m1 s1 =
      kret (?m1 \<lparr> waiting_threads_lock := waiting_threads_lock ?m \<rparr>, s1 \<lparr> eflags := eflags s \<rparr>)"
    using unlock_queue_ok [OF ql, of ?m1 s1] s1(2) by (simp add: moved_def same_rest_def)
  then have "mutex_release m s =
      kret (?m1 \<lparr> waiting_threads_lock := waiting_threads_lock ?m \<rparr>, s1 \<lparr> eflags := eflags s \<rparr>)"
    using assms(6) lock_queue_ok [OF ql] w s1(1)
    by (simp add: mutex_release_def mutex_release_and_wake_next_thread_def)
  then show ?thesis
    using s1(2) assms(4) by (auto simp: moved_def same_rest_def waiters_def queues_def queue_locked_def)
qed

theorem mutex_handover_witness:
  "\<exists>m s. mutex_release (demo_mutex \<lparr> m_owner := 1, m_nested := 1, waiting_threads := Some 3 \<rparr>)
      (demo_sched \<lparr> wait_prev := (\<lambda>t. if t = 3 then Some 3 else None) \<rparr>) = kret (m, s) \<and> m_owner m = 3"
proof -
  let ?m = "demo_mutex \<lparr> m_owner := 1, m_nested := 1, waiting_threads := Some 3 \<rparr>"
  let ?s = "demo_sched \<lparr> wait_prev := (\<lambda>t. if t = 3 then Some 3 else None) \<rparr>"
  have "sched_inv ?s [1, 2] [3]" "lockable ?s"
    using demo_sched_inv demo_sched_lockable
    by (simp_all add: sched_inv_def queues_def states_ok_def demo_sched_def lockable_def current_thread_id_def)
  moreover have "queue_lockable ?m ?s" "waiters ?m ?s [3]" "m_nested ?m = 1" "tid (threads ?s 3) = 3"
    by (simp_all add: waiters_def dlst_def queue_lockable_def demo_mutex_def demo_sched_def current_thread_id_def)
  ultimately show ?thesis
    using mutex_handover [of ?s "[1, 2]" "[3]" ?m 3 "[]"] by auto
qed

text \<open>
  \<open>mutex_trylock\<close> fails on a free mutex and takes it all the same: it returns false with the caller
  recorded as the owner, and only a second call returns true.
\<close>

theorem mutex_trylock_free:
  assumes "cur_thread s = Some c" "tid (threads s c) \<noteq> 0" "m_owner m = 0"
  shows "mutex_trylock m s = kret (False, m \<lparr> m_owner := tid (threads s c) \<rparr>)
    \<and> mutex_trylock (m \<lparr> m_owner := tid (threads s c) \<rparr>) s =
        kret (True, m \<lparr> m_owner := tid (threads s c), m_nested := m_nested m + 1 \<rparr>)"
  using assms by (auto simp: mutex_trylock_def current_thread_def cas_mutex_def)

theorem mutex_trylock_free_witness:
  "\<exists>m. mutex_trylock demo_mutex demo_sched = kret (False, m) \<and> m_owner m = 1 \<and> m_nested m = 0"
  using mutex_trylock_free [of demo_sched 1 demo_mutex] by (simp add: demo_sched_def demo_mutex_def)

text \<open>
  A lost wake-up.  When the owner releases the mutex between the first attempt of a thread and its wait, so that the
  wait finds the owner field zero, the thread becomes the owner and is blocked by the same turn of the
  loop: the compare and swap stores the new owner but returns the old one.
\<close>

theorem wait_on_free_object_blocks:
  assumes "sched_inv s rs bs" "lock_free s" "cur_thread s = Some c" "tid (threads s c) \<noteq> 0" "c \<in> set rs"
    and "remove1 c rs = x # xs" "\<not> t_eip (threads s x) < ucast vb" "x \<noteq> c"
  shows "\<exists>s'. scheduler_wait_object_turn vb now flags1 (tid (threads s c)) 0 s = kret (tid (threads s c), Suspended flags1, s')
    \<and> queues s' (xs @ [x]) (bs @ [c]) \<and> t_state (threads s' c) = thread_blocked \<and> cur_thread s' = Some x"
proof -
  have id: "current_thread_id s \<noteq> 0"
    using assms(3,4) by (simp add: current_thread_id_def)
  note lk = lock_free_lockable [OF assms(2) id]
  have "sched_inv (locked s) rs bs"
    using assms(1) by (simp add: sched_inv_def states_ok_def)
  from make_blocked_spec [OF this lk(2) assms(5)] obtain s1 where s1: "scheduler_make_blocked c (locked s) = kret s1"
    "moved (locked s) ((threads s)(c := (threads s c) \<lparr> t_state := thread_blocked \<rparr>)) (x # xs) (bs @ [c]) s1"
    unfolding assms(6) by auto
  have c1: "cur_thread s1 = Some c" "t_state (threads s1 c) \<noteq> thread_running"
    using s1(2) assms(3) by (simp_all add: moved_def same_rest_def)
  have "queues (charged now s1 c) (x # xs) (bs @ [c])"
    using s1(2) by (simp add: charged_def moved_def queues_def)
  then obtain s2 where s2: "pick_next_thread (charged now s1 c) = kret (x, s2)"
    "moved (charged now s1 c) ((threads (charged now s1 c))(x := (threads (charged now s1 c) x)
        \<lparr> time_slice := TIME_SLICE, t_state := thread_running \<rparr>)) (xs @ [x]) (bs @ [c]) s2"
    using pick_next_spec by blast
  have "eflags s2 = eflags (locked s)" "sched_spinlock s2 = sched_spinlock (locked s)"
    using s1(2) s2(2) by (simp_all add: moved_def same_rest_def charged_def)
  then have un: "scheduler_unlock (eflags s) s2 = kret (unlocked s s2)"
    by (rule scheduler_unlock_ok [OF lk(1)])
  have "\<not> t_eip (threads (unlocked s s2) x) < ucast vb"
    using s1(2) s2(2) assms(7,8) by (simp add: moved_def charged_def unlocked_def)
  then obtain s3 where s3: "process_context_switch vb x (unlocked s s2) = kret s3" "cur_thread s3 = Some x"
    "threads s3 = threads (unlocked s s2)" "\<And>rs bs. queues s3 rs bs = queues (unlocked s s2) rs bs"
    using context_switch_ok by blast
  have "scheduler_wait_object_turn vb now flags1 (tid (threads s c)) 0 s = kret (tid (threads s c), Suspended flags1, s3)"
    using scheduler_lock_ok [OF lk(1)] s1(1) next_thread_not_running [OF c1] s2(1) un s3(1) assms(3,4)
    by (simp add: scheduler_wait_object_turn_def Let_def current_thread_def)
  moreover have "queues (unlocked s s2) (xs @ [x]) (bs @ [c])" "threads (unlocked s s2) = threads s2"
    using s2(2) by (simp_all add: moved_def unlocked_def queues_def)
  ultimately show ?thesis
    using s1(2) s2(2) s3 assms(8) by (auto simp: moved_def charged_def)
qed

theorem wait_on_free_object_blocks_witness:
  "\<exists>s. scheduler_wait_object_turn 0 8 0x202 1 0 demo_sched = kret (1, Suspended 0x202, s)
     \<and> t_state (threads s 1) = thread_blocked \<and> cur_thread s = Some 2"
proof -
  have "lock_free demo_sched" "cur_thread demo_sched = Some 1" "tid (threads demo_sched 1) = 1"
    "\<not> t_eip (threads demo_sched 2) < ucast (0 :: u8)"
    by (simp_all add: lock_free_def demo_sched_def)
  then show ?thesis
    using wait_on_free_object_blocks [OF demo_sched_inv, of 1 2 "[]" 0 8 "0x202"] by auto
qed

end
