(* ===== verification/Process.thy ===== *)
theory Process
  imports Sched
begin

text \<open>
  Processes: \<open>kern/process.c\<close>, and \<open>thread_spawn\<close> of \<open>kern/thread.c\<close>, which adds a thread to one.

  A process is on three lists: all processes, linked by \<open>next\<close>; the children of its
  parent, linked by \<open>sibling\<close>; and it has a list of threads, linked by the threads' own
  \<open>next\<close>.  The addresses \<open>kmalloc\<close> returns are arguments, zero on failure.
\<close>

section \<open>Definitions\<close>

datatype process_state = process_created | process_alive | process_dead

record process =
  p_threads :: "u32 option"
  parent :: "u32 option"
  children :: "u32 option"
  pid :: u32
  p_state :: process_state
  p_exit_code :: u32

record proc_table =
  procs :: "u32 \<Rightarrow> process"
  proc_next :: "u32 links"
  sibling :: "u32 links"
  thread_next :: "u32 links"
  processes :: "u32 option"
  next_pid :: u32

definition process0 :: process where
  "process0 = \<lparr> p_threads = None, parent = None, children = None, pid = 0, p_state = process_created,
     p_exit_code = 0 \<rparr>"

definition upd_proc :: "u32 \<Rightarrow> (process \<Rightarrow> process) \<Rightarrow> proc_table \<Rightarrow> proc_table" where
  "upd_proc p f s = s \<lparr> procs := (procs s)(p := f (procs s p)) \<rparr>"

text \<open>The structure is cleared, its links included.\<close>

definition process_alloc :: "u32 \<Rightarrow> proc_table \<Rightarrow> proc_table" where
  "process_alloc p s =
     (if p \<noteq> 0 then (upd_proc p (\<lambda>_. process0) s)
        \<lparr> proc_next := (proc_next s)(p := None), sibling := (sibling s)(p := None) \<rparr>
      else s)"

definition process_add_process :: "u32 \<Rightarrow> proc_table \<Rightarrow> proc_table krun" where
  "process_add_process p s =
     krun_bind (LL_PREPEND2 (proc_next s, processes s) p) (\<lambda>(n, h). kret (s \<lparr> proc_next := n, processes := h \<rparr>))"

definition process_remove_process :: "u32 \<Rightarrow> proc_table \<Rightarrow> proc_table krun" where
  "process_remove_process p s =
     krun_bind (LL_DELETE2 (proc_next s, processes s) p) (\<lambda>(n, h). kret (s \<lparr> proc_next := n, processes := h \<rparr>))"

definition process_add_child :: "u32 \<Rightarrow> u32 \<Rightarrow> proc_table \<Rightarrow> proc_table krun" where
  "process_add_child par child s =
     (let s = upd_proc child (\<lambda>p. p \<lparr> parent := Some par \<rparr>) s in
      krun_bind (LL_PREPEND2 (sibling s, children (procs s par)) child) (\<lambda>(n, h).
        kret (upd_proc par (\<lambda>p. p \<lparr> children := h \<rparr>) (s \<lparr> sibling := n \<rparr>))))"

partial_function (option) pid_available_from :: "proc_table \<Rightarrow> u32 option \<Rightarrow> u32 \<Rightarrow> bool option" where
  "pid_available_from s p i =
     (case p of
        None \<Rightarrow> Some True
      | Some p \<Rightarrow> if pid (procs s p) = i then Some False else pid_available_from s (proc_next s p) i)"

definition process_pid_available :: "u32 \<Rightarrow> proc_table \<Rightarrow> bool option" where
  "process_pid_available i s = pid_available_from s (processes s) i"

text \<open>
  The loop of \<open>process_next_pid\<close>, with the number it settles on.  The function has no return
  statement, so that its caller gets whatever is in the register of the result: \<open>eax\<close>.
\<close>

partial_function (option) next_pid_loop :: "proc_table \<Rightarrow> (u32 \<times> proc_table) option" where
  "next_pid_loop s =
     Option.bind (process_pid_available (next_pid s) (s \<lparr> next_pid := next_pid s + 1 \<rparr>)) (\<lambda>free.
       if \<not> free then next_pid_loop (s \<lparr> next_pid := next_pid s + 1 \<rparr>)
       else Some (next_pid s, s \<lparr> next_pid := next_pid s + 1 \<rparr>))"

definition process_next_pid :: "u32 \<Rightarrow> proc_table \<Rightarrow> (u32 \<times> proc_table) krun" where
  "process_next_pid eax s = (case next_pid_loop s of None \<Rightarrow> None | Some (_, s) \<Rightarrow> kret (eax, s))"

definition process_fork :: "u32 \<Rightarrow> u32 \<Rightarrow> u32 \<Rightarrow> proc_table \<Rightarrow> (u32 \<times> proc_table) krun" where
  "process_fork child eax p s =
     (let s = process_alloc child s in
      krun_bind (process_next_pid eax s) (\<lambda>(i, s).
        if child = 0 then kfail NullDeref
        else
          let s = upd_proc child (\<lambda>c. c \<lparr> pid := i, children := None \<rparr>) s in
          krun_bind (process_add_child p child s) (\<lambda>s.
            krun_bind (process_add_process child s) (\<lambda>s. kret (child, s)))))"

text \<open>
  The loop of \<open>process_exit\<close> walks the siblings, but takes each child off by \<open>LL_DELETE\<close>,
  which follows the links of the list of all processes.
\<close>

partial_function (option) exit_children :: "u32 \<Rightarrow> u32 \<Rightarrow> u32 option \<Rightarrow> proc_table \<Rightarrow> proc_table krun" where
  "exit_children p par child s =
     (case child of
        None \<Rightarrow> kret s
      | Some c \<Rightarrow>
          (let tmp = sibling s c in
           case LL_DELETE2 (proc_next s, children (procs s p)) c of
             None \<Rightarrow> None
           | Some (Inl e) \<Rightarrow> kfail e
           | Some (Inr (n, h)) \<Rightarrow>
               (case process_add_child par c (upd_proc p (\<lambda>q. q \<lparr> children := h \<rparr>) (s \<lparr> proc_next := n \<rparr>)) of
                  None \<Rightarrow> None
                | Some (Inl e) \<Rightarrow> kfail e
                | Some (Inr s) \<Rightarrow> exit_children p par tmp s)))"

definition process_exit :: "u32 \<Rightarrow> proc_table \<Rightarrow> proc_table krun" where
  "process_exit p s =
     krun_bind (krun_assert (pid (procs s p) \<noteq> 0) ''p->pid'') (\<lambda>_.
       case parent (procs s p) of
         None \<Rightarrow> kfail (Assert ''p->parent'')
       | Some par \<Rightarrow> exit_children p par (children (procs s p)) s)"

definition process_add_thread :: "u32 \<Rightarrow> u32 \<Rightarrow> proc_table \<Rightarrow> sched \<Rightarrow> (proc_table \<times> sched) krun" where
  "process_add_thread p t s k =
     (let k = upd_thread t (\<lambda>th. th \<lparr> t_proc := Some p \<rparr>) k in
      krun_bind (LL_PREPEND2 (thread_next s, p_threads (procs s p)) t) (\<lambda>(n, h).
        kret (upd_proc p (\<lambda>q. q \<lparr> p_threads := h \<rparr>) (s \<lparr> thread_next := n \<rparr>), k)))"

definition process_remove_thread :: "u32 \<Rightarrow> u32 \<Rightarrow> proc_table \<Rightarrow> proc_table krun" where
  "process_remove_thread p t s =
     krun_bind (LL_DELETE2 (thread_next s, p_threads (procs s p)) t) (\<lambda>(n, h).
       kret (upd_proc p (\<lambda>q. q \<lparr> p_threads := h \<rparr>) (s \<lparr> thread_next := n \<rparr>)))"

definition thread_spawn ::
    "ctx \<Rightarrow> u16 \<Rightarrow> u32 \<Rightarrow> u32 \<Rightarrow> u32 \<Rightarrow> u32 \<Rightarrow> u32 \<Rightarrow> u32 \<Rightarrow> u32 \<Rightarrow> proc_table \<Rightarrow> sched
      \<Rightarrow> (u32 \<times> proc_table \<times> sched) krun" where
  "thread_spawn old cs t stack kernel_stack entry_point p f data s k =
     (let k = thread_alloc t k in
      if t = 0 then kret (0, s, k)
      else
        let (r, k) = thread_init old cs stack kernel_stack entry_point t f data k in
        if r \<noteq> 0 then kret (0, s, thread_free t k)
        else
          krun_bind (process_add_thread p t s k) (\<lambda>(s, k).
            krun_bind (thread_start t k) (\<lambda>k. kret (t, s, k))))"

section \<open>Process numbers\<close>

lemma pid_available_from_lst:
  "lst (proc_next s) h ps \<Longrightarrow> pid_available_from s h i = Some (i \<notin> (\<lambda>p. pid (procs s p)) ` set ps)"
proof (induction ps arbitrary: h)
  case Nil
  then show ?case
    by (subst pid_available_from.simps) simp
next
  case (Cons p ps)
  then have "h = Some p" "lst (proc_next s) (proc_next s p) ps"
    by simp_all
  with Cons.IH show ?case
    by (subst pid_available_from.simps) auto
qed

definition pids :: "proc_table \<Rightarrow> u32 list \<Rightarrow> u32 set" where
  "pids s ps = (\<lambda>p. pid (procs s p)) ` set ps"

lemma pid_available_iff:
  "lst (proc_next s) (processes s) ps \<Longrightarrow> process_pid_available i s = Some (i \<notin> pids s ps)"
  by (simp add: process_pid_available_def pid_available_from_lst pids_def)

lemma next_pid_loop_step:
  assumes "lst (proc_next s) (processes s) ps"
  shows "next_pid_loop s = (if next_pid s \<in> pids s ps then next_pid_loop (s \<lparr> next_pid := next_pid s + 1 \<rparr>)
    else Some (next_pid s, s \<lparr> next_pid := next_pid s + 1 \<rparr>))"
  using assms pid_available_iff [of "s \<lparr> next_pid := next_pid s + 1 \<rparr>" ps "next_pid s"]
  by (subst next_pid_loop.simps) (simp add: pids_def)

lemma next_pid_loop_finds:
  assumes "lst (proc_next s) (processes s) ps" "next_pid s + of_nat n \<notin> pids s ps"
    and "\<forall>k<n. next_pid s + of_nat k \<in> pids s ps"
  shows "next_pid_loop s = Some (next_pid s + of_nat n, s \<lparr> next_pid := next_pid s + of_nat n + 1 \<rparr>)"
  using assms
proof (induction n arbitrary: s)
  case 0
  then show ?case
    using next_pid_loop_step [of s ps] by simp
next
  case (Suc n)
  let ?s = "s \<lparr> next_pid := next_pid s + 1 \<rparr>"
  have p: "pids ?s ps = pids s ps"
    by (simp add: pids_def)
  have "next_pid s \<in> pids s ps"
    using Suc.prems(3) [rule_format, of 0] by simp
  then have step: "next_pid_loop s = next_pid_loop ?s"
    using next_pid_loop_step [OF Suc.prems(1)] by simp
  have "next_pid ?s + of_nat k \<in> pids ?s ps" if "k < n" for k
    using Suc.prems(3) [rule_format, of "Suc k"] that by (simp add: p add.assoc)
  then have "next_pid_loop ?s = Some (next_pid ?s + of_nat n, ?s \<lparr> next_pid := next_pid ?s + of_nat n + 1 \<rparr>)"
    using Suc.prems(1,2) by (intro Suc.IH) (simp_all add: p add.assoc)
  then show ?case
    by (simp add: step add.assoc)
qed

lemma first_free:
  assumes "i \<notin> (A :: u32 set)"
  shows "\<exists>n. v + of_nat n \<notin> A \<and> (\<forall>k<n. v + of_nat k \<in> A)"
proof -
  have "v + of_nat (unat (i - v)) \<notin> A"
    using assms by simp
  then have "\<exists>n. v + of_nat n \<notin> A"
    by blast
  then show ?thesis
    using exists_least_iff [of "\<lambda>n. v + of_nat n \<notin> A"] by auto
qed

text \<open>
  C24: the search for a process number ends, with a number that no process has, as long as
  there are fewer processes than numbers.  Its caller does not get that number:
  the function has no return statement.
\<close>

theorem process_next_pid_terminates:
  assumes "lst (proc_next s) (processes s) ps" "length ps < 2 ^ 32"
  shows "\<exists>i s'. next_pid_loop s = Some (i, s') \<and> i \<notin> pids s ps \<and> next_pid s' = i + 1
    \<and> s' = s \<lparr> next_pid := next_pid s' \<rparr> \<and> process_next_pid eax s = kret (eax, s')"
proof -
  have "card (pids s ps) < card (UNIV :: u32 set)"
    using assms(2) card_image_le [of "set ps" "\<lambda>p. pid (procs s p)"] card_length [of ps]
    by (simp add: pids_def card_word)
  then obtain i where "i \<notin> pids s ps"
    by (metis UNIV_eq_I less_irrefl)
  then obtain n where "next_pid s + of_nat n \<notin> pids s ps" "\<forall>k<n. next_pid s + of_nat k \<in> pids s ps"
    using first_free by blast
  then show ?thesis
    using next_pid_loop_finds [OF assms(1)] by (auto simp: process_next_pid_def)
qed

definition demo_procs :: proc_table where
  "demo_procs = \<lparr> procs = (\<lambda>p. process0 \<lparr> pid := p, parent := (if p = 1 then None else Some (p - 1)),
       children := (if p = 3 then None else Some (p + 1)) \<rparr>),
     proc_next = (\<lambda>p. if p = 3 then Some 2 else if p = 2 then Some 1 else None),
     sibling = (\<lambda>_. None), thread_next = (\<lambda>_. None), processes = Some 3, next_pid = 1 \<rparr>"

theorem process_next_pid_terminates_witness:
  "\<exists>i s. next_pid_loop demo_procs = Some (i, s) \<and> i \<notin> {1, 2, 3}"
proof -
  have "lst (proc_next demo_procs) (processes demo_procs) [3, 2, 1]" "pids demo_procs [3, 2, 1] = {1, 2, 3}"
    by (auto simp: demo_procs_def pids_def)
  then show ?thesis
    using process_next_pid_terminates [of demo_procs "[3, 2, 1]" 0] by auto
qed

section \<open>Children and threads\<close>

lemma add_child_eq:
  assumes "par \<noteq> c"
  shows "process_add_child par c s = kret (s \<lparr>
    procs := (procs s)(c := (procs s c) \<lparr> parent := Some par \<rparr>, par := (procs s par) \<lparr> children := Some c \<rparr>),
    sibling := (sibling s)(c := children (procs s par)) \<rparr>)"
  using assms by (simp add: process_add_child_def upd_proc_def LL_PREPEND2_def kret_def krun_bind_def Let_def)

lemma exit_children_None: "exit_children p par None s = kret s"
  by (subst exit_children.simps) simp

text \<open>
  When a process with one child ends, the child is given to the parent of the process, at
  the head of its children.  The process itself keeps a list of children: its head is
  replaced by the child's successor in the list of all processes, a link of another
  list.
\<close>

theorem process_exit_reparents:
  assumes "pid (procs s p) \<noteq> 0" "parent (procs s p) = Some g" "children (procs s p) = Some c" "sibling s c = None"
    and "distinct [p, g, c]" "lst (sibling s) (children (procs s g)) cs" "c \<notin> set cs"
  shows "\<exists>s'. process_exit p s = kret s' \<and> lst (sibling s') (children (procs s' g)) (c # cs)
    \<and> parent (procs s' c) = Some g \<and> processes s' = processes s \<and> proc_next s' = proc_next s
    \<and> children (procs s' p) = proc_next s c"
proof -
  have "LL_DELETE2 (proc_next s, children (procs s p)) c = Some (Inr (proc_next s, proc_next s c))"
    using assms(3) by (simp add: LL_DELETE2_def)
  then have "process_exit p s = kret (s \<lparr>
    procs := (procs s)(p := (procs s p) \<lparr> children := proc_next s c \<rparr>, c := (procs s c) \<lparr> parent := Some g \<rparr>,
      g := (procs s g) \<lparr> children := Some c \<rparr>),
    sibling := (sibling s)(c := children (procs s g)) \<rparr>)"
    using assms(1-5) by (subst process_exit_def)
      (auto simp: exit_children.simps [of p g "Some c"] add_child_eq exit_children_None upd_proc_def
        krun_assert_def kret_def krun_bind_def Let_def)
  then show ?thesis
    using assms(5-7) by auto
qed

theorem process_exit_reparents_witness:
  "\<exists>s. process_exit 2 demo_procs = kret s \<and> parent (procs s 3) = Some 1 \<and> children (procs s 2) = Some 2"
proof -
  let ?s = "demo_procs"
  have "pid (procs ?s 2) \<noteq> 0" "parent (procs ?s 2) = Some 1" "children (procs ?s 2) = Some 3" "sibling ?s 3 = None"
    "proc_next ?s 3 = Some 2" "lst (sibling ?s) (children (procs ?s 1)) [2]" "distinct [2, 1, 3 :: u32]"
    by (simp_all add: demo_procs_def)
  then show ?thesis
    using process_exit_reparents [of ?s 2 1 3 "[2]"] by auto
qed

end
