(* ===== verification/Locking.thy ===== *)
theory Locking
  imports KRun Spinlock
begin

text \<open>
  The interface between a component and the spinlock that guards its state: the
  component's pair of functions that take and give back the lock, as every file of
  the kernel that has a lock defines them, over the fields of the state that they
  touch.  A section of code between the two leaves the lock and the flags register as they were.
\<close>

locale lock_holder =
  fixes lk :: "'s \<Rightarrow> spinlock" and set_lk :: "spinlock \<Rightarrow> 's \<Rightarrow> 's"
    and fl :: "'s \<Rightarrow> u32" and set_fl :: "u32 \<Rightarrow> 's \<Rightarrow> 's"
    and me :: "'s \<Rightarrow> u32"
    and lock :: "'s \<Rightarrow> (u32 \<times> 's) krun" and unlock :: "u32 \<Rightarrow> 's \<Rightarrow> 's krun"
  assumes lock_eq: "lock s =
      krun_bind (spinlock_acquire (me s) (fl s) (lk s)) (\<lambda>(flags, ef, l). kret (flags, set_fl ef (set_lk l s)))"
    and unlock_eq: "unlock flags s =
      krun_bind (Some (spinlock_release flags (fl s) (lk s))) (\<lambda>(ef, l). kret (set_fl ef (set_lk l s)))"
    and lk_set: "lk (set_lk l s) = l" "lk (set_fl ef s) = lk s" "set_lk (lk s) s = s"
    and lk_twice: "set_lk l (set_lk l' s) = set_lk l s"
    and fl_set: "fl (set_fl ef s) = ef" "fl (set_lk l s) = fl s" "set_fl (fl s) s = s"
    and fl_twice: "set_fl ef (set_fl ef' s) = set_fl ef s"
    and lk_fl: "set_lk l (set_fl ef s) = set_fl ef (set_lk l s)"
begin

text \<open>The lock is free, or the current thread holds it already.\<close>

definition can_lock :: "'s \<Rightarrow> bool" where
  "can_lock s \<longleftrightarrow> me s \<noteq> 0 \<and> spinlock_ok (lk s) \<and> (owner (lk s) = 0 \<or> owner (lk s) = me s)"

definition held :: "'s \<Rightarrow> 's" where
  "held s = set_fl (cli (fl s)) (set_lk ((lk s) \<lparr> owner := me s, nested := nested (lk s) + 1 \<rparr>) s)"

definition released :: "'s \<Rightarrow> 's \<Rightarrow> 's" where
  "released s s' = set_fl (fl s) (set_lk (lk s) s')"

definition same_lock :: "'s \<Rightarrow> 's \<Rightarrow> bool" where
  "same_lock s s' \<longleftrightarrow> lk s' = lk s \<and> fl s' = fl s"

lemma lock_ok: "can_lock s \<Longrightarrow> lock s = kret (fl s, held s)"
  by (simp add: lock_eq can_lock_def acquire_own held_def)

lemma unlock_ok:
  assumes "can_lock s" "same_lock (held s) s'"
  shows "unlock (fl s) s' = kret (released s s')"
  using release_own [of "lk s" "me s" "cli (fl s)" "fl s"] assms
  by (simp add: unlock_eq can_lock_def held_def released_def same_lock_def lk_set fl_set)

lemma held_released: "released s (held s) = s"
  by (simp add: released_def held_def lk_fl lk_twice fl_twice lk_set fl_set)

lemma read_section: "can_lock s \<Longrightarrow> krun_bind (lock s) (\<lambda>(flags, s). unlock flags s) = kret s"
  by (simp add: lock_ok unlock_ok same_lock_def held_released)

lemma write_section:
  assumes "can_lock s" "f (held s) = kret s'" "same_lock (held s) s'"
  shows "krun_bind (lock s) (\<lambda>(flags, s). krun_bind (f s) (unlock flags)) = kret (released s s')"
  using assms by (simp add: lock_ok unlock_ok)

lemma result_section:
  assumes "can_lock s" "f (held s) = kret (r, s')" "same_lock (held s) s'"
  shows "krun_bind (lock s) (\<lambda>(flags, s). krun_bind (f s) (\<lambda>(r, s). krun_bind (unlock flags s) (\<lambda>s. kret (r, s)))) =
    kret (r, released s s')"
  using assms by (simp add: lock_ok unlock_ok)

lemma same_lock_refl [simp]: "same_lock s s"
  by (simp add: same_lock_def)

lemma released_same: "same_lock (released s s') s" "same_lock s (released s s')"
  by (simp_all add: released_def same_lock_def lk_set fl_set)

text \<open>A lock whose holder takes it again.\<close>

lemma held_can_lock:
  assumes "can_lock s" "me (held s) = me s" "unat (nested (lk s)) < 100"
  shows "can_lock (held s)"
proof -
  have "nested (lk s) \<noteq> - 1"
    using assms(3) by (auto simp: unsigned_minus_1_eq_mask mask_eq_exp_minus_1)
  then have "nested (lk s) + 1 \<noteq> 0"
    by (simp add: eq_neg_iff_add_eq_0)
  then show ?thesis
    using assms(1,2) by (simp add: can_lock_def held_def spinlock_ok_def lk_set)
qed

end

end
