(* ===== verification/Time.thy ===== *)
theory Time
  imports Sched Locking "HOL-Library.Signed_Division"
begin

text \<open>
  The wall clock of \<open>kern/time.c\<close>.  A time is a count of seconds, unsigned on 64 bits, and of
  microseconds, a signed 32 bit \<open>long\<close>.  A time is normalised when the microseconds are less than a
  second.
\<close>

section \<open>Definitions\<close>

record timeval =
  tv_sec :: u64
  tv_usec :: u32

text \<open>Signed division truncates towards zero; \<open>s\<close> and \<open>us\<close> have the unsigned type of the seconds.\<close>

definition time_normalise :: "timeval \<Rightarrow> timeval" where
  "time_normalise tv =
     (let usecs_per_sec = 1000000;
          s = word_of_int (sint (tv_usec tv) sdiv usecs_per_sec) :: u64;
          us = word_of_int (sint (tv_usec tv) smod usecs_per_sec) :: u64;
          tv = tv \<lparr> tv_sec := tv_sec tv + s, tv_usec := ucast us \<rparr>
      in if sint (tv_usec tv) < 0
         then tv \<lparr> tv_usec := tv_usec tv + word_of_int usecs_per_sec, tv_sec := tv_sec tv - 1 \<rparr>
         else tv)"

text \<open>The copy \<open>temp\<close> is normalised, but it is the argument that is added.\<close>

definition time_add :: "timeval \<Rightarrow> timeval \<Rightarrow> timeval" where
  "time_add dest diff =
     (let dest = time_normalise dest
      in dest \<lparr> tv_sec := tv_sec dest + tv_sec diff, tv_usec := tv_usec dest + tv_usec diff \<rparr>)"

text \<open>Likewise the normalised copies are not the ones compared.\<close>

definition time_cmp :: "timeval \<Rightarrow> timeval \<Rightarrow> int" where
  "time_cmp a b =
     (if tv_sec a < tv_sec b then - 1
      else if tv_sec a > tv_sec b then 1
      else sint (tv_usec a - tv_usec b))"

section \<open>The clock\<close>

text \<open>The clock with its lock; \<open>cpu\<close> is the processor, with the current thread.\<close>

record clock =
  time_now_utc :: timeval
  time_spinlock :: spinlock
  cpu :: sched

definition time_init :: "'a clock_scheme \<Rightarrow> 'a clock_scheme" where
  "time_init c = c \<lparr> time_spinlock := spinlock_init (time_spinlock c) \<rparr>"

definition time_lock :: "'a clock_scheme \<Rightarrow> (u32 \<times> 'a clock_scheme) krun" where
  "time_lock c =
     krun_bind (spinlock_acquire (current_thread_id (cpu c)) (eflags (cpu c)) (time_spinlock c)) (\<lambda>(flags, ef, l).
       kret (flags, c \<lparr> time_spinlock := l, cpu := (cpu c) \<lparr> eflags := ef \<rparr> \<rparr>))"

definition time_unlock :: "u32 \<Rightarrow> 'a clock_scheme \<Rightarrow> 'a clock_scheme krun" where
  "time_unlock flags c =
     krun_bind (Some (spinlock_release flags (eflags (cpu c)) (time_spinlock c))) (\<lambda>(ef, l).
       kret (c \<lparr> time_spinlock := l, cpu := (cpu c) \<lparr> eflags := ef \<rparr> \<rparr>))"

definition get_time_utc :: "'a clock_scheme \<Rightarrow> (timeval \<times> 'a clock_scheme) krun" where
  "get_time_utc c =
     krun_bind (time_lock c) (\<lambda>(flags, c).
       let tv = time_now_utc c in krun_bind (time_unlock flags c) (\<lambda>c. kret (tv, c)))"

definition set_time_utc :: "timeval \<Rightarrow> 'a clock_scheme \<Rightarrow> 'a clock_scheme krun" where
  "set_time_utc tv c =
     krun_bind (time_lock c) (\<lambda>(flags, c). time_unlock flags (c \<lparr> time_now_utc := tv \<rparr>))"

interpretation tc: lock_holder time_spinlock "\<lambda>l c. c \<lparr> time_spinlock := l \<rparr>" "\<lambda>c. eflags (cpu c)"
    "\<lambda>ef c. c \<lparr> cpu := (cpu c) \<lparr> eflags := ef \<rparr> \<rparr>" "\<lambda>c. current_thread_id (cpu c)" time_lock time_unlock
  by unfold_locales (simp_all add: time_lock_def time_unlock_def comp_def)

lemma get_time_ok: "tc.can_lock c \<Longrightarrow> get_time_utc c = kret (time_now_utc c, c)"
  by (simp add: get_time_utc_def tc.lock_ok tc.unlock_ok tc.held_released) (simp add: tc.held_def)

lemma set_time_ok: "tc.can_lock c \<Longrightarrow> set_time_utc tv c = kret (c \<lparr> time_now_utc := tv \<rparr>)"
  using tc.unlock_ok [of c "(tc.held c) \<lparr> time_now_utc := tv \<rparr>"]
  by (simp add: set_time_utc_def tc.lock_ok tc.same_lock_def tc.held_def tc.released_def)

section \<open>Times as numbers of microseconds\<close>

definition normal :: "timeval \<Rightarrow> bool" where
  "normal tv \<longleftrightarrow> 0 \<le> sint (tv_usec tv) \<and> sint (tv_usec tv) < 1000000"

definition microseconds :: "timeval \<Rightarrow> int" where
  "microseconds tv = uint (tv_sec tv) * 1000000 + sint (tv_usec tv)"

text \<open>Times for which the seconds cannot overflow: the most a \<open>long\<close> of microseconds carries is 2148.\<close>

definition representable :: "timeval \<Rightarrow> bool" where
  "representable tv \<longleftrightarrow> 2148 \<le> uint (tv_sec tv) \<and> uint (tv_sec tv) < 2 ^ 64 - 2148"

lemma sint_u32_bounds: "- (2 ^ 31) \<le> sint (w :: u32)" "sint (w :: u32) < 2 ^ 31"
  using sint_range_size [of w] by (simp_all add: word_size)

lemma sint_word_of_int_u32:
  assumes "- (2 ^ 31) \<le> i" "i < 2 ^ 31"
  shows "sint (word_of_int i :: u32) = i"
  using assms by (simp add: sint_sbintrunc' signed_take_bit_int_eq_self)

lemma ucast_word_of_int_u32: "ucast (word_of_int i :: u64) = (word_of_int i :: u32)"
  by (rule bit_word_eqI) (auto simp: bit_simps)

lemma sdiv_smod_cases:
  fixes u :: int
  shows "if u smod 1000000 < 0
    then u div 1000000 = u sdiv 1000000 - 1 \<and> u mod 1000000 = u smod 1000000 + 1000000
    else u div 1000000 = u sdiv 1000000 \<and> u mod 1000000 = u smod 1000000"
proof -
  define b where "b \<longleftrightarrow> sgn u \<noteq> 1 \<and> \<not> 1000000 dvd u"
  have "u sdiv 1000000 = u div 1000000 + of_bool b" "u smod 1000000 = u mod 1000000 - 1000000 * of_bool b"
    by (simp_all add: b_def signed_divide_int_eq_divide_int signed_modulo_int_eq_modulo_int)
  then show ?thesis
    by (cases b) (simp_all add: not_less)
qed

lemma normalise_eq:
  "tv_sec (time_normalise tv) = tv_sec tv + word_of_int (sint (tv_usec tv) div 1000000)
   \<and> sint (tv_usec (time_normalise tv)) = sint (tv_usec tv) mod 1000000"
proof -
  let ?u = "sint (tv_usec tv)"
  note cs = sdiv_smod_cases [of ?u]
  have m: "0 \<le> ?u mod 1000000" "?u mod 1000000 < 1000000"
    by simp_all
  then have b: "- 1000000 \<le> ?u smod 1000000" "?u smod 1000000 < 1000000"
    using cs by (auto split: if_splits)
  then have s: "sint (word_of_int (?u smod 1000000) :: u32) = ?u smod 1000000"
    by (intro sint_word_of_int_u32) simp_all
  show ?thesis
  proof (cases "?u smod 1000000 < 0")
    case True
    have "(word_of_int (?u smod 1000000) :: u32) + word_of_int 1000000 = word_of_int (?u mod 1000000)"
      using cs True by simp
    moreover have "sint (word_of_int (?u mod 1000000) :: u32) = ?u mod 1000000"
      using m by (intro sint_word_of_int_u32) simp_all
    ultimately show ?thesis
      using cs True s by (simp add: time_normalise_def Let_def ucast_word_of_int_u32)
  next
    case False
    then show ?thesis
      using cs s by (simp add: time_normalise_def Let_def ucast_word_of_int_u32)
  qed
qed

lemma normalise_carry: "- 2148 \<le> sint (w :: u32) div 1000000 \<and> sint w div 1000000 \<le> 2147"
  using sint_u32_bounds [of w] by auto

lemma normalise_sec:
  assumes "representable tv"
  shows "uint (tv_sec (time_normalise tv)) = uint (tv_sec tv) + sint (tv_usec tv) div 1000000"
proof -
  let ?c = "sint (tv_usec tv) div 1000000"
  have w: "uint (word_of_int i :: u64) = i" if "0 \<le> i" "i < 2 ^ 64" for i
    using that by (simp add: uint_word_of_int_eq take_bit_int_eq_self)
  have "tv_sec (time_normalise tv) = word_of_int (uint (tv_sec tv) + ?c)"
    using normalise_eq [of tv] by simp
  moreover have "0 \<le> uint (tv_sec tv) + ?c" "uint (tv_sec tv) + ?c < 2 ^ 64"
    using assms normalise_carry [of "tv_usec tv"] by (auto simp: representable_def)
  ultimately show ?thesis
    by (simp only: w)
qed

lemma normalise_normal: "normal (time_normalise tv)"
  using normalise_eq [of tv] by (simp add: normal_def)

lemma normalise_usecs: "representable tv \<Longrightarrow> microseconds (time_normalise tv) = microseconds tv"
  using normalise_eq [of tv] normalise_sec [of tv] by (simp add: microseconds_def algebra_simps)

lemma add_usecs:
  assumes "representable tv" "normal d" "uint (tv_sec tv) + uint (tv_sec d) < 2 ^ 64 - 2148"
  shows "microseconds (time_add tv d) = microseconds tv + microseconds d"
proof -
  let ?t = "time_normalise tv"
  have "uint (tv_sec ?t + tv_sec d) = uint (tv_sec ?t) + uint (tv_sec d)"
    using normalise_sec [OF assms(1)] normalise_carry [of "tv_usec tv"] assms(3)
    by (intro uint_plus_simple) (simp add: no_olen_add)
  moreover have "sint (tv_usec ?t + tv_usec d) = sint (tv_usec ?t) + sint (tv_usec d)"
    using normalise_normal [of tv] assms(2) sint_word_of_int_u32 [of "sint (tv_usec ?t) + sint (tv_usec d)"]
    by (simp add: normal_def)
  ultimately have "microseconds (time_add tv d) = microseconds ?t + microseconds d"
    by (simp add: microseconds_def time_add_def Let_def algebra_simps)
  then show ?thesis
    using normalise_usecs [OF assms(1)] by simp
qed

lemma cmp_normal:
  assumes "normal a" "normal b"
  shows "sgn (time_cmp a b) = sgn (microseconds a - microseconds b)"
proof -
  have d: "sint (tv_usec a - tv_usec b) = sint (tv_usec a) - sint (tv_usec b)"
    using assms sint_word_of_int_u32 [of "sint (tv_usec a) - sint (tv_usec b)"] by (simp add: normal_def)
  consider "uint (tv_sec a) + 1 \<le> uint (tv_sec b)" | "uint (tv_sec b) + 1 \<le> uint (tv_sec a)" | "tv_sec a = tv_sec b"
    by (fastforce simp: word_uint_eq_iff)
  then show ?thesis
    using assms d by cases (auto simp: time_cmp_def microseconds_def normal_def word_less_def sgn_if)
qed

text \<open>
  \<open>time_normalise\<close> gives the same instant with less than a second of microseconds;
  \<open>time_add\<close> adds the two instants; \<open>time_cmp\<close> orders two normalised times as
  instants.
\<close>

theorem time_arithmetic:
  assumes "representable tv" "normal d" "uint (tv_sec tv) + uint (tv_sec d) < 2 ^ 64 - 2148" "normal a" "normal b"
  shows "normal (time_normalise tv) \<and> microseconds (time_normalise tv) = microseconds tv
    \<and> microseconds (time_add tv d) = microseconds tv + microseconds d
    \<and> sgn (time_cmp a b) = sgn (microseconds a - microseconds b)"
  using assms normalise_normal normalise_usecs add_usecs cmp_normal by blast

theorem time_arithmetic_witness:
  "microseconds (time_add \<lparr> tv_sec = 3000, tv_usec = - 1 \<rparr> \<lparr> tv_sec = 0, tv_usec = 10000 \<rparr>) = 3000009999"
  using time_arithmetic [of "\<lparr> tv_sec = 3000, tv_usec = - 1 \<rparr>" "\<lparr> tv_sec = 0, tv_usec = 10000 \<rparr>"
      "\<lparr> tv_sec = 0, tv_usec = 0 \<rparr>" "\<lparr> tv_sec = 0, tv_usec = 0 \<rparr>"]
  by (simp add: representable_def normal_def microseconds_def)

text \<open>A sum need not be normalised, and \<open>time_cmp\<close> is wrong on such times.\<close>

lemma time_cmp_wrong:
  "time_cmp (time_add \<lparr> tv_sec = 0, tv_usec = 990000 \<rparr> \<lparr> tv_sec = 0, tv_usec = 20000 \<rparr>) \<lparr> tv_sec = 1, tv_usec = 0 \<rparr> < 0
   \<and> microseconds (time_add \<lparr> tv_sec = 0, tv_usec = 990000 \<rparr> \<lparr> tv_sec = 0, tv_usec = 20000 \<rparr>) > microseconds \<lparr> tv_sec = 1, tv_usec = 0 \<rparr>"
  by code_simp

end
