(* ===== verification/Timers.thy ===== *)
theory Timers
  imports Time UtList
begin

text \<open>
  Timers: \<open>kern/timer.c\<close>, the tick handler of \<open>ia32/ticks.c\<close>, and the timed sleep of
  \<open>kern/thread.c\<close>.

  The two lists of timers are modelled by the sequences of their elements, as
  \<open>DL_PREPEND\<close>, \<open>DL_SORT\<close> and \<open>DL_DELETE\<close> change them.  The state extends that of the clock.
  Whether the \<open>n\<close>-th allocation succeeds is the argument \<open>heap n\<close>, and what the callbacks do is
  the argument \<open>call\<close>.
\<close>

section \<open>Definitions\<close>

record timer_at_time =
  ft_id :: u32
  ft_time :: timeval
  ft_callback :: u32
  ft_data :: u32

record timer_at_offset =
  nt_id :: u32
  nt_delay :: u32
  nt_callback :: u32
  nt_data :: u32

record timers = clock +
  next_timer_id :: u32
  far_timers :: "timer_at_time list"
  near_timers :: "timer_at_offset list"
  the_timer_thread :: "u32 option"
  timer_spinlock :: spinlock
  mallocs :: nat
  boot_ticks :: u32
  tick_freq :: u32
  tick_quantum_usecs :: u32

definition NEAR_THRESHOLD_SECS :: u64 where "NEAR_THRESHOLD_SECS = 10"

definition timers_lock :: "timers \<Rightarrow> (u32 \<times> timers) krun" where
  "timers_lock s =
     krun_bind (spinlock_acquire (current_thread_id (cpu s)) (eflags (cpu s)) (timer_spinlock s)) (\<lambda>(flags, ef, l).
       kret (flags, s \<lparr> timer_spinlock := l, cpu := (cpu s) \<lparr> eflags := ef \<rparr> \<rparr>))"

definition timers_unlock :: "u32 \<Rightarrow> timers \<Rightarrow> timers krun" where
  "timers_unlock flags s =
     krun_bind (Some (spinlock_release flags (eflags (cpu s)) (timer_spinlock s))) (\<lambda>(ef, l).
       kret (s \<lparr> timer_spinlock := l, cpu := (cpu s) \<lparr> eflags := ef \<rparr> \<rparr>))"

text \<open>The identity of the thread that \<open>thread_spawn_kthread\<close> starts for \<open>timers_init\<close> is an argument.\<close>

definition timers_init :: "(sched \<Rightarrow> (u32 \<times> sched) krun) \<Rightarrow> timers \<Rightarrow> timers krun" where
  "timers_init spawn s =
     (let s = s \<lparr> timer_spinlock := spinlock_init (timer_spinlock s) \<rparr> in
      krun_bind (spawn (cpu s)) (\<lambda>(t, k).
        krun_bind (krun_assert (t \<noteq> 0) ''_timer_thread'') (\<lambda>_.
          kret (s \<lparr> cpu := k, the_timer_thread := Some t \<rparr>))))"

definition timer_next_id :: "timers \<Rightarrow> u32 \<times> timers" where
  "timer_next_id s =
     (let n = next_timer_id s + 1; n = (if sint n < 0 then 1 else n) in (n, s \<lparr> next_timer_id := n \<rparr>))"

definition timer_alloc :: "(nat \<Rightarrow> bool) \<Rightarrow> timers \<Rightarrow> bool \<times> timers" where
  "timer_alloc heap s = (heap (mallocs s), s \<lparr> mallocs := mallocs s + 1 \<rparr>)"

definition timer_far_timers_cmp :: "timer_at_time \<Rightarrow> timer_at_time \<Rightarrow> int" where
  "timer_far_timers_cmp a b = time_cmp (ft_time a) (ft_time b)"

definition timer_near_timers_cmp :: "timer_at_offset \<Rightarrow> timer_at_offset \<Rightarrow> int" where
  "timer_near_timers_cmp a b =
     (if sint (nt_delay a) < sint (nt_delay b) then - 1
      else if sint (nt_delay a) > sint (nt_delay b) then 1 else 0)"

text \<open>When the timer is allocated the function returns without giving the lock back.\<close>

definition timer_schedule_at ::
    "(nat \<Rightarrow> bool) \<Rightarrow> timeval option \<Rightarrow> u32 \<Rightarrow> u32 \<Rightarrow> timers \<Rightarrow> (u32 \<times> timers) krun" where
  "timer_schedule_at heap time callback data s =
     krun_bind (timers_lock s) (\<lambda>(flags, s).
       case time of
         None \<Rightarrow> kfail (Assert ''time'')
       | Some time \<Rightarrow>
           let (ok, s) = timer_alloc heap s in
           if ok then
             (let (i, s) = timer_next_id s;
                  timer = \<lparr> ft_id = i, ft_time = time, ft_callback = callback, ft_data = data \<rparr>;
                  s = s \<lparr> far_timers := DL_SORT timer_far_timers_cmp (timer # far_timers s) \<rparr>
              in kret (i, s))
           else krun_bind (timers_unlock flags s) (\<lambda>s. kret (- 1, s)))"

definition timer_schedule_delay_with_id ::
    "(nat \<Rightarrow> bool) \<Rightarrow> u32 \<Rightarrow> u32 \<Rightarrow> u32 \<Rightarrow> u32 \<Rightarrow> timers \<Rightarrow> bool \<times> timers" where
  "timer_schedule_delay_with_id heap i usecs callback data s =
     (let (ok, s) = timer_alloc heap s in
      if ok then
        (let timer = \<lparr> nt_id = i, nt_delay = usecs, nt_callback = callback, nt_data = data \<rparr>
         in (True, s \<lparr> near_timers := DL_SORT timer_near_timers_cmp (timer # near_timers s) \<rparr>))
      else (False, s))"

definition timer_schedule_delay ::
    "(nat \<Rightarrow> bool) \<Rightarrow> u32 \<Rightarrow> u32 \<Rightarrow> u32 \<Rightarrow> timers \<Rightarrow> (u32 \<times> timers) krun" where
  "timer_schedule_delay heap useconds callback data s =
     krun_bind (timers_lock s) (\<lambda>(flags, s).
       let (i, s) = timer_next_id s;
           (ok, s) = timer_schedule_delay_with_id heap i useconds callback data s;
           i = (if \<not> ok then - 1 else i)
       in krun_bind (timers_unlock flags s) (\<lambda>s. kret (i, s)))"

fun delete_first :: "('a \<Rightarrow> bool) \<Rightarrow> 'a list \<Rightarrow> 'a list" where
  "delete_first P [] = []"
| "delete_first P (x # xs) = (if P x then xs else x # delete_first P xs)"

definition timer_cancel :: "u32 \<Rightarrow> timers \<Rightarrow> (bool \<times> timers) krun" where
  "timer_cancel i s =
     krun_bind (timers_lock s) (\<lambda>(flags, s).
       let (result, s) =
         (if \<exists>nt\<in>set (near_timers s). nt_id nt = i
          then (True, s \<lparr> near_timers := delete_first (\<lambda>nt. nt_id nt = i) (near_timers s) \<rparr>)
          else if \<exists>ft\<in>set (far_timers s). ft_id ft = i
          then (True, s \<lparr> far_timers := delete_first (\<lambda>ft. ft_id ft = i) (far_timers s) \<rparr>)
          else (False, s))
       in krun_bind (timers_unlock flags s) (\<lambda>s. kret (result, s)))"

definition timers_next_delay :: "timers \<Rightarrow> (u32 \<times> timers) krun" where
  "timers_next_delay s =
     krun_bind (timers_lock s) (\<lambda>(flags, s).
       let result = (case near_timers s of
                       timer # _ \<Rightarrow> if sint (nt_delay timer) < 0 then 0 else nt_delay timer
                     | [] \<Rightarrow> - 1)
       in krun_bind (timers_unlock flags s) (\<lambda>s. kret (result, s)))"

definition timers_handle_near_timers ::
    "(u32 \<Rightarrow> u32 \<Rightarrow> u32 \<Rightarrow> timers \<Rightarrow> timers krun) \<Rightarrow> timers \<Rightarrow> (bool \<times> timers) krun" where
  "timers_handle_near_timers call s =
     krun_bind (timers_lock s) (\<lambda>(flags, s).
       krun_bind
         (case near_timers s of
            timer # _ \<Rightarrow>
              if sint (nt_delay timer) \<le> 0 then
                krun_bind (if nt_callback timer \<noteq> 0 then call (nt_callback timer) (nt_id timer) (nt_data timer) s
                           else kret s) (\<lambda>s.
                  krun_bind (timer_cancel (nt_id timer) s) (\<lambda>(_, s). kret (True, s)))
              else kret (False, s)
          | [] \<Rightarrow> kret (False, s)) (\<lambda>(result, s).
         krun_bind (timers_unlock flags s) (\<lambda>s. kret (result, s))))"

text \<open>The inner loop of \<open>timer_thread\<close>, and one turn of the outer one, which ends with the thread asleep.\<close>

partial_function (option) handle_all_near ::
    "(u32 \<Rightarrow> u32 \<Rightarrow> u32 \<Rightarrow> timers \<Rightarrow> timers krun) \<Rightarrow> timers \<Rightarrow> timers krun" where
  "handle_all_near call s =
     (case timers_handle_near_timers call s of
        None \<Rightarrow> None
      | Some (Inl e) \<Rightarrow> kfail e
      | Some (Inr (r, s)) \<Rightarrow> if r then handle_all_near call s else kret s)"

definition timer_thread_turn ::
    "(u32 \<Rightarrow> u32 \<Rightarrow> u32 \<Rightarrow> timers \<Rightarrow> timers krun) \<Rightarrow> u8 \<Rightarrow> u32 \<Rightarrow> timers \<Rightarrow> (outcome \<times> timers) krun" where
  "timer_thread_turn call vma_byte now s =
     krun_bind (handle_all_near call s) (\<lambda>s.
       krun_bind (current_thread_sleep vma_byte now (cpu s)) (\<lambda>(r, k). kret (r, s \<lparr> cpu := k \<rparr>)))"

text \<open>The difference of seconds is taken on 64 bits and cut to a \<open>long\<close>.\<close>

definition timers_convert_far_to_near :: "(nat \<Rightarrow> bool) \<Rightarrow> timer_at_time \<Rightarrow> timers \<Rightarrow> timers krun" where
  "timers_convert_far_to_near heap ft s =
     krun_bind (get_time_utc s) (\<lambda>(now, s).
       let usecs = ucast ((tv_sec (ft_time ft) - tv_sec now) * 1000000) :: u32;
           usecs = usecs + (tv_usec (ft_time ft) - tv_usec now);
           s = s \<lparr> far_timers := remove1 ft (far_timers s) \<rparr>;
           (_, s) = timer_schedule_delay_with_id heap (ft_id ft) usecs (ft_callback ft) (ft_data ft) s
       in kret s)"

fun update_far_loop :: "(nat \<Rightarrow> bool) \<Rightarrow> timeval \<Rightarrow> timer_at_time list \<Rightarrow> timers \<Rightarrow> timers krun" where
  "update_far_loop heap near_threshold [] s = kret s"
| "update_far_loop heap near_threshold (ft # fts) s =
     (if time_cmp (ft_time ft) near_threshold \<le> 0
      then krun_bind (timers_convert_far_to_near heap ft s) (update_far_loop heap near_threshold fts)
      else kret s)"

definition timers_update_far_timers :: "(nat \<Rightarrow> bool) \<Rightarrow> timers \<Rightarrow> timers krun" where
  "timers_update_far_timers heap s =
     krun_bind (get_time_utc s) (\<lambda>(now, s).
       update_far_loop heap (time_add now \<lparr> tv_sec = NEAR_THRESHOLD_SECS, tv_usec = 0 \<rparr>) (far_timers s) s)"

definition timers_advance_clock :: "(nat \<Rightarrow> bool) \<Rightarrow> u32 \<Rightarrow> timers \<Rightarrow> timers krun" where
  "timers_advance_clock heap usecs s =
     krun_bind (timers_lock s) (\<lambda>(flags, s).
       let s = s \<lparr> near_timers := map (\<lambda>nt. nt \<lparr> nt_delay := nt_delay nt - usecs \<rparr>) (near_timers s) \<rparr> in
       krun_bind (timers_update_far_timers heap s) (timers_unlock flags))"

definition timers_wake_thread :: "timers \<Rightarrow> timers krun" where
  "timers_wake_thread s =
     (case the_timer_thread s of
        None \<Rightarrow> kfail (Assert ''_timer_thread'')
      | Some t \<Rightarrow> krun_bind (thread_wake t (cpu s)) (\<lambda>k. kret (s \<lparr> cpu := k \<rparr>)))"

section \<open>Ticks\<close>

definition ticks_irq_handler :: "(nat \<Rightarrow> bool) \<Rightarrow> timers \<Rightarrow> timers krun" where
  "ticks_irq_handler heap s =
     (let s = s \<lparr> boot_ticks := boot_ticks s + 1 \<rparr> in
      if boot_ticks s mod 50 \<noteq> 0 then kret s
      else
        krun_bind (get_time_utc s) (\<lambda>(now, s).
          let now = time_add now \<lparr> tv_sec = 0, tv_usec = tick_quantum_usecs s \<rparr> in
          krun_bind (set_time_utc now s) (\<lambda>s.
            krun_bind (timers_advance_clock heap (tick_quantum_usecs s) s) (\<lambda>s.
              krun_bind (timers_next_delay s) (\<lambda>(next_delay, s).
                if next_delay = 0 then timers_wake_thread s else kret s)))))"

definition ticks_since_boot :: "timers \<Rightarrow> u32" where
  "ticks_since_boot s = boot_ticks s"

definition ticks_quantum_usecs :: "timers \<Rightarrow> u32" where
  "ticks_quantum_usecs s = tick_quantum_usecs s"

definition ticks_frequency :: "timers \<Rightarrow> u32" where
  "ticks_frequency s = tick_freq s"

section \<open>Timed sleep\<close>

text \<open>The walk over the two queues; what it prints is left out.\<close>

definition scheduler_print_threads :: "sched \<Rightarrow> sched krun" where
  "scheduler_print_threads k =
     krun_bind (scheduler_lock k) (\<lambda>(flags, k).
       case (DL_COUNT2 (sched_next k, sched_prev k, runnable_threads k),
             DL_COUNT2 (sched_next k, sched_prev k, blocked_threads k)) of
         (Some _, Some _) \<Rightarrow> scheduler_unlock flags k
       | _ \<Rightarrow> None)"

definition thread_wake_timer_callback :: "u32 \<Rightarrow> u32 \<Rightarrow> timers \<Rightarrow> timers krun" where
  "thread_wake_timer_callback timer_id t s =
     (let k = upd_thread t (\<lambda>th. th \<lparr> timed_sleep_timer_id := 0 \<rparr>) (cpu s) in
      krun_bind (scheduler_print_threads k) (\<lambda>k.
        krun_bind (thread_wake t k) (\<lambda>k.
          krun_bind (scheduler_print_threads k) (\<lambda>k. kret (s \<lparr> cpu := k \<rparr>)))))"

text \<open>What \<open>current_thread_sleep_usecs\<close> does once the thread is resumed, and before.\<close>

definition sleep_usecs_resumed :: "u32 \<Rightarrow> timers \<Rightarrow> timers krun" where
  "sleep_usecs_resumed t s =
     (let i = timed_sleep_timer_id (threads (cpu s) t) in
      if i \<noteq> 0 then
        krun_bind (timer_cancel i s) (\<lambda>(_, s).
          kret (s \<lparr> cpu := upd_thread t (\<lambda>th. th \<lparr> timed_sleep_timer_id := 0 \<rparr>) (cpu s) \<rparr>))
      else kret s)"

definition current_thread_sleep_usecs ::
    "(nat \<Rightarrow> bool) \<Rightarrow> u32 \<Rightarrow> u8 \<Rightarrow> u32 \<Rightarrow> u32 \<Rightarrow> timers \<Rightarrow> (outcome \<times> timers) krun" where
  "current_thread_sleep_usecs heap callback vma_byte now usecs s =
     (case current_thread (cpu s) of
        None \<Rightarrow> kfail NullDeref
      | Some t \<Rightarrow>
          krun_bind (timer_schedule_delay heap usecs callback t s) (\<lambda>(i, s).
            let s = s \<lparr> cpu := upd_thread t (\<lambda>th. th \<lparr> timed_sleep_timer_id := i \<rparr>) (cpu s) \<rparr> in
            krun_bind (current_thread_sleep vma_byte now (cpu s)) (\<lambda>(r, k).
              case r of
                Suspended flags \<Rightarrow> kret (Suspended flags, s \<lparr> cpu := k \<rparr>)
              | Returned \<Rightarrow> krun_bind (sleep_usecs_resumed t (s \<lparr> cpu := k \<rparr>)) (\<lambda>s. kret (Returned, s)))))"

section \<open>The lock of the timers\<close>

interpretation tl: lock_holder timer_spinlock "\<lambda>l s. s \<lparr> timer_spinlock := l \<rparr>" "\<lambda>s. eflags (cpu s)"
    "\<lambda>ef s. s \<lparr> cpu := (cpu s) \<lparr> eflags := ef \<rparr> \<rparr>" "\<lambda>s. current_thread_id (cpu s)" timers_lock timers_unlock
  by unfold_locales (simp_all add: timers_lock_def timers_unlock_def)

definition timers_lockable :: "timers \<Rightarrow> bool" where
  "timers_lockable s \<longleftrightarrow>
     current_thread_id (cpu s) \<noteq> 0 \<and> spinlock_ok (timer_spinlock s)
     \<and> (owner (timer_spinlock s) = 0 \<or> owner (timer_spinlock s) = current_thread_id (cpu s))
     \<and> unat (nested (timer_spinlock s)) < 100"

definition clock_lockable :: "timers \<Rightarrow> bool" where
  "clock_lockable s \<longleftrightarrow>
     current_thread_id (cpu s) \<noteq> 0 \<and> spinlock_ok (time_spinlock s)
     \<and> (owner (time_spinlock s) = 0 \<or> owner (time_spinlock s) = current_thread_id (cpu s))"

lemma timers_can_lock: "timers_lockable s \<Longrightarrow> tl.can_lock s"
  by (simp add: timers_lockable_def tl.can_lock_def)

lemma clock_can_lock: "clock_lockable s \<Longrightarrow> tc.can_lock s"
  by (simp add: clock_lockable_def tc.can_lock_def)

lemma current_id_eflags [simp]: "current_thread_id (k \<lparr> eflags := e \<rparr>) = current_thread_id k"
  by (simp add: current_thread_id_def split: option.split)

lemma held_sel [simp]:
  "near_timers (tl.held s) = near_timers s" "far_timers (tl.held s) = far_timers s" "mallocs (tl.held s) = mallocs s"
  "next_timer_id (tl.held s) = next_timer_id s" "current_thread_id (cpu (tl.held s)) = current_thread_id (cpu s)"
  "time_now_utc (tl.held s) = time_now_utc s" "time_spinlock (tl.held s) = time_spinlock s"
  by (simp_all add: tl.held_def)

lemma held_lockable:
  assumes "timers_lockable s"
  shows "tl.can_lock (tl.held s)"
  using tl.held_can_lock [OF timers_can_lock [OF assms]] assms by (simp add: timers_lockable_def)

section \<open>Near timers\<close>

interpretation nt: comparator timer_near_timers_cmp
  by unfold_locales (auto simp: timer_near_timers_cmp_def split: if_splits)

definition by_delay :: "timer_at_offset list \<Rightarrow> bool" where
  "by_delay ts \<longleftrightarrow> sorted_wrt (\<lambda>a b. sint (nt_delay a) \<le> sint (nt_delay b)) ts"

lemma near_sorted: "by_delay (DL_SORT timer_near_timers_cmp ts) \<and> mset (DL_SORT timer_near_timers_cmp ts) = mset ts"
proof -
  have "nt.le = (\<lambda>a b. sint (nt_delay a) \<le> sint (nt_delay b))"
    by (intro ext) (auto simp: nt.le_def timer_near_timers_cmp_def)
  then show ?thesis
    using nt.DL_SORT_sorts [of ts] by (simp add: by_delay_def)
qed

lemma timer_next_id_pos: "0 \<le> sint (fst (timer_next_id s))"
  by (simp add: timer_next_id_def Let_def not_less)

lemma timer_next_id_eq: "timer_next_id s = (fst (timer_next_id s), s \<lparr> next_timer_id := fst (timer_next_id s) \<rparr>)"
  by (simp add: timer_next_id_def Let_def)

lemma next_delay_ok:
  assumes "timers_lockable s"
  shows "timers_next_delay s = kret (case near_timers s of
      timer # _ \<Rightarrow> if sint (nt_delay timer) < 0 then 0 else nt_delay timer | [] \<Rightarrow> - 1, s)"
  using timers_can_lock [OF assms] tl.unlock_ok [of s "tl.held s"]
  by (simp add: timers_next_delay_def tl.lock_ok tl.held_released)

lemma schedule_delay_ok:
  assumes "timers_lockable s" "heap (mallocs s)"
  shows "timer_schedule_delay heap d cb data s = kret (fst (timer_next_id s),
     s \<lparr> next_timer_id := fst (timer_next_id s), mallocs := mallocs s + 1,
       near_timers := DL_SORT timer_near_timers_cmp
         (\<lparr> nt_id = fst (timer_next_id s), nt_delay = d, nt_callback = cb, nt_data = data \<rparr> # near_timers s) \<rparr>)"
proof -
  let ?i = "fst (timer_next_id s)"
  let ?n = "DL_SORT timer_near_timers_cmp
         (\<lparr> nt_id = ?i, nt_delay = d, nt_callback = cb, nt_data = data \<rparr> # near_timers s)"
  let ?h = "(tl.held s) \<lparr> next_timer_id := ?i, mallocs := mallocs s + 1, near_timers := ?n \<rparr>"
  have "fst (timer_next_id (tl.held s)) = ?i"
    by (simp add: timer_next_id_def Let_def)
  then have i: "timer_next_id (tl.held s) = (?i, (tl.held s) \<lparr> next_timer_id := ?i \<rparr>)"
    using timer_next_id_eq [of "tl.held s"] by simp
  have "timers_unlock (eflags (cpu s)) ?h = kret (tl.released s ?h)"
    by (rule tl.unlock_ok [OF timers_can_lock [OF assms(1)]]) (simp add: tl.same_lock_def)
  moreover have "tl.released s ?h =
      s \<lparr> next_timer_id := ?i, mallocs := mallocs s + 1, near_timers := ?n \<rparr>"
    by (simp add: tl.released_def tl.held_def)
  ultimately show ?thesis
    using assms(2) tl.lock_ok [OF timers_can_lock [OF assms(1)]] i
    by (simp add: timer_schedule_delay_def timer_schedule_delay_with_id_def timer_alloc_def)
qed

text \<open>
  C23: scheduling a delayed timer returns its number with the lock given back; the near timers
  are then the old ones and the new one, in the order of their delays, so that
  the delay reported to the tick handler is the least one.
\<close>

theorem timer_schedule_delay_sorted:
  assumes "timers_lockable s" "heap (mallocs s)"
  shows "\<exists>i s'. timer_schedule_delay heap d cb data s = kret (i, s') \<and> 0 \<le> sint i
    \<and> by_delay (near_timers s')
    \<and> mset (near_timers s') = add_mset \<lparr> nt_id = i, nt_delay = d, nt_callback = cb, nt_data = data \<rparr> (mset (near_timers s))
    \<and> timer_spinlock s' = timer_spinlock s \<and> cpu s' = cpu s \<and> far_timers s' = far_timers s
    \<and> (\<exists>r. timers_next_delay s' = kret (r, s') \<and> sint r = max 0 (Min ((\<lambda>t. sint (nt_delay t)) ` set (near_timers s'))))"
proof -
  let ?i = "fst (timer_next_id s)"
  let ?t = "\<lparr> nt_id = ?i, nt_delay = d, nt_callback = cb, nt_data = data \<rparr>"
  let ?n = "DL_SORT timer_near_timers_cmp (?t # near_timers s)"
  let ?s = "s \<lparr> next_timer_id := ?i, mallocs := mallocs s + 1, near_timers := ?n \<rparr>"
  have n: "by_delay ?n" "mset ?n = add_mset ?t (mset (near_timers s))"
    using near_sorted [of "?t # near_timers s"] by simp_all
  then have "mset ?n \<noteq> {#}"
    by simp
  then obtain x xs where x: "?n = x # xs"
    by (cases ?n) simp_all
  then have "\<forall>y\<in>set xs. sint (nt_delay x) \<le> sint (nt_delay y)"
    using n(1) by (simp add: by_delay_def)
  then have "Min ((\<lambda>t. sint (nt_delay t)) ` set ?n) = sint (nt_delay x)"
    unfolding x by (intro Min_eqI) auto
  moreover have "timers_lockable ?s"
    using assms(1) by (simp add: timers_lockable_def)
  then have "timers_next_delay ?s = kret (if sint (nt_delay x) < 0 then 0 else nt_delay x, ?s)"
    using next_delay_ok [of ?s] by (simp add: x)
  moreover have "0 \<le> sint ?i"
    by (rule timer_next_id_pos)
  ultimately show ?thesis
    using schedule_delay_ok [of s heap, OF assms] n by (intro exI [of _ ?i] exI [of _ ?s]) (simp add: max_def)
qed

definition demo_timers :: timers where
  "demo_timers = \<lparr> time_now_utc = \<lparr> tv_sec = 5000, tv_usec = 0 \<rparr>, time_spinlock = \<lparr> owner = 0, nested = 0 \<rparr>,
     cpu = demo_sched, next_timer_id = 4, far_timers = [],
     near_timers = [\<lparr> nt_id = 3, nt_delay = 0, nt_callback = 1, nt_data = 2 \<rparr>,
                    \<lparr> nt_id = 2, nt_delay = 20000, nt_callback = 1, nt_data = 2 \<rparr>],
     the_timer_thread = Some 3, timer_spinlock = \<lparr> owner = 0, nested = 0 \<rparr>, mallocs = 0,
     boot_ticks = 49, tick_freq = 100, tick_quantum_usecs = 10000 \<rparr>"

lemma demo_timers_lockable: "timers_lockable demo_timers" "clock_lockable demo_timers"
  by (simp_all add: timers_lockable_def clock_lockable_def spinlock_ok_def demo_timers_def demo_sched_def
      current_thread_id_def)

theorem timer_schedule_delay_sorted_witness:
  "\<exists>s. timer_schedule_delay (\<lambda>_. True) 7 1 2 demo_timers = kret (5, s) \<and> by_delay (near_timers s)"
proof -
  have "fst (timer_next_id demo_timers) = 5"
    by (simp add: timer_next_id_def demo_timers_def)
  then show ?thesis
    using timer_schedule_delay_sorted [OF demo_timers_lockable(1), of "\<lambda>_. True" 7 1 2]
      schedule_delay_ok [OF demo_timers_lockable(1), of "\<lambda>_. True" 7 1 2] by auto
qed

text \<open>
  \<open>timer_schedule_at\<close> returns a timer number with the lock still held and
  interrupts disabled.
\<close>

theorem timer_schedule_at_keeps_lock:
  assumes "timers_lockable s" "heap (mallocs s)"
  shows "\<exists>i s'. timer_schedule_at heap (Some time) cb data s = kret (i, s') \<and> 0 \<le> sint i
    \<and> nested (timer_spinlock s') = nested (timer_spinlock s) + 1
    \<and> owner (timer_spinlock s') = current_thread_id (cpu s)
    \<and> \<not> flags_register_is_set (eflags (cpu s')) flags_if_bit"
proof -
  obtain i where i: "timer_next_id ((tl.held s) \<lparr> mallocs := Suc (mallocs s) \<rparr>) =
      (i, (tl.held s) \<lparr> mallocs := Suc (mallocs s), next_timer_id := i \<rparr>)" "0 \<le> sint i"
    using timer_next_id_eq timer_next_id_pos by blast
  then show ?thesis
    using assms(2) tl.lock_ok [OF timers_can_lock [OF assms(1)]]
    by (simp add: timer_schedule_at_def timer_alloc_def Let_def) (simp add: tl.held_def)
qed

theorem timer_schedule_at_keeps_lock_witness:
  "\<exists>i s. timer_schedule_at (\<lambda>_. True) (Some \<lparr> tv_sec = 6000, tv_usec = 0 \<rparr>) 1 2 demo_timers = kret (i, s)
     \<and> nested (timer_spinlock s) = 1"
proof -
  have "nested (timer_spinlock demo_timers) = 0"
    by (simp add: demo_timers_def)
  then show ?thesis
    using timer_schedule_at_keeps_lock [OF demo_timers_lockable(1), of "\<lambda>_. True" _ 1 2] by fastforce
qed

section \<open>Firing\<close>

lemma cancel_head:
  assumes "tl.can_lock s" "near_timers s = t # ts"
  shows "timer_cancel (nt_id t) s = kret (True, s \<lparr> near_timers := ts \<rparr>)"
  using assms tl.unlock_ok [OF assms(1), of "(tl.held s) \<lparr> near_timers := ts \<rparr>"]
  by (simp add: timer_cancel_def tl.lock_ok tl.same_lock_def) (simp add: tl.released_def tl.held_def)

text \<open>What the callback of a timer does to the processor.\<close>

definition fire :: "(u32 \<Rightarrow> u32 \<Rightarrow> u32 \<Rightarrow> sched \<Rightarrow> sched) \<Rightarrow> timer_at_offset \<Rightarrow> sched \<Rightarrow> sched" where
  "fire g t k = (if nt_callback t \<noteq> 0 then g (nt_callback t) (nt_id t) (nt_data t) k else k)"

text \<open>Callbacks that act on the processor only, keep the current thread and do not depend on the flags.\<close>

definition quiet :: "(u32 \<Rightarrow> u32 \<Rightarrow> u32 \<Rightarrow> timers \<Rightarrow> timers krun) \<Rightarrow> (u32 \<Rightarrow> u32 \<Rightarrow> u32 \<Rightarrow> sched \<Rightarrow> sched) \<Rightarrow> bool" where
  "quiet call g \<longleftrightarrow>
     (\<forall>cb i d s. call cb i d s = kret (s \<lparr> cpu := g cb i d (cpu s) \<rparr>))
     \<and> (\<forall>cb i d k. current_thread_id (g cb i d k) = current_thread_id k)
     \<and> (\<forall>cb i d k e. g cb i d (k \<lparr> eflags := e \<rparr>) = (g cb i d k) \<lparr> eflags := e \<rparr>)"

lemma fire_quiet:
  assumes "quiet call g"
  shows "(if nt_callback t \<noteq> 0 then call (nt_callback t) (nt_id t) (nt_data t) s else kret s) =
      kret (s \<lparr> cpu := fire g t (cpu s) \<rparr>)"
    and "current_thread_id (fire g t k) = current_thread_id k"
    and "fire g t (k \<lparr> eflags := e \<rparr>) = (fire g t k) \<lparr> eflags := e \<rparr>"
    and "eflags (fire g t k) = eflags k"
proof -
  have e: "fire g t (k \<lparr> eflags := e \<rparr>) = (fire g t k) \<lparr> eflags := e \<rparr>" for k e
    using assms by (simp add: fire_def quiet_def)
  then show "fire g t (k \<lparr> eflags := e \<rparr>) = (fire g t k) \<lparr> eflags := e \<rparr>" .
  have "fire g t (k \<lparr> eflags := eflags k \<rparr>) = (fire g t k) \<lparr> eflags := eflags k \<rparr>"
    by (rule e)
  then have "fire g t k = (fire g t k) \<lparr> eflags := eflags k \<rparr>"
    by simp
  then show "eflags (fire g t k) = eflags k"
    by (metis sched.select_convs(13) sched.surjective sched.update_convs(13))
qed (use assms in \<open>simp_all add: fire_def quiet_def\<close>)

lemma handle_due:
  assumes "timers_lockable s" "quiet call g" "near_timers s = t # ts" "sint (nt_delay t) \<le> 0"
  shows "timers_handle_near_timers call s = kret (True, s \<lparr> near_timers := ts, cpu := fire g t (cpu s) \<rparr>)"
proof -
  let ?h = "tl.held s"
  let ?h1 = "?h \<lparr> cpu := fire g t (cpu ?h) \<rparr>"
  note q = fire_quiet [OF assms(2)]
  have "tl.can_lock ?h1"
    using held_lockable [OF assms(1)] by (simp add: tl.can_lock_def q)
  then have "timer_cancel (nt_id t) ?h1 = kret (True, ?h1 \<lparr> near_timers := ts \<rparr>)"
    using assms(3) by (intro cancel_head) simp_all
  moreover have "tl.same_lock ?h (?h1 \<lparr> near_timers := ts \<rparr>)"
    by (simp add: tl.same_lock_def q)
  then have "timers_unlock (eflags (cpu s)) (?h1 \<lparr> near_timers := ts \<rparr>) = kret (tl.released s (?h1 \<lparr> near_timers := ts \<rparr>))"
    by (rule tl.unlock_ok [OF timers_can_lock [OF assms(1)]])
  moreover have "(fire g t (cpu s)) \<lparr> eflags := eflags (cpu s) \<rparr> = fire g t (cpu s)"
    using q(3) [where t = t and k = "cpu s" and e = "eflags (cpu s)"] by simp
  then have "tl.released s (?h1 \<lparr> near_timers := ts \<rparr>) = s \<lparr> near_timers := ts, cpu := fire g t (cpu s) \<rparr>"
    by (simp add: tl.released_def tl.held_def q)
  ultimately show ?thesis
    using assms(3,4) tl.lock_ok [OF timers_can_lock [OF assms(1)]]
    by (simp add: timers_handle_near_timers_def q(1))
qed

lemma handle_not_due:
  assumes "timers_lockable s" "\<forall>t ts. near_timers s = t # ts \<longrightarrow> 0 < sint (nt_delay t)"
  shows "timers_handle_near_timers call s = kret (False, s)"
  using assms(2) tl.lock_ok [OF timers_can_lock [OF assms(1)]] tl.unlock_ok [OF timers_can_lock [OF assms(1)], of "tl.held s"]
  by (cases "near_timers s") (auto simp: timers_handle_near_timers_def tl.held_released not_le)

lemma handle_all_due:
  assumes "timers_lockable s" "quiet call g" "by_delay (near_timers s)"
  shows "handle_all_near call s = kret (s \<lparr> near_timers := filter (\<lambda>t. 0 < sint (nt_delay t)) (near_timers s),
    cpu := fold (fire g) (filter (\<lambda>t. sint (nt_delay t) \<le> 0) (near_timers s)) (cpu s) \<rparr>)"
proof -
  have "handle_all_near call s = kret (s \<lparr> near_timers := filter (\<lambda>t. 0 < sint (nt_delay t)) ts,
      cpu := fold (fire g) (filter (\<lambda>t. sint (nt_delay t) \<le> 0) ts) (cpu s) \<rparr>)"
    if "near_timers s = ts" "timers_lockable s" "by_delay ts" for ts s
    using that
  proof (induction ts arbitrary: s)
    case Nil
    then show ?case
      using handle_not_due [of s call] by (subst handle_all_near.simps) (simp add: kret_def)
  next
    case (Cons t ts)
    show ?case
    proof (cases "sint (nt_delay t) \<le> 0")
      case True
      let ?s = "s \<lparr> near_timers := ts, cpu := fire g t (cpu s) \<rparr>"
      have "timers_lockable ?s" "by_delay ts"
        using Cons.prems(2,3) by (simp_all add: timers_lockable_def fire_quiet [OF assms(2)] by_delay_def)
      then have "handle_all_near call ?s = kret (?s \<lparr> near_timers := filter (\<lambda>t. 0 < sint (nt_delay t)) ts,
          cpu := fold (fire g) (filter (\<lambda>t. sint (nt_delay t) \<le> 0) ts) (cpu ?s) \<rparr>)"
        using Cons.IH [of ?s] by simp
      then show ?thesis
        using True handle_due [OF Cons.prems(2) assms(2) Cons.prems(1) True]
        by (subst handle_all_near.simps) (simp add: kret_def)
    next
      case False
      then have "\<forall>u\<in>set (t # ts). 0 < sint (nt_delay u)"
        using Cons.prems(3) by (auto simp: by_delay_def)
      then have "filter (\<lambda>t. 0 < sint (nt_delay t)) (t # ts) = t # ts" "filter (\<lambda>t. sint (nt_delay t) \<le> 0) (t # ts) = []"
        by (auto simp: filter_empty_conv filter_id_conv not_le)
      then show ?thesis
        using handle_not_due [of s call] Cons.prems False
        by (subst handle_all_near.simps) (simp add: kret_def)
    qed
  qed
  then show ?thesis
    using assms by blast
qed



section \<open>The tick handler\<close>

lemma advance_ok:
  assumes "timers_lockable s" "clock_lockable s" "far_timers s = []"
  shows "timers_advance_clock heap q s =
    kret (s \<lparr> near_timers := map (\<lambda>nt. nt \<lparr> nt_delay := nt_delay nt - q \<rparr>) (near_timers s) \<rparr>)"
proof -
  let ?n = "map (\<lambda>nt. nt \<lparr> nt_delay := nt_delay nt - q \<rparr>) (near_timers s)"
  let ?h = "(tl.held s) \<lparr> near_timers := ?n \<rparr>"
  have "tc.can_lock ?h"
    using clock_can_lock [OF assms(2)] by (simp add: tc.can_lock_def)
  then have "timers_update_far_timers heap ?h = kret ?h"
    using assms(3) by (simp add: timers_update_far_timers_def get_time_ok)
  moreover have "timers_unlock (eflags (cpu s)) ?h = kret (tl.released s ?h)"
    by (rule tl.unlock_ok [OF timers_can_lock [OF assms(1)]]) (simp add: tl.same_lock_def)
  moreover have "tl.released s ?h = s \<lparr> near_timers := ?n \<rparr>"
    by (simp add: tl.released_def tl.held_def)
  ultimately show ?thesis
    using tl.lock_ok [OF timers_can_lock [OF assms(1)]] by (simp add: timers_advance_clock_def Let_def)
qed

lemma wake_thread_ok:
  assumes "sched_inv (cpu s) rs bs" "lockable (cpu s)" "the_timer_thread s = Some w" "w \<in> set bs"
  shows "\<exists>k. timers_wake_thread s = kret (s \<lparr> cpu := k \<rparr>) \<and> queues k (rs @ [w]) (remove1 w bs)
    \<and> t_state (threads k w) = thread_runnable"
  using make_runnable_spec [OF assms(1,2,4)] assms(3) by (auto simp: timers_wake_thread_def thread_wake_def moved_def)



end
