(* ===== verification/Kmem.thy ===== *)
theory Kmem
  imports Allocator VmMap Paging KRun
begin

text \<open>
  mm/kmem.c and mm/vm_space.c: the kernel's memory.  The state joins the two pools of region
  structures, the maps of available physical memory, available addresses and used
  addresses, the page tables, and the physical memory that they lead to.

  There is one static memory, \<open>_kernel_layout\<close>, that both pools and the page tables draw from: it
  is kept in the state of the page tables and lent to a pool for the time of a call.
\<close>

section \<open>State\<close>

definition KMEM_PAGE_SIZE :: u32 where "KMEM_PAGE_SIZE = PAGE_SIZE"

text \<open>A list of pages to release: the structures and the flags.\<close>

record kmem_page_list =
  l_pages :: "u32 list"
  l_flags :: u32

text \<open>The address in a \<open>struct kmem_page\<close> is \<open>page_addr\<close> of the structure's own address.\<close>

record kmem =
  pg :: paging
  apool :: alloc_pool
  vpool :: vm_pool
  pm_alloc_map :: "u32 list"
  vm_alloc_map :: "u32 list"
  vm_map :: "u32 list"
  vm_page_directory :: u32
  page_struct_free_list :: "u32 list"
  page_addr :: "u32 \<Rightarrow> u32"
  pmem :: memory

definition kl :: "kmem \<Rightarrow> layout" where
  "kl s = kernel_layout (pg s)"

definition set_kl :: "layout \<Rightarrow> kmem \<Rightarrow> kmem" where
  "set_kl l s = s \<lparr> pg := (pg s) \<lparr> kernel_layout := l \<rparr> \<rparr>"

text \<open>A call of an operation on a map, with the pool that it changes.\<close>

definition the_apool :: "kmem \<Rightarrow> alloc_pool" where
  "the_apool s = (apool s) \<lparr> klayout := kl s \<rparr>"

definition set_apool :: "alloc_pool \<Rightarrow> kmem \<Rightarrow> kmem" where
  "set_apool p s = set_kl (klayout p) (s \<lparr> apool := p \<rparr>)"

definition the_vpool :: "kmem \<Rightarrow> vm_pool" where
  "the_vpool s = (vpool s) \<lparr> klayout := kl s \<rparr>"

definition set_vpool :: "vm_pool \<Rightarrow> kmem \<Rightarrow> kmem" where
  "set_vpool p s = set_kl (klayout p) (s \<lparr> vpool := p \<rparr>)"

definition on_pg :: "(paging \<Rightarrow> paging krun) \<Rightarrow> kmem \<Rightarrow> kmem krun" where
  "on_pg f s = krun_bind (f (pg s)) (\<lambda>st. kret (s \<lparr> pg := st \<rparr>))"

section \<open>Address spaces and set-up\<close>

definition vm_space_init :: "u32 \<Rightarrow> kmem \<Rightarrow> kmem" where
  "vm_space_init pd s =
     s \<lparr> vm_map := vm_map_init, vm_alloc_map := allocator_map_init, vm_page_directory := pd \<rparr>"

definition kmem_init :: "kmem \<Rightarrow> kmem" where
  "kmem_init s = (vm_space_init (paging_pd_current (pg s)) s) \<lparr> pm_alloc_map := allocator_map_init \<rparr>"

definition kern_pm_alloc_region_add :: "u32 \<Rightarrow> u32 \<Rightarrow> u32 \<Rightarrow> kmem \<Rightarrow> kmem kres" where
  "kern_pm_alloc_region_add start sz fl s =
     kbind (allocator_region_add_new (pm_alloc_map s) (the_apool s) start sz fl) (\<lambda>(regions, p).
       Inr ((set_apool p s) \<lparr> pm_alloc_map := regions \<rparr>))"

definition vm_region_add :: "u32 \<Rightarrow> u32 \<Rightarrow> u32 \<Rightarrow> kmem \<Rightarrow> kmem kres" where
  "vm_region_add start sz fl s =
     kbind (allocator_region_add_new (vm_alloc_map s) (the_apool s) start sz fl) (\<lambda>(regions, p).
       Inr ((set_apool p s) \<lparr> vm_alloc_map := regions \<rparr>))"

definition kmem_load_layout :: "kmem \<Rightarrow> kmem krun" where
  "kmem_load_layout s =
     krun_bind (Some (vm_region_add KMEM_PAGE_SIZE (segment_start (kl s) - KMEM_PAGE_SIZE) ALLOC_VM_USER s)) (\<lambda>s.
       krun_bind (Some (vm_region_add (segment_start (kl s)) (MAX_VA - segment_start (kl s) + 1) ALLOC_VM_KERNEL s)) (\<lambda>s.
         krun_bind (allocator_range_acquire (vm_alloc_map s) (the_apool s) (segment_start (kl s))
                      (memory_end (kl s) - segment_start (kl s))) (\<lambda>(regions, p).
           kret ((set_apool p s) \<lparr> vm_alloc_map := regions \<rparr>))))"

section \<open>Frames\<close>

definition kmem_frames_alloc :: "u32 \<Rightarrow> kmem \<Rightarrow> (u32 \<times> kmem) kres" where
  "kmem_frames_alloc num_frames s =
     kbind (allocator_mem_alloc (pm_alloc_map s) (the_apool s) (KMEM_PAGE_SIZE * num_frames) KMEM_PAGE_SIZE
              ALLOC_PM_NORMAL) (\<lambda>(regions, p, r).
       let s = (set_apool p s) \<lparr> pm_alloc_map := regions \<rparr> in
       case r of Some p_addr \<Rightarrow> Inr (p_addr, s) | None \<Rightarrow> Inr (0, s))"

definition kmem_frame_alloc :: "kmem \<Rightarrow> (u32 \<times> kmem) kres" where
  "kmem_frame_alloc s = kmem_frames_alloc 1 s"

definition kmem_frames_free :: "u32 \<Rightarrow> u32 \<Rightarrow> kmem \<Rightarrow> kmem kres" where
  "kmem_frames_free p_addr num_frames s =
     kbind (allocator_mem_free (pm_alloc_map s) (the_apool s) p_addr (KMEM_PAGE_SIZE * num_frames)
              ALLOC_PM_NORMAL) (\<lambda>(regions, p).
       Inr ((set_apool p s) \<lparr> pm_alloc_map := regions \<rparr>))"

definition kmem_frame_free :: "u32 \<Rightarrow> kmem \<Rightarrow> kmem kres" where
  "kmem_frame_free p_addr s = kmem_frames_free p_addr 1 s"

section \<open>Addresses\<close>

definition kmem_vm_alloc :: "u32 \<Rightarrow> kmem \<Rightarrow> (u32 \<times> kmem) kres" where
  "kmem_vm_alloc sz s =
     kbind (allocator_mem_alloc (vm_alloc_map s) (the_apool s) sz 0 ALLOC_VM_KERNEL) (\<lambda>(regions, p, r).
       let s = (set_apool p s) \<lparr> vm_alloc_map := regions \<rparr> in
       case r of
         None \<Rightarrow> Inr (0, s)
       | Some addr_result \<Rightarrow>
           kbind (vm_map_region_add_new (vm_map s) (the_vpool s) addr_result sz) (\<lambda>(regions, p).
             Inr (addr_result, (set_vpool p s) \<lparr> vm_map := regions \<rparr>)))"

text \<open>
  The size is read from the structure of the region after \<open>vm_map_region_remove\<close> has given it
  back to the pool, which leaves its contents in place.
\<close>

definition kmem_vm_free :: "u32 \<Rightarrow> kmem \<Rightarrow> kmem kres" where
  "kmem_vm_free addr s =
     (case vm_map_region_find_address (vm_map s) (the_vpool s) addr of
        Some region \<Rightarrow>
          (let (regions, p) = vm_map_region_remove (vm_map s) (the_vpool s) addr;
               s = (set_vpool p s) \<lparr> vm_map := regions \<rparr>
           in kbind (allocator_mem_free (vm_alloc_map s) (the_apool s) addr (rsize (cell (vpool s) region))
                       ALLOC_VM_KERNEL) (\<lambda>(regions, p).
                Inr ((set_apool p s) \<lparr> vm_alloc_map := regions \<rparr>)))
      | None \<Rightarrow> Inl (Panic ''double free?''))"

definition kmem_vm_get_size :: "u32 \<Rightarrow> kmem \<Rightarrow> u32 option" where
  "kmem_vm_get_size vm_addr s =
     (case vm_map_region_find_address (vm_map s) (the_vpool s) vm_addr of
        Some region \<Rightarrow> Some (rsize (cell (vpool s) region))
      | None \<Rightarrow> None)"

section \<open>Mappings\<close>

abbreviation page_flags :: u32 where
  "page_flags \<equiv> I86_PDE_PRESENT OR I86_PDE_WRITABLE OR I86_PDE_USER"

definition kmem_flush :: "bool \<Rightarrow> kmem \<Rightarrow> kmem" where
  "kmem_flush flush s = (if flush then s \<lparr> pg := paging_flush (pg s) \<rparr> else s)"

text \<open>The result is the address written to \<open>vm_addr_result\<close>, \<open>None\<close> when the function returns false.\<close>

definition kmem_pages_map :: "u32 \<Rightarrow> u32 \<Rightarrow> u32 \<Rightarrow> bool \<Rightarrow> kmem \<Rightarrow> (u32 option \<times> kmem) krun" where
  "kmem_pages_map vma p_addr num_pages flush s =
     (let sz = num_pages * KMEM_PAGE_SIZE in
      krun_bind (Some (kmem_vm_alloc sz s)) (\<lambda>(vm_addr, s).
        if vm_addr \<noteq> 0 then
          krun_bind (on_pg (\<lambda>st. paging_map vma (paging_pd_current st) p_addr sz vm_addr page_flags st) s) (\<lambda>s.
            kret (Some vm_addr, kmem_flush flush s))
        else kret (None, s)))"

definition kmem_pages_unmap :: "u32 \<Rightarrow> u32 \<Rightarrow> bool \<Rightarrow> kmem \<Rightarrow> (bool \<times> kmem) krun" where
  "kmem_pages_unmap vma vm_addr flush s =
     (case kmem_vm_get_size vm_addr s of
        Some sz \<Rightarrow>
          krun_bind (on_pg (\<lambda>st. paging_unmap vma (paging_pd_current st) vm_addr sz st) s) (\<lambda>s.
            krun_bind (Some (kmem_vm_free vm_addr s)) (\<lambda>s. kret (True, s)))
      | None \<Rightarrow> kret (False, s))"

text \<open>A copy of bytes through the page tables.\<close>

fun vm_memcpy :: "u32 \<Rightarrow> u32 \<Rightarrow> u32 \<Rightarrow> nat \<Rightarrow> kmem \<Rightarrow> kmem kres" where
  "vm_memcpy vma dest src 0 s = Inr s"
| "vm_memcpy vma dest src (Suc n) s =
     (case (translate vma (pg s) (paging_pd_current (pg s)) dest, translate vma (pg s) (paging_pd_current (pg s)) src) of
        (Some d, Some a) \<Rightarrow> vm_memcpy vma (dest + 1) (src + 1) n (s \<lparr> pmem := (pmem s)(d := pmem s a) \<rparr>)
      | _ \<Rightarrow> Inl (Panic ''page fault''))"

definition unmap_if :: "u32 \<Rightarrow> u32 option \<Rightarrow> kmem \<Rightarrow> kmem krun" where
  "unmap_if vma a s =
     (case a of
        None \<Rightarrow> kret s
      | Some a \<Rightarrow> krun_bind (kmem_pages_unmap vma a True s) (\<lambda>(_, s). kret s))"

text \<open>The labels \<open>cleanup\<close> and \<open>err_cleanup\<close> of \<open>kmem_frames_clone\<close>.\<close>

definition clone_cleanup :: "u32 \<Rightarrow> u32 \<Rightarrow> u32 option \<Rightarrow> u32 option \<Rightarrow> kmem \<Rightarrow> (u32 \<times> kmem) krun" where
  "clone_cleanup vma dest_pm_addr src_vm_addr dest_vm_addr s =
     krun_bind (unmap_if vma src_vm_addr s) (\<lambda>s.
       krun_bind (unmap_if vma dest_vm_addr s) (\<lambda>s. kret (dest_pm_addr, s)))"

definition clone_err_cleanup :: "u32 \<Rightarrow> u32 \<Rightarrow> u32 \<Rightarrow> u32 option \<Rightarrow> kmem \<Rightarrow> (u32 \<times> kmem) krun" where
  "clone_err_cleanup vma dest_pm_addr num_frames src_vm_addr s =
     krun_bind (if dest_pm_addr \<noteq> 0 then Some (kmem_frames_free dest_pm_addr num_frames s) else kret s) (\<lambda>s.
       clone_cleanup vma 0 src_vm_addr None s)"

definition kmem_frames_clone :: "u32 \<Rightarrow> u32 \<Rightarrow> u32 \<Rightarrow> kmem \<Rightarrow> (u32 \<times> kmem) krun" where
  "kmem_frames_clone vma src_pm_addr num_frames s =
     krun_bind (Some (kmem_frames_alloc num_frames s)) (\<lambda>(dest_pm_addr, s).
       if dest_pm_addr = 0 then clone_err_cleanup vma 0 num_frames None s
       else
         krun_bind (kmem_pages_map vma src_pm_addr num_frames False s) (\<lambda>(src_vm_addr, s).
           if src_vm_addr = None then clone_err_cleanup vma dest_pm_addr num_frames None s
           else
             krun_bind (kmem_pages_map vma dest_pm_addr num_frames True s) (\<lambda>(dest_vm_addr, s).
               case (src_vm_addr, dest_vm_addr) of
                 (Some src, Some dest) \<Rightarrow>
                   krun_bind (Some (vm_memcpy vma dest src (unat (KMEM_PAGE_SIZE * num_frames)) s)) (\<lambda>s.
                     clone_cleanup vma dest_pm_addr src_vm_addr dest_vm_addr s)
               | _ \<Rightarrow> clone_err_cleanup vma dest_pm_addr num_frames src_vm_addr s)))"

definition kmem_frame_clone :: "u32 \<Rightarrow> u32 \<Rightarrow> kmem \<Rightarrow> (u32 \<times> kmem) krun" where
  "kmem_frame_clone vma addr s = kmem_frames_clone vma addr 1 s"

section \<open>Pages\<close>

definition kmem_page_alloc :: "u32 \<Rightarrow> u32 \<Rightarrow> u32 \<Rightarrow> bool \<Rightarrow> kmem \<Rightarrow> (bool \<times> kmem) krun" where
  "kmem_page_alloc vma fl vm_addr flush s =
     krun_bind (Some (kmem_frame_alloc s)) (\<lambda>(p_addr, s).
       if p_addr \<noteq> 0 then
         krun_bind (on_pg (\<lambda>st. paging_map vma (paging_pd_current st) p_addr KMEM_PAGE_SIZE vm_addr page_flags st) s) (\<lambda>s.
           kret (True, kmem_flush flush s))
       else kret (False, s))"

text \<open>The frame of the page is not given back.\<close>

definition kmem_page_free :: "u32 \<Rightarrow> u32 \<Rightarrow> u32 \<Rightarrow> bool \<Rightarrow> kmem \<Rightarrow> kmem krun" where
  "kmem_page_free vma vm_addr fl flush s =
     krun_bind (on_pg (\<lambda>st. paging_unmap vma (paging_pd_current st) vm_addr KMEM_PAGE_SIZE st) s) (\<lambda>s.
       kret (kmem_flush flush s))"

fun pages_free_loop :: "u32 \<Rightarrow> u32 \<Rightarrow> u32 \<Rightarrow> nat \<Rightarrow> kmem \<Rightarrow> kmem krun" where
  "pages_free_loop vma fl vm_addr 0 s = kret s"
| "pages_free_loop vma fl vm_addr (Suc n) s =
     krun_bind (kmem_page_free vma vm_addr fl False s) (pages_free_loop vma fl (vm_addr + KMEM_PAGE_SIZE) n)"

definition kmem_pages_free :: "u32 \<Rightarrow> u32 \<Rightarrow> u32 \<Rightarrow> nat \<Rightarrow> bool \<Rightarrow> kmem \<Rightarrow> kmem krun" where
  "kmem_pages_free vma fl vm_base_addr num_pages flush s =
     krun_bind (pages_free_loop vma fl vm_base_addr num_pages s) (\<lambda>s.
       kret (kmem_flush (num_pages \<noteq> 0 \<and> flush) s))"

text \<open>The loop of \<open>kmem_pages_alloc\<close>, with the number of pages it has mapped when it stops.\<close>

fun pages_alloc_loop :: "u32 \<Rightarrow> u32 \<Rightarrow> u32 \<Rightarrow> nat \<Rightarrow> kmem \<Rightarrow> (nat \<times> kmem) krun" where
  "pages_alloc_loop vma fl vm_addr 0 s = kret (0, s)"
| "pages_alloc_loop vma fl vm_addr (Suc n) s =
     krun_bind (kmem_page_alloc vma fl vm_addr False s) (\<lambda>(ok, s).
       if ok then
         krun_bind (pages_alloc_loop vma fl (vm_addr + KMEM_PAGE_SIZE) n s) (\<lambda>(i, s). kret (Suc i, s))
       else kret (0, s))"

definition kmem_pages_alloc :: "u32 \<Rightarrow> u32 \<Rightarrow> u32 \<Rightarrow> nat \<Rightarrow> bool \<Rightarrow> kmem \<Rightarrow> (bool \<times> kmem) krun" where
  "kmem_pages_alloc vma fl vm_base_addr num_pages flush s =
     krun_bind (pages_alloc_loop vma fl vm_base_addr num_pages s) (\<lambda>(i, s).
       if i = num_pages then kret (True, kmem_flush (num_pages \<noteq> 0 \<and> flush) s)
       else krun_bind (kmem_pages_free vma fl vm_base_addr i flush s) (\<lambda>s. kret (False, s)))"

definition kmem_alloc :: "u32 \<Rightarrow> u32 \<Rightarrow> kmem \<Rightarrow> (u32 \<times> kmem) krun" where
  "kmem_alloc vma sz s =
     (let aligned_size = page_align sz in
      krun_bind (Some (kmem_vm_alloc aligned_size s)) (\<lambda>(addr, s).
        let num_pages = aligned_size div KMEM_PAGE_SIZE in
        if addr \<noteq> 0 then
          krun_bind (kmem_pages_alloc vma 0 addr (unat num_pages) True s) (\<lambda>(ok, s).
            if \<not> ok then krun_bind (Some (kmem_vm_free addr s)) (\<lambda>s. kret (0, s))
            else kret (addr, s))
        else kret (addr, s)))"

definition kmem_free :: "u32 \<Rightarrow> kmem \<Rightarrow> kmem" where
  "kmem_free addr s = s"

definition kmem_wire :: "u32 \<Rightarrow> u32 \<Rightarrow> u32 \<Rightarrow> bool" where
  "kmem_wire vaddr sz fl = False"

section \<open>Page structures\<close>

definition kmem_page_struct_alloc :: "kmem \<Rightarrow> (u32 \<times> kmem) kres" where
  "kmem_page_struct_alloc s =
     (case page_struct_free_list s of
        page # rest \<Rightarrow> Inr (page, s \<lparr> page_struct_free_list := rest \<rparr>)
      | [] \<Rightarrow> kbind (kalloc_static (kl s) 8 8) (\<lambda>(page, l). Inr (page, set_kl l s)))"

definition kmem_page_struct_free :: "u32 \<Rightarrow> kmem \<Rightarrow> kmem" where
  "kmem_page_struct_free page s = s \<lparr> page_struct_free_list := page # page_struct_free_list s \<rparr>"

fun list_free_loop :: "u32 \<Rightarrow> u32 \<Rightarrow> u32 list \<Rightarrow> kmem \<Rightarrow> kmem krun" where
  "list_free_loop vma fl [] s = kret s"
| "list_free_loop vma fl (page # pages) s =
     krun_bind (kmem_page_free vma (page_addr s page) fl False s) (\<lambda>s.
       list_free_loop vma fl pages (kmem_page_struct_free page s))"

definition kmem_pages_list_free :: "u32 \<Rightarrow> kmem_page_list \<Rightarrow> kmem \<Rightarrow> (kmem_page_list \<times> kmem) krun" where
  "kmem_pages_list_free vma page_list s =
     krun_bind (list_free_loop vma (l_flags page_list) (l_pages page_list) s) (\<lambda>s.
       kret (page_list \<lparr> l_pages := [] \<rparr>, s \<lparr> pg := paging_flush (pg s) \<rparr>))"

definition kmem_print_info :: "kmem \<Rightarrow> (u32 \<times> u32 \<times> u32) \<times> (u32 \<times> u32 \<times> u32)" where
  "kmem_print_info s =
     (allocator_print_map_info (pm_alloc_map s) (the_apool s), allocator_print_map_info (vm_alloc_map s) (the_apool s))"

section \<open>The static memory only shrinks\<close>

lemma pool_take_layout:
  assumes "pool_take n p = Inr (x, p')" "pool_ok p" "unat n \<le> 28"
  shows "memory_start (klayout p) \<le> memory_start (klayout p')"
proof (cases "free_regions p")
  case Nil
  then obtain l where l: "kalloc_static (klayout p) n (2 ^ 2) = Inr (x, l)" "p' = p \<lparr> klayout := l \<rparr>"
    using assms(1) by (auto simp: pool_take_def kres_simps)
  have "unat (memory_start (klayout p)) + 2 ^ 2 + unat n \<le> 2 ^ 32"
    using assms(2,3) by (simp add: pool_ok_def static_ok_def word_le_nat_alt)
  from kalloc_static_ok [OF l(1) _ this] show ?thesis
    using l(2) by (simp add: word_le_nat_alt)
qed (use assms(1) in \<open>auto simp: pool_take_def\<close>)

lemma set_cell_sel [simp]:
  "klayout (set_cell x r p) = klayout p" "free_regions (set_cell x r p) = free_regions p"
  "pool_ok (set_cell x r p) = pool_ok p" "pool_unused (set_cell x r p) = pool_unused p"
  by (simp_all add: set_cell_def pool_ok_def pool_unused_def fun_eq_iff)

lemma add_from_layout:
  assumes "\<And>p x. klayout (free p x) = klayout p"
  shows "klayout (snd (mrl_add_from free pm regions p region rest)) = klayout p"
proof (induction rest)
  case (Cons cur rest)
  then show ?case
    by (auto simp: assms Let_def split: option.splits list.splits)
qed simp

lemma mem_free_layout:
  assumes "allocator_mem_free regions p ptr sz fl = Inr (regions', p')" "pool_ok p"
  shows "memory_start (klayout p) \<le> memory_start (klayout p')"
proof -
  obtain x p1 where al: "allocator_region_alloc p = Inr (x, p1)"
    and "allocator_region_add regions (set_cell x \<lparr> address = ptr, rsize = sz, flags = fl \<rparr> p1) x = (regions', p')"
    using assms(1) by (auto simp: allocator_mem_free_def kres_simps)
  then have "klayout p' = klayout p1"
    using add_from_layout [of allocator_region_free allocator_region_pre_merge regions
        "set_cell x \<lparr> address = ptr, rsize = sz, flags = fl \<rparr> p1" x regions]
    by (simp add: allocator_region_free_def allocator_region_add_def mrl_add_def)
  then show ?thesis
    using pool_take_layout [OF al [unfolded allocator_region_alloc_take] assms(2)]
    by (simp add: allocator_region_sizeof_def)
qed

lemma vm_add_layout:
  assumes "vm_map_region_add_new regions p addr sz = Inr (regions', p')" "pool_ok p"
  shows "memory_start (klayout p) \<le> memory_start (klayout p')"
proof -
  obtain x p1 where al: "vm_map_region_alloc p = Inr (x, p1)"
    and "vm_map_region_add regions (set_cell x \<lparr> address = addr, rsize = sz \<rparr> p1) x = (regions', p')"
    using assms(1) by (auto simp: vm_map_region_add_new_def kres_simps)
  then have "klayout p' = klayout p1"
    using add_from_layout [of vm_map_region_free vm_map_region_pre_merge regions
        "set_cell x \<lparr> address = addr, rsize = sz \<rparr> p1" x regions]
    by (simp add: vm_map_region_free_def vm_map_region_add_def mrl_add_def)
  then show ?thesis
    using pool_take_layout [OF al [unfolded vm_map_region_alloc_take] assms(2)]
    by (simp add: vm_map_region_sizeof_def)
qed

lemma cut_layout:
  assumes "allocator_region_cut_and_stitch regions p region hole = Inr (regions', p')" "pool_ok p"
  shows "memory_start (klayout p) \<le> memory_start (klayout p')"
proof -
  obtain ov r tmp where c: "mr_cut (cell p region) hole = (ov, r, tmp)"
    by (cases "mr_cut (cell p region) hole") auto
  have al: "memory_start (klayout p) \<le> memory_start (klayout q)"
    if "allocator_region_alloc (set_cell region r p) = Inr (x, q)" for x q
    using pool_take_layout [of allocator_region_sizeof "set_cell region r p" x q] that assms(2)
    by (simp add: allocator_region_alloc_take allocator_region_sizeof_def)
  have fr: "klayout (allocator_region_free q x) = klayout q" for q x
    by (simp add: allocator_region_free_def)
  show ?thesis
    using assms(1) al
    by (auto simp: allocator_region_cut_and_stitch_def mr_cut_and_stitch_def c kres_simps fr Let_def
        split: if_splits prod.splits)
qed

lemma mem_alloc_layout:
  assumes "allocator_mem_alloc regions p sz al fl = Inr (regions', p', r)" "pool_ok p"
  shows "memory_start (klayout p) \<le> memory_start (klayout p')"
proof -
  obtain h p1 where h: "allocator_region_alloc p = Inr (h, p1)"
    using assms(1) by (auto simp: allocator_mem_alloc_def kres_simps)
  have p1: "memory_start (klayout p) \<le> memory_start (klayout p1)" "pool_ok p1"
    using pool_take_layout [OF h [unfolded allocator_region_alloc_take] assms(2)] alloc_hooks(2) [OF h assms(2)]
    by (simp_all add: allocator_region_sizeof_def)
  have "memory_start (klayout p1) \<le> memory_start (klayout p')"
    using assms(1) h p1(2) cut_layout
    by (fastforce simp: allocator_mem_alloc_def kres_simps Let_def split: option.splits)
  then show ?thesis
    using p1(1) by simp
qed

text \<open>A layout with less static memory left, lent to a pool.\<close>

definition layout_step :: "layout \<Rightarrow> layout \<Rightarrow> bool" where
  "layout_step l l' \<longleftrightarrow>
     memory_start l \<le> memory_start l' \<and> static_ok l' \<and> unat (memory_end l') + 32 \<le> 2 ^ 32"

lemma pool_ok_layout:
  "pool_ok p \<Longrightarrow> layout_step (klayout p) l \<Longrightarrow> pool_ok (p \<lparr> klayout := l \<rparr>)"
  by (auto simp: pool_ok_def layout_step_def)

lemma pool_unused_layout:
  "layout_step (klayout p) l \<Longrightarrow> pool_unused (p \<lparr> klayout := l \<rparr>) x \<Longrightarrow> pool_unused p x"
  by (auto simp: pool_unused_def layout_step_def)

lemma allocator_map_ok_layout:
  assumes "allocator_map_ok p xs" "layout_step (klayout p) l"
  shows "allocator_map_ok (p \<lparr> klayout := l \<rparr>) xs"
  using assms pool_ok_layout [of p l] pool_unused_layout [OF assms(2)] by (auto simp: allocator_map_ok_def)

lemma vm_map_ok_layout:
  assumes "vm_map_ok p xs" "layout_step (klayout p) l"
  shows "vm_map_ok (p \<lparr> klayout := l \<rparr>) xs"
  using assms pool_ok_layout [of p l] pool_unused_layout [OF assms(2)] by (auto simp: vm_map_ok_def)

lemma layout_stepI: "pool_ok p \<Longrightarrow> memory_start l \<le> memory_start (klayout p) \<Longrightarrow> layout_step l (klayout p)"
  by (simp add: layout_step_def pool_ok_def)

section \<open>Addresses are conserved\<close>

text \<open>The addresses that can be handed out, and those that have been.\<close>

definition avail :: "kmem \<Rightarrow> nat set" where
  "avail s = map_bytes (cell (apool s)) (vm_alloc_map s)"

definition used :: "kmem \<Rightarrow> nat set" where
  "used s = map_bytes (cell (vpool s)) (vm_map s)"

definition kmem_ok :: "kmem \<Rightarrow> bool" where
  "kmem_ok s \<longleftrightarrow>
     allocator_map_ok (the_apool s) (vm_alloc_map s) \<and> vm_map_ok (the_vpool s) (vm_map s)
     \<and> avail s \<inter> used s = {} \<and> span_ok (avail s \<union> used s)"

lemma span_ok_mono: "span_ok S \<Longrightarrow> T \<subseteq> S \<Longrightarrow> span_ok T"
  by (auto simp: span_ok_def)

lemma mem_alloc_align0: "allocator_mem_alloc regions p sz 0 fl = allocator_mem_alloc regions p sz (2 ^ 2) fl"
  by (simp add: allocator_mem_alloc_def)

lemma the_pool_sel [simp]:
  "cell (the_apool s) = cell (apool s)" "cell (the_vpool s) = cell (vpool s)"
  "klayout (the_apool s) = kl s" "klayout (the_vpool s) = kl s"
  by (simp_all add: the_apool_def the_vpool_def)

lemma set_pool_sel [simp]:
  "the_apool (set_apool p s) = p" "the_vpool (set_vpool q s) = q"
  "the_vpool (set_apool p s) = (the_vpool s) \<lparr> klayout := klayout p \<rparr>"
  "the_apool (set_vpool q s) = (the_apool s) \<lparr> klayout := klayout q \<rparr>"
  "apool (set_apool p s) = p" "vpool (set_vpool q s) = q" "vpool (set_apool p s) = vpool s"
  "apool (set_vpool q s) = apool s"
  "vm_map (set_apool p s) = vm_map s" "vm_alloc_map (set_vpool q s) = vm_alloc_map s"
  by (simp_all add: the_apool_def the_vpool_def set_apool_def set_vpool_def set_kl_def kl_def)

lemma the_pool_upd [simp]:
  "the_apool (s \<lparr> vm_alloc_map := xs \<rparr>) = the_apool s" "the_vpool (s \<lparr> vm_alloc_map := xs \<rparr>) = the_vpool s"
  "the_apool (s \<lparr> vm_map := xs \<rparr>) = the_apool s" "the_vpool (s \<lparr> vm_map := xs \<rparr>) = the_vpool s"
  by (simp_all add: the_apool_def the_vpool_def kl_def)

lemma vm_alloc_spec:
  assumes "kmem_ok s" "sz \<noteq> 0" "\<forall>x\<in>set (vm_alloc_map s). align_fits 4 (cell (apool s) x)"
    and "kmem_vm_alloc sz s = Inr (a, s1)" "a \<noteq> 0"
  shows "kmem_ok s1" "byte_range a sz \<subseteq> avail s" "unat a + unat sz \<le> 2 ^ 32"
    and "avail s1 = avail s - byte_range a sz" "used s1 = used s \<union> byte_range a sz" "kmem_vm_get_size a s1 = Some sz"
proof -
  have ok: "allocator_map_ok (the_apool s) (vm_alloc_map s)" "vm_map_ok (the_vpool s) (vm_map s)"
    "avail s \<inter> used s = {}" "span_ok (avail s \<union> used s)"
    using assms(1) by (simp_all add: kmem_ok_def)
  obtain xs p r where m: "allocator_mem_alloc (vm_alloc_map s) (the_apool s) sz (2 ^ 2) ALLOC_VM_KERNEL = Inr (xs, p, r)"
    using assms(4) by (auto simp: kmem_vm_alloc_def mem_alloc_align0 kres_simps)
  let ?s = "(set_apool p s) \<lparr> vm_alloc_map := xs \<rparr>"
  obtain ys q where r: "r = Some a" and v: "vm_map_region_add_new (vm_map s) (the_vpool ?s) a sz = Inr (ys, q)"
    and s1: "s1 = (set_vpool q ?s) \<lparr> vm_map := ys \<rparr>"
    using assms(4,5) m by (auto simp: kmem_vm_alloc_def mem_alloc_align0 kres_simps Let_def split: option.splits)
  have "span_ok (map_bytes (cell (the_apool s)) (vm_alloc_map s))"
    using ok(4) by (rule span_ok_mono) (auto simp: avail_def)
  note al = mem_alloc_Some [OF ok(1) assms(2) _ _ this m [unfolded r], simplified, OF assms(3) [rule_format]]
  show sub: "byte_range a sz \<subseteq> avail s"
    using al(1) by (auto simp: avail_def map_bytes_def)
  show top: "unat a + unat sz \<le> 2 ^ 32"
    using al(3) by simp
  have p: "pool_ok p" "pool_ok (the_apool s)"
    using al(4) ok(1) by (simp_all add: allocator_map_ok_def)
  have l1: "layout_step (klayout (the_vpool s)) (klayout p)"
    using layout_stepI [OF p(1)] mem_alloc_layout [OF m p(2)] by simp
  have vok: "vm_map_ok (the_vpool ?s) (vm_map s)"
    using vm_map_ok_layout [OF ok(2) l1] by simp
  have dis: "map_bytes (cell (the_vpool ?s)) (vm_map s) \<inter> byte_range a sz = {}"
    using sub ok(3) by (auto simp: used_def)
  have "span_ok (map_bytes (cell (the_vpool ?s)) (vm_map s) \<union> byte_range a sz)"
    using ok(4) by (rule span_ok_mono) (use sub in \<open>auto simp: used_def\<close>)
  note ad = vm_add_new_spec [OF vok assms(2) top dis this v]
  have q: "pool_ok q" "pool_ok (the_vpool ?s)"
    using ad(1) vok by (simp_all add: vm_map_ok_def)
  have l2: "layout_step (klayout p) (klayout q)"
    using layout_stepI [OF q(1)] vm_add_layout [OF v q(2)] by simp
  show av: "avail s1 = avail s - byte_range a sz"
    using al(5) s1 by (simp add: avail_def)
  show us: "used s1 = used s \<union> byte_range a sz"
    using ad(2) s1 by (simp add: used_def)
  have "allocator_map_ok (the_apool s1) (vm_alloc_map s1)"
    using allocator_map_ok_layout [OF al(4) l2] s1 by simp
  moreover have "vm_map_ok (the_vpool s1) (vm_map s1)"
    using ad(1) s1 by simp
  moreover have "avail s1 \<union> used s1 = avail s \<union> used s"
    using av us sub by auto
  ultimately show "kmem_ok s1"
    using av us ok(3,4) by (auto simp: kmem_ok_def)
  show "kmem_vm_get_size a s1 = Some sz"
    using ad(3) s1 by (auto simp: kmem_vm_get_size_def)
qed

lemma vm_free_spec:
  assumes "kmem_ok s" "sz \<noteq> 0" "unat a + unat sz \<le> 2 ^ 32" "kmem_vm_get_size a s = Some sz" "kmem_vm_free a s = Inr s1"
  shows "kmem_ok s1 \<and> byte_range a sz \<subseteq> used s \<and> avail s1 = avail s \<union> byte_range a sz \<and> used s1 = used s - byte_range a sz"
proof -
  have ok: "allocator_map_ok (the_apool s) (vm_alloc_map s)" "vm_map_ok (the_vpool s) (vm_map s)"
    "avail s \<inter> used s = {}" "span_ok (avail s \<union> used s)"
    using assms(1) by (simp_all add: kmem_ok_def)
  obtain region where rg: "vm_map_region_find_address (vm_map s) (the_vpool s) a = Some region"
    "rsize (cell (vpool s) region) = sz"
    using assms(4) by (auto simp: kmem_vm_get_size_def split: option.splits)
  obtain ys q where rm: "vm_map_region_remove (vm_map s) (the_vpool s) a = (ys, q)"
    by (cases "vm_map_region_remove (vm_map s) (the_vpool s) a")
  note rs = vm_remove_spec [OF ok(2) rg(1) rm]
  let ?s = "(set_vpool q s) \<lparr> vm_map := ys \<rparr>"
  obtain xs p where fr: "allocator_mem_free (vm_alloc_map s) (the_apool ?s) a sz ALLOC_VM_KERNEL = Inr (xs, p)"
    and s1: "s1 = (set_apool p ?s) \<lparr> vm_alloc_map := xs \<rparr>"
    using assms(5) rg rm rs(4) by (auto simp: kmem_vm_free_def kres_simps Let_def)
  have "region \<in> set (vm_map s)" "address (cell (vpool s) region) = a"
    using rg(1) by (auto simp: vm_map_region_find_address_def mrl_find_address_def find_Some_iff)
  then have rb: "rbytes (cell (vpool s) region) = byte_range a sz" "byte_range a sz \<subseteq> used s"
    using rg(2) by (auto simp: rbytes_def used_def map_bytes_def)
  have kq: "klayout q = kl s"
    using rm by (auto simp: vm_map_region_remove_def vm_map_region_free_def split: option.splits)
  moreover have "(the_apool s) \<lparr> klayout := kl s \<rparr> = the_apool s"
    by (simp add: the_apool_def)
  ultimately have ap: "the_apool ?s = the_apool s"
    by simp
  have aok: "allocator_map_ok (the_apool ?s) (vm_alloc_map s)"
    using ok(1) ap by simp
  have dis: "map_bytes (cell (the_apool ?s)) (vm_alloc_map s) \<inter> byte_range a sz = {}"
    using rb(2) ok(3) by (auto simp: avail_def)
  have "span_ok (map_bytes (cell (the_apool ?s)) (vm_alloc_map s) \<union> byte_range a sz)"
    using ok(4) by (rule span_ok_mono) (use rb(2) in \<open>auto simp: avail_def\<close>)
  note fs = mem_free_spec [OF aok assms(2,3) dis this fr]
  have p: "pool_ok p" "pool_ok (the_apool ?s)"
    using fs(1) aok by (simp_all add: allocator_map_ok_def)
  have "layout_step (klayout q) (klayout p)"
    using layout_stepI [OF p(1)] mem_free_layout [OF fr p(2)] kq ap by simp
  from vm_map_ok_layout [OF rs(1) this] have "vm_map_ok (the_vpool s1) (vm_map s1)"
    using s1 by simp
  moreover have av: "avail s1 = avail s \<union> byte_range a sz"
    using fs(2) s1 by (simp add: avail_def)
  moreover have us: "used s1 = used s - byte_range a sz"
    using rs(2,4) rb(1) s1 by (simp add: used_def)
  moreover have "avail s1 \<union> used s1 = avail s \<union> used s" "avail s1 \<inter> used s1 = {}"
    using av us rb(2) ok(3) by auto
  ultimately show ?thesis
    using fs(1) s1 rb(2) ok(4) by (simp add: kmem_ok_def)
qed

lemma vm_free_returns:
  assumes "kmem_vm_get_size a s = Some sz" "has_room allocator_region_sizeof 1 (the_apool s)"
  shows "\<exists>s'. kmem_vm_free a s = Inr s'"
proof -
  obtain region where rg: "vm_map_region_find_address (vm_map s) (the_vpool s) a = Some region"
    using assms(1) by (auto simp: kmem_vm_get_size_def split: option.splits)
  obtain ys q where rm: "vm_map_region_remove (vm_map s) (the_vpool s) a = (ys, q)"
    by (cases "vm_map_region_remove (vm_map s) (the_vpool s) a")
  then have "klayout q = kl s"
    by (auto simp: vm_map_region_remove_def vm_map_region_free_def split: option.splits)
  then have "the_apool ((set_vpool q s) \<lparr> vm_map := ys \<rparr>) = the_apool s"
    by (simp add: the_apool_def set_vpool_def set_kl_def kl_def)
  then have "\<exists>xs p. allocator_mem_free xs' (the_apool ((set_vpool q s) \<lparr> vm_map := ys \<rparr>)) b n fl = Inr (xs, p)" for xs' b n fl
    using mem_free_returns [of 0 "the_apool s"] assms(2) by simp
  then show ?thesis
    using rg rm by (auto simp: kmem_vm_free_def kres_simps Let_def) (metis)?
qed


text \<open>A kernel with addresses from 0xC0400000 to 0xC0800000 to give.\<close>

definition demo_kmem :: kmem where
  "demo_kmem = \<lparr> pg = demo_paging,
     apool = \<lparr> cell = (\<lambda>_. \<lparr> address = 0xC0400000, rsize = 0x400000, flags = 2 \<rparr>), free_regions = [],
       klayout = kernel_layout demo_paging \<rparr>,
     vpool = \<lparr> cell = (\<lambda>_. \<lparr> address = 0, rsize = 0 \<rparr>), free_regions = [], klayout = kernel_layout demo_paging \<rparr>,
     pm_alloc_map = [], vm_alloc_map = [0xC0101F00], vm_map = [], vm_page_directory = 0xC0101000,
     page_struct_free_list = [], page_addr = (\<lambda>_. 0), pmem = (\<lambda>_. 0) \<rparr>"

lemma demo_kmem_ok: "kmem_ok demo_kmem"
  by (simp add: kmem_ok_def demo_kmem_def demo_paging_def the_apool_def the_vpool_def kl_def avail_def used_def
      allocator_map_ok_def vm_map_ok_def pool_ok_def pool_unused_def static_ok_def wf_regions_def valid_region_def
      rend_def span_ok_def rbytes_def byte_range_def)

lemma demo_kmem_alloc: "\<exists>s. kmem_vm_alloc 0x2000 demo_kmem = Inr (0xC0400000, s)"
  by (simp add: kmem_vm_alloc_def demo_kmem_def demo_paging_def the_apool_def kl_def allocator_mem_alloc_def
      allocator_region_alloc_def allocator_region_sizeof_def kalloc_static_def align_address_def ALLOC_VM_KERNEL_def
      remaining_size_def allocator_region_cut_and_stitch_def mr_cut_and_stitch_def mr_cut_def Let_def
      set_apool_def set_kl_def the_vpool_def vm_map_region_add_new_def vm_map_region_alloc_def vm_map_region_sizeof_def
      START_POINT_IN_RANGE_def END_POINT_IN_RANGE_def END_POINT_GT_START_POINT_def END_POINT_LT_END_POINT_def
      vm_map_region_add_def mrl_add_def set_cell_def allocator_region_free_def)


end
