(* ===== verification/Malloc.thy ===== *)
theory Malloc
  imports Kmem Locking Sched
begin

text \<open>
  mm/malloc.c: the kernel's heap, with mm/vm_space.c and the part of ia32/paging.c that copies
  page tables into blocks of the heap.

  A block of the heap starts with a header of two words, the size of the block and that of the
  data, which is read again when the block is freed.  \<open>vmem\<close> is the memory as the kernel addresses it.
\<close>

section \<open>State\<close>

record heap =
  km :: kmem
  malloc_avail_mem :: "u32 list"
  malloc_spinlock :: spinlock
  hcpu :: sched
  vmem :: memory

text \<open>\<open>struct kmalloc_block\<close>: \<open>block_size\<close> at offset 0, \<open>data_size\<close> at 4, the data at 8.\<close>

definition kmalloc_block :: u32 where "kmalloc_block = 8"

section \<open>Definitions\<close>

definition malloc_lock :: "heap \<Rightarrow> (u32 \<times> heap) krun" where
  "malloc_lock s =
     krun_bind (spinlock_acquire (current_thread_id (hcpu s)) (eflags (hcpu s)) (malloc_spinlock s)) (\<lambda>(flags, ef, l).
       kret (flags, s \<lparr> malloc_spinlock := l, hcpu := (hcpu s) \<lparr> eflags := ef \<rparr> \<rparr>))"

definition malloc_unlock :: "u32 \<Rightarrow> heap \<Rightarrow> heap krun" where
  "malloc_unlock fl s =
     krun_bind (Some (spinlock_release fl (eflags (hcpu s)) (malloc_spinlock s))) (\<lambda>(ef, l).
       kret (s \<lparr> malloc_spinlock := l, hcpu := (hcpu s) \<lparr> eflags := ef \<rparr> \<rparr>))"

definition kmalloc_init :: "heap \<Rightarrow> heap" where
  "kmalloc_init s =
     s \<lparr> malloc_spinlock := spinlock_init (malloc_spinlock s), malloc_avail_mem := allocator_map_init \<rparr>"

definition kmalloc_print_info :: "heap \<Rightarrow> u32 \<times> u32 \<times> u32" where
  "kmalloc_print_info s = allocator_print_map_info (malloc_avail_mem s) (the_apool (km s))"

text \<open>The two operations of the allocator, on the heap's map.\<close>

definition heap_take :: "u32 \<Rightarrow> heap \<Rightarrow> (u32 option \<times> heap) kres" where
  "heap_take sz s =
     kbind (allocator_mem_alloc (malloc_avail_mem s) (the_apool (km s)) sz 0 0) (\<lambda>(regions, p, r).
       Inr (r, s \<lparr> km := set_apool p (km s), malloc_avail_mem := regions \<rparr>))"

definition heap_give :: "u32 \<Rightarrow> u32 \<Rightarrow> heap \<Rightarrow> heap kres" where
  "heap_give ptr sz s =
     kbind (allocator_mem_free (malloc_avail_mem s) (the_apool (km s)) ptr sz 0) (\<lambda>(regions, p).
       Inr (s \<lparr> km := set_apool p (km s), malloc_avail_mem := regions \<rparr>))"

text \<open>The second pass, with more pages.\<close>

definition kmalloc_grow :: "u32 \<Rightarrow> u32 \<Rightarrow> heap \<Rightarrow> (u32 option \<times> heap) krun" where
  "kmalloc_grow vma block_size s =
     (let page_aligned_size = page_align block_size in
      krun_bind (kmem_alloc vma page_aligned_size (km s)) (\<lambda>(page_ptr, k).
        let s = s \<lparr> km := k \<rparr> in
        if page_ptr \<noteq> 0 then
          krun_bind (Some (heap_give page_ptr page_aligned_size s)) (\<lambda>s. Some (heap_take block_size s))
        else kret (None, s)))"

definition kmalloc :: "u32 \<Rightarrow> u32 \<Rightarrow> heap \<Rightarrow> (u32 \<times> heap) krun" where
  "kmalloc vma sz s =
     krun_bind (malloc_lock s) (\<lambda>(flags, s).
       let block_size = kmalloc_block + sz in
       krun_bind (Some (heap_take block_size s)) (\<lambda>(r, s).
         krun_bind (case r of Some block \<Rightarrow> kret (Some block, s) | None \<Rightarrow> kmalloc_grow vma block_size s) (\<lambda>(r, s).
           let (result, s) =
             (case r of
                Some block \<Rightarrow>
                  (block + kmalloc_block, s \<lparr> vmem := store32 (store32 (vmem s) block block_size) (block + 4) sz \<rparr>)
              | None \<Rightarrow> (0, s))
           in krun_bind (malloc_unlock flags s) (\<lambda>s. kret (result, s)))))"

definition malloc_aligned :: "u32 \<Rightarrow> u32 \<Rightarrow> u32 \<Rightarrow> u32" where
  "malloc_aligned bytes alignment fl = 0"

definition kfree :: "u32 \<Rightarrow> heap \<Rightarrow> heap krun" where
  "kfree m s =
     krun_bind (malloc_lock s) (\<lambda>(flags, s).
       krun_bind (if m \<noteq> 0 then Some (heap_give (m - kmalloc_block) (load32 (vmem s) (m - kmalloc_block)) s)
                  else kret s) (malloc_unlock flags))"

text \<open>The copy is as long as the new block, not as the old one.\<close>

definition krealloc :: "u32 \<Rightarrow> u32 \<Rightarrow> u32 \<Rightarrow> heap \<Rightarrow> (u32 \<times> heap) krun" where
  "krealloc vma ptr sz s =
     krun_bind (kmalloc vma sz s) (\<lambda>(new_ptr, s).
       if new_ptr \<noteq> 0 \<and> ptr \<noteq> 0 then
         krun_bind (kfree ptr (s \<lparr> vmem := memcpy (vmem s) new_ptr ptr sz \<rparr>)) (\<lambda>s. kret (new_ptr, s))
       else kret (new_ptr, s))"

section \<open>Copies of address spaces\<close>

definition paging_pd_alloc :: "u32 \<Rightarrow> heap \<Rightarrow> (u32 \<times> heap) krun" where
  "paging_pd_alloc vma s = kmalloc vma 4096 s"

definition paging_pd_free :: "u32 \<Rightarrow> heap \<Rightarrow> heap krun" where
  "paging_pd_free pd s = kfree pd s"

definition on_km :: "(kmem \<Rightarrow> (u32 \<times> kmem) krun) \<Rightarrow> heap \<Rightarrow> (u32 \<times> heap) krun" where
  "on_km f s = krun_bind (f (km s)) (\<lambda>(r, k). kret (r, s \<lparr> km := k \<rparr>))"

definition paging_page_clone_4mb :: "u32 \<Rightarrow> u32 \<Rightarrow> heap \<Rightarrow> (u32 \<times> heap) krun" where
  "paging_page_clone_4mb vma frame s = on_km (kmem_frames_clone vma frame 1024) s"

definition paging_page_clone_4k :: "u32 \<Rightarrow> u32 \<Rightarrow> heap \<Rightarrow> (u32 \<times> heap) krun" where
  "paging_page_clone_4k vma frame s = on_km (kmem_frame_clone vma frame) s"

text \<open>
  The entry that \<open>paging_pt_entry_clone\<close> puts together is not returned: the function has no return
  statement, and its caller gets what the register of the result holds, \<open>eax\<close>.
\<close>

definition paging_pt_entry_clone :: "(u32 \<Rightarrow> u32) \<Rightarrow> u32 \<Rightarrow> u32 \<Rightarrow> heap \<Rightarrow> (u32 \<times> heap) krun" where
  "paging_pt_entry_clone eax vma e s =
     krun_bind (paging_page_clone_4k vma (e AND I86_PTE_FRAME) s) (\<lambda>(result_frame, s).
       krun_bind (krun_assert (result_frame AND NOT I86_PTE_FRAME = 0) ''(result_frame & ~I86_PTE_FRAME) == 0'') (\<lambda>_.
         kret (eax ((e AND NOT I86_PTE_FRAME) OR result_frame), s)))"

text \<open>A loop over the entries of a table, each replaced by what \<open>f\<close> gives for it.\<close>

fun clone_entries ::
    "(u32 \<Rightarrow> heap \<Rightarrow> (u32 \<times> heap) krun) \<Rightarrow> (nat \<Rightarrow> u32) \<Rightarrow> nat \<Rightarrow> nat \<Rightarrow> (nat \<Rightarrow> u32) \<Rightarrow> heap
      \<Rightarrow> ((nat \<Rightarrow> u32) \<times> heap) krun" where
  "clone_entries f src i 0 dest s = kret (dest, s)"
| "clone_entries f src i (Suc n) dest s =
     krun_bind (f (src i) s) (\<lambda>(e, s). clone_entries f src (Suc i) n (dest(i := e)) s)"

definition set_pg :: "(paging \<Rightarrow> paging) \<Rightarrow> heap \<Rightarrow> heap" where
  "set_pg f s = s \<lparr> km := (km s) \<lparr> pg := f (pg (km s)) \<rparr> \<rparr>"

text \<open>The result of \<open>kmalloc\<close> is not tested before the entries are written through it.\<close>

definition paging_pt_clone :: "(u32 \<Rightarrow> u32) \<Rightarrow> u32 \<Rightarrow> u32 \<Rightarrow> heap \<Rightarrow> (u32 \<times> heap) krun" where
  "paging_pt_clone eax vma pt s =
     krun_bind (kmalloc vma 4096 s) (\<lambda>(result, s).
       krun_bind (clone_entries (paging_pt_entry_clone eax vma) (ptabs (pg (km s)) pt) 0 (unat PT_ENTRIES)
                    (ptabs (pg (km s)) result) s) (\<lambda>(es, s).
         if result = 0 then kfail NullDeref else kret (result, set_pg (store_pt result es) s)))"

text \<open>The frame, a physical address, is used as the address of the page table, and the address of the copy as its frame.\<close>

definition paging_pd_entry_clone :: "(u32 \<Rightarrow> u32) \<Rightarrow> u32 \<Rightarrow> u32 \<Rightarrow> heap \<Rightarrow> (u32 \<times> heap) krun" where
  "paging_pd_entry_clone eax vma e s =
     (let frame = paging_pd_entry_get_frame e in
      krun_bind (if e AND I86_PDE_4MB \<noteq> 0 then paging_page_clone_4mb vma frame s
                 else paging_pt_clone eax vma frame s) (\<lambda>(frame, s).
        krun_bind (Some (paging_pd_entry_set_frame e frame)) (\<lambda>result. kret (result, s))))"

definition paging_pd_clone :: "(u32 \<Rightarrow> u32) \<Rightarrow> u32 \<Rightarrow> u32 \<Rightarrow> heap \<Rightarrow> (u32 \<times> heap) krun" where
  "paging_pd_clone eax vma pd s =
     krun_bind (kmalloc vma 4096 s) (\<lambda>(result, s).
       krun_bind (clone_entries (paging_pd_entry_clone eax vma) (pdirs (pg (km s)) pd) 0 PDT_KERNEL_START
                    (pdirs (pg (km s)) result) s) (\<lambda>(es, s).
         if result = 0 then kfail NullDeref
         else
           let es = (\<lambda>i. if PDT_KERNEL_START \<le> i \<and> i < PDT_ENTRIES then pdirs (pg (km s)) pd i else es i)
           in kret (result, set_pg (\<lambda>st. st \<lparr> pdirs := (pdirs st)(result := es) \<rparr>) s)))"

text \<open>An address space, and its copy.  The two maps of the copy are what \<open>kmalloc\<close> left in its block.\<close>

record vm_space =
  s_vm_alloc_map :: "u32 list"
  s_vm_map :: "u32 list"
  s_page_directory :: u32

definition vm_space_clone ::
    "(u32 \<Rightarrow> u32) \<Rightarrow> u32 \<Rightarrow> vm_space \<Rightarrow> vm_space \<Rightarrow> heap \<Rightarrow> (vm_space option \<times> heap) krun" where
  "vm_space_clone eax vma garbage par s =
     krun_bind (kmalloc vma 16 s) (\<lambda>(child, s).
       if child = 0 then kret (None, s)
       else
         krun_bind (paging_pd_clone eax vma (s_page_directory par) s) (\<lambda>(pd, s).
           if pd = 0 then krun_bind (kfree child s) (\<lambda>s. kret (None, s))
           else
             krun_bind (vm_map_init_copy (s_vm_map garbage) (s_vm_map par) (the_vpool (km s))) (\<lambda>(m, q).
               let s = s \<lparr> km := set_vpool q (km s) \<rparr> in
               krun_bind (allocator_map_init_copy (s_vm_alloc_map garbage) (s_vm_alloc_map par) (the_apool (km s))) (\<lambda>(am, p).
                 kret (Some \<lparr> s_vm_alloc_map = am, s_vm_map = m, s_page_directory = pd \<rparr>,
                       s \<lparr> km := set_apool p (km s) \<rparr>)))))"

section \<open>The lock of the heap\<close>

interpretation hl: lock_holder malloc_spinlock "\<lambda>l s. s \<lparr> malloc_spinlock := l \<rparr>" "\<lambda>s. eflags (hcpu s)"
    "\<lambda>ef s. s \<lparr> hcpu := (hcpu s) \<lparr> eflags := ef \<rparr> \<rparr>" "\<lambda>s. current_thread_id (hcpu s)" malloc_lock malloc_unlock
  by unfold_locales (simp_all add: malloc_lock_def malloc_unlock_def)

lemma load32_store32_next: "load32 (store32 m (a + 4) v) a = load32 m a"
  by (simp add: load32_def store32_def)

section \<open>Blocks\<close>

definition heap_bytes :: "heap \<Rightarrow> nat set" where
  "heap_bytes s = map_bytes (cell (apool (km s))) (malloc_avail_mem s)"

definition heap_ok :: "heap \<Rightarrow> bool" where
  "heap_ok s \<longleftrightarrow>
     allocator_map_ok (the_apool (km s)) (malloc_avail_mem s)
     \<and> current_thread_id (hcpu s) \<noteq> 0 \<and> spinlock_ok (malloc_spinlock s)
     \<and> (owner (malloc_spinlock s) = 0 \<or> owner (malloc_spinlock s) = current_thread_id (hcpu s))"

lemma heap_can_lock: "heap_ok s \<Longrightarrow> hl.can_lock s"
  by (simp add: heap_ok_def hl.can_lock_def)

lemma heap_held_sel [simp]:
  "km (hl.held s) = km s" "malloc_avail_mem (hl.held s) = malloc_avail_mem s" "vmem (hl.held s) = vmem s"
  by (simp_all add: hl.held_def)

lemma heap_take_held:
  "heap_take sz s = Inr (r, s') \<Longrightarrow>
   heap_take sz (hl.held s) = Inr (r, (hl.held s) \<lparr> km := km s', malloc_avail_mem := malloc_avail_mem s' \<rparr>)"
  by (auto simp: heap_take_def kres_simps)

lemma heap_take_same: "heap_take sz s = Inr (r, s') \<Longrightarrow> s' = s \<lparr> km := km s', malloc_avail_mem := malloc_avail_mem s' \<rparr>"
  by (auto simp: heap_take_def kres_simps)

lemma heap_take_spec:
  assumes "heap_ok s" "sz \<noteq> 0" "span_ok (heap_bytes s)" "\<forall>x\<in>set (malloc_avail_mem s). align_fits 4 (cell (apool (km s)) x)"
    and "heap_take sz s = Inr (Some b, s')"
  shows "heap_ok s'" "byte_range b sz \<subseteq> heap_bytes s" "unat b + unat sz \<le> 2 ^ 32" "4 dvd unat b"
    and "heap_bytes s' = heap_bytes s - byte_range b sz"
proof -
  obtain xs p where m: "allocator_mem_alloc (malloc_avail_mem s) (the_apool (km s)) sz (2 ^ 2) 0 = Inr (xs, p, Some b)"
    and s': "s' = s \<lparr> km := set_apool p (km s), malloc_avail_mem := xs \<rparr>"
    using assms(5) by (auto simp: heap_take_def mem_alloc_align0 kres_simps)
  have ok: "allocator_map_ok (the_apool (km s)) (malloc_avail_mem s)"
    using assms(1) by (simp add: heap_ok_def)
  have "span_ok (map_bytes (cell (the_apool (km s))) (malloc_avail_mem s))"
    using assms(3) by (simp add: heap_bytes_def)
  note al = mem_alloc_Some [OF ok assms(2) _ _ this m, simplified, OF assms(4) [rule_format]]
  show "heap_ok s'"
    using al(4) assms(1) s' by (simp add: heap_ok_def)
  show "byte_range b sz \<subseteq> heap_bytes s"
    using al(1) by (auto simp: heap_bytes_def map_bytes_def)
  show "unat b + unat sz \<le> 2 ^ 32" "4 dvd unat b"
    using al(2,3) by simp_all
  show "heap_bytes s' = heap_bytes s - byte_range b sz"
    using al(5) s' by (simp add: heap_bytes_def)
qed

lemma heap_give_spec:
  assumes "heap_ok s" "sz \<noteq> 0" "unat b + unat sz \<le> 2 ^ 32" "heap_bytes s \<inter> byte_range b sz = {}"
    and "span_ok (heap_bytes s \<union> byte_range b sz)" "heap_give b sz s = Inr s'"
  shows "heap_ok s'" "heap_bytes s' = heap_bytes s \<union> byte_range b sz"
proof -
  obtain xs p where m: "allocator_mem_free (malloc_avail_mem s) (the_apool (km s)) b sz 0 = Inr (xs, p)"
    and s': "s' = s \<lparr> km := set_apool p (km s), malloc_avail_mem := xs \<rparr>"
    using assms(6) by (auto simp: heap_give_def kres_simps)
  have "allocator_map_ok (the_apool (km s)) (malloc_avail_mem s)"
    using assms(1) by (simp add: heap_ok_def)
  note fr = mem_free_spec [OF this assms(2,3) _ _ m]
  have "map_bytes (cell (the_apool (km s))) (malloc_avail_mem s) \<inter> byte_range b sz = {}"
    "span_ok (map_bytes (cell (the_apool (km s))) (malloc_avail_mem s) \<union> byte_range b sz)"
    using assms(4,5) by (simp_all add: heap_bytes_def)
  note fr' = fr [OF this]
  show "heap_ok s'"
    using fr'(1) assms(1) s' by (simp add: heap_ok_def)
  show "heap_bytes s' = heap_bytes s \<union> byte_range b sz"
    using fr'(2) s' by (simp add: heap_bytes_def)
qed

lemma kmalloc_first_pass:
  assumes "heap_ok s" "heap_take (8 + sz) s = Inr (Some b, s')"
  shows "kmalloc vma sz s = kret (b + 8, s' \<lparr> vmem := store32 (store32 (vmem s) b (8 + sz)) (b + 4) sz \<rparr>)"
proof -
  let ?h = "(hl.held s) \<lparr> km := km s', malloc_avail_mem := malloc_avail_mem s',
    vmem := store32 (store32 (vmem s) b (8 + sz)) (b + 4) sz \<rparr>"
  have "hl.same_lock (hl.held s) ?h"
    by (simp add: hl.same_lock_def)
  then have "malloc_unlock (eflags (hcpu s)) ?h = kret (hl.released s ?h)"
    by (rule hl.unlock_ok [OF heap_can_lock [OF assms(1)]])
  moreover have "hl.released s ?h = s' \<lparr> vmem := store32 (store32 (vmem s) b (8 + sz)) (b + 4) sz \<rparr>"
    by (subst heap_take_same [OF assms(2)]) (simp add: hl.released_def hl.held_def)
  ultimately show ?thesis
    using hl.lock_ok [OF heap_can_lock [OF assms(1)]] heap_take_held [OF assms(2)]
    by (simp add: kmalloc_def kmalloc_block_def Let_def)
qed

text \<open>Under its lock \<open>kfree\<close> gives the block back to the map.\<close>

lemma kfree_gives:
  assumes "heap_ok s" "m \<noteq> 0"
  shows "kfree m s = Some (heap_give (m - 8) (load32 (vmem s) (m - 8)) s)"
proof -
  let ?h = "hl.held s" and ?b = "load32 (vmem s) (m - 8)"
  have k: "kfree m s = krun_bind (Some (heap_give (m - 8) ?b ?h)) (malloc_unlock (eflags (hcpu s)))"
    using hl.lock_ok [OF heap_can_lock [OF assms(1)]] assms(2) by (simp add: kfree_def kmalloc_block_def)
  show ?thesis
  proof (cases "allocator_mem_free (malloc_avail_mem s) (the_apool (km s)) (m - 8) ?b 0")
    case (Inl e)
    then show ?thesis
      using k by (simp add: heap_give_def kfail_def)
  next
    case (Inr r)
    then obtain xs p where xs: "allocator_mem_free (malloc_avail_mem s) (the_apool (km s)) (m - 8) ?b 0 = Inr (xs, p)"
      by (cases r) simp
    let ?s' = "?h \<lparr> km := set_apool p (km s), malloc_avail_mem := xs \<rparr>"
    have "malloc_unlock (eflags (hcpu s)) ?s' = kret (hl.released s ?s')"
      by (rule hl.unlock_ok [OF heap_can_lock [OF assms(1)]]) (simp add: hl.same_lock_def)
    then show ?thesis
      using k xs by (simp add: heap_give_def kret_def hl.released_def hl.held_def)
  qed
qed

lemma heap_give_returns:
  assumes "has_room allocator_region_sizeof 1 (the_apool (km s))"
  shows "\<exists>s'. heap_give b sz s = Inr s'"
  using mem_free_returns [of 0 "the_apool (km s)" "malloc_avail_mem s" b sz 0] assms
  by (auto simp: heap_give_def)


text \<open>A heap of one page.\<close>

definition demo_heap :: heap where
  "demo_heap = \<lparr> km = demo_kmem \<lparr> apool := (apool demo_kmem)
       \<lparr> cell := (\<lambda>_. \<lparr> address = 0xC0500000, rsize = 0x1000, flags = 0 \<rparr>) \<rparr> \<rparr>,
     malloc_avail_mem = [0xC0101F00], malloc_spinlock = \<lparr> owner = 0, nested = 0 \<rparr>, hcpu = demo_sched, vmem = (\<lambda>_. 0) \<rparr>"

lemma demo_heap_ok: "heap_ok demo_heap" "span_ok (heap_bytes demo_heap)"
  by (simp_all add: heap_ok_def demo_heap_def demo_kmem_def demo_paging_def the_apool_def kl_def heap_bytes_def
      allocator_map_ok_def pool_ok_def pool_unused_def static_ok_def wf_regions_def valid_region_def
      rend_def span_ok_def rbytes_def byte_range_def demo_sched_def current_thread_id_def spinlock_ok_def)

lemma demo_heap_take: "\<exists>s. heap_take 108 demo_heap = Inr (Some 0xC0500000, s)"
  by (simp add: heap_take_def demo_heap_def demo_kmem_def demo_paging_def the_apool_def kl_def allocator_mem_alloc_def
      allocator_region_alloc_def allocator_region_sizeof_def kalloc_static_def align_address_def
      remaining_size_def allocator_region_cut_and_stitch_def mr_cut_and_stitch_def mr_cut_def Let_def
      START_POINT_IN_RANGE_def END_POINT_IN_RANGE_def END_POINT_GT_START_POINT_def END_POINT_LT_END_POINT_def
      set_cell_def allocator_region_free_def)


lemma kmalloc_second_pass_fails:
  assumes "heap_ok s" "heap_take (8 + sz) s = Inr (None, s')" "kmem_alloc vma (page_align (8 + sz)) (km s') = kret (0, k)"
  shows "kmalloc vma sz s = kret (0, s' \<lparr> km := k \<rparr>)"
proof -
  let ?h = "(hl.held s) \<lparr> malloc_avail_mem := malloc_avail_mem s', km := k \<rparr>"
  have "malloc_unlock (eflags (hcpu s)) ?h = kret (hl.released s ?h)"
    by (rule hl.unlock_ok [OF heap_can_lock [OF assms(1)]]) (simp add: hl.same_lock_def)
  moreover have "hl.released s ?h = s' \<lparr> km := k \<rparr>"
    by (subst heap_take_same [OF assms(2)]) (simp add: hl.released_def hl.held_def)
  ultimately show ?thesis
    using hl.lock_ok [OF heap_can_lock [OF assms(1)]] heap_take_held [OF assms(2)] assms(3)
    by (simp add: kmalloc_def kmalloc_grow_def kmalloc_block_def Let_def)
qed



end
