(* ===== verification/Ports.thy ===== *)
theory Ports
  imports KRun Bits
begin

text \<open>
  The I/O ports, ia32/io.c.  The devices are not part of the program: what a device answers to a read is an argument, a
  function of all that has been read and written before and of the port.  The state is that history, the
  latest event first.
\<close>

datatype io_event = In u16 u8 | Out u16 u8

type_synonym io = "io_event list"

type_synonym device = "io \<Rightarrow> u16 \<Rightarrow> u8"

definition inb :: "device \<Rightarrow> u16 \<Rightarrow> io \<Rightarrow> u8 \<times> io" where
  "inb dev port t = (dev t port, In port (dev t port) # t)"

definition outb :: "u16 \<Rightarrow> u8 \<Rightarrow> io \<Rightarrow> io" where
  "outb port value t = Out port value # t"

definition io_wait :: "io \<Rightarrow> io" where
  "io_wait t = outb 0x80 0 t"

text \<open>The bytes written to a port, the first one first.\<close>

fun written :: "u16 \<Rightarrow> io \<Rightarrow> u8 list" where
  "written port [] = []"
| "written port (Out p v # t) = (if p = port then written port t @ [v] else written port t)"
| "written port (In p v # t) = written port t"

lemma written_inb [simp]: "written port (snd (inb dev p t)) = written port t"
  by (simp add: inb_def)

lemma written_outb [simp]: "written port (outb p v t) = (if p = port then written port t @ [v] else written port t)"
  by (simp add: outb_def)

lemma written_io_wait [simp]: "port \<noteq> 0x80 \<Longrightarrow> written port (io_wait t) = written port t"
  by (simp add: io_wait_def)

section \<open>Fields of registers\<close>

text \<open>A field of a byte register: the macros work on an \<open>int\<close>, and the result is stored in the byte.\<close>

definition set_field :: "u8 \<Rightarrow> nat \<Rightarrow> nat \<Rightarrow> u32 \<Rightarrow> u8" where
  "set_field r i j v = ucast (withbits (ucast r) i j v)"

definition get_field :: "u8 \<Rightarrow> nat \<Rightarrow> nat \<Rightarrow> u32" where
  "get_field r i j = getbits (ucast r) i j"

definition set_bit_field :: "u8 \<Rightarrow> nat \<Rightarrow> u32 \<Rightarrow> u8" where
  "set_bit_field r i v = ucast (withbit (ucast r) i v)"

definition get_bit_field :: "u8 \<Rightarrow> nat \<Rightarrow> u32" where
  "get_bit_field r i = getbit (ucast r) i"

named_theorems reg_simps

lemma set_field_word [reg_simps]:
  assumes "i \<le> j" "j < 8"
  shows "set_field r i j v =
    (r AND NOT (push_bit i (mask (Suc j - i)))) OR (push_bit i (ucast v) AND push_bit i (mask (Suc j - i)))"
  using assms by (intro bit_word_eqI) (auto simp: set_field_def bitfield_simps bit_simps)

lemma set_bit_field_word [reg_simps]:
  assumes "i < 8"
  shows "set_bit_field r i v = (r AND NOT (push_bit i 1)) OR (push_bit i (ucast v) AND push_bit i 1)"
  using assms by (intro bit_word_eqI) (auto simp: set_bit_field_def withbit_def bitfield_simps bit_simps)

lemma get_field_word [reg_simps]:
  assumes "i \<le> j" "j < 8"
  shows "get_field r i j = ucast (drop_bit i r AND mask (Suc j - i))"
  using assms by (intro bit_word_eqI) (auto simp: get_field_def bitfield_simps bit_simps)

lemma get_bit_field_word [reg_simps]:
  assumes "i < 8"
  shows "get_bit_field r i = of_bool (bit r i)"
  using assms by (intro bit_word_eqI) (auto simp: get_bit_field_def getbit_def bitfield_simps bit_simps)

lemma get_set_field:
  assumes "i \<le> j" "j < 8"
  shows "get_field (set_field r i j v) i j = v AND mask (Suc j - i)"
  using assms by (intro bit_word_eqI) (auto simp: get_field_def set_field_def bitfield_simps bit_simps)

lemma get_set_field_other:
  assumes "i \<le> j" "j < 8" "i' \<le> j'" "j' < 8" "j < i' \<or> j' < i"
  shows "get_field (set_field r i j v) i' j' = get_field r i' j'"
  using assms by (intro bit_word_eqI) (auto simp: get_field_def set_field_def bitfield_simps bit_simps)

lemma bit_field_eq: "set_bit_field r i v = set_field r i i v" "get_bit_field r i = get_field r i i"
  by (simp_all add: set_bit_field_def set_field_def get_bit_field_def get_field_def withbit_def getbit_def)

lemma byte_ones: "(255 :: u32) = mask 8" "(255 :: u8) = mask 8"
  by (simp_all add: mask_eq_exp_minus_1)

end
