(* ===== verification/Uart.thy ===== *)
theory Uart
  imports Ports
begin

text \<open>
  The serial port, ia32/uart.c.  The registers are bytes at the port and the seven ports above it; their fields are
  read and written by the bit macros.
\<close>

section \<open>Registers\<close>

datatype uart_model =
  uart_unknown | uart_8250 | uart_16450 | uart_16550 | uart_16550A | uart_16750 | uart_unsupported

record uart_caps =
  model :: uart_model
  has_fifo :: bool
  scratch_reg :: bool
  receive_fifo_size :: u8
  transmit_fifo_size :: u8

definition UART_UART_BAUD :: nat where "UART_UART_BAUD = 115200"
definition UART_COM1 :: u16 where "UART_COM1 = 0x3f8"
definition UART_DIVISOR_LATCH_LSB :: u16 where "UART_DIVISOR_LATCH_LSB = 0"
definition UART_INTERRUPT_ENABLE_REG :: u16 where "UART_INTERRUPT_ENABLE_REG = 1"
definition UART_DIVISOR_LATCH_MSB :: u16 where "UART_DIVISOR_LATCH_MSB = 1"
definition UART_INTERRUPT_IDENT_REG :: u16 where "UART_INTERRUPT_IDENT_REG = 2"
definition UART_FIFO_CTRL_REG :: u16 where "UART_FIFO_CTRL_REG = 2"
definition UART_LINE_CTRL_REG :: u16 where "UART_LINE_CTRL_REG = 3"
definition UART_MODEM_CTRL_REG :: u16 where "UART_MODEM_CTRL_REG = 4"
definition UART_LINE_STATUS_REG :: u16 where "UART_LINE_STATUS_REG = 5"
definition UART_SCRATCH_REG :: u16 where "UART_SCRATCH_REG = 7"

lemmas uart_regs = UART_DIVISOR_LATCH_LSB_def UART_INTERRUPT_ENABLE_REG_def UART_DIVISOR_LATCH_MSB_def
  UART_INTERRUPT_IDENT_REG_def UART_FIFO_CTRL_REG_def UART_LINE_CTRL_REG_def UART_MODEM_CTRL_REG_def
  UART_LINE_STATUS_REG_def UART_SCRATCH_REG_def

definition UART_LCR_SET_STOP_BITS :: "u8 \<Rightarrow> u32 \<Rightarrow> u8" where "UART_LCR_SET_STOP_BITS r v = set_bit_field r 2 v"
definition UART_LCR_SET_PARITY :: "u8 \<Rightarrow> u32 \<Rightarrow> u8" where "UART_LCR_SET_PARITY r v = set_field r 3 5 v"
definition UART_LCR_SET_DLAB :: "u8 \<Rightarrow> u32 \<Rightarrow> u8" where "UART_LCR_SET_DLAB r v = set_bit_field r 7 v"
definition UART_FCR_SET_ENABLED :: "u8 \<Rightarrow> u32 \<Rightarrow> u8" where "UART_FCR_SET_ENABLED r v = set_bit_field r 0 v"
definition UART_FCR_SET_CLEAR_RX_FIFO :: "u8 \<Rightarrow> u32 \<Rightarrow> u8" where "UART_FCR_SET_CLEAR_RX_FIFO r v = set_bit_field r 1 v"
definition UART_FCR_SET_CLEAR_TX_FIFO :: "u8 \<Rightarrow> u32 \<Rightarrow> u8" where "UART_FCR_SET_CLEAR_TX_FIFO r v = set_bit_field r 2 v"
definition UART_FCR_SET_INT_TRIGGER_LEVEL :: "u8 \<Rightarrow> u32 \<Rightarrow> u8" where
  "UART_FCR_SET_INT_TRIGGER_LEVEL r v = set_field r 6 7 v"
definition UART_MCR_SET_DATA_TERMINAL_READY :: "u8 \<Rightarrow> u32 \<Rightarrow> u8" where
  "UART_MCR_SET_DATA_TERMINAL_READY r v = set_bit_field r 0 v"
definition UART_MCR_SET_REQUEST_TO_SEND :: "u8 \<Rightarrow> u32 \<Rightarrow> u8" where
  "UART_MCR_SET_REQUEST_TO_SEND r v = set_bit_field r 1 v"
definition UART_MCR_SET_INT_ENABLE_OR_AUX_OUT_2 :: "u8 \<Rightarrow> u32 \<Rightarrow> u8" where
  "UART_MCR_SET_INT_ENABLE_OR_AUX_OUT_2 r v = set_bit_field r 3 v"
definition UART_IIR_GET_64_BYTE_BUFFER_ENABLED :: "u8 \<Rightarrow> u32" where
  "UART_IIR_GET_64_BYTE_BUFFER_ENABLED r = get_bit_field r 5"
definition UART_IIR_GET_FIFO_STATUS :: "u8 \<Rightarrow> u32" where "UART_IIR_GET_FIFO_STATUS r = get_field r 6 7"
definition UART_LSR_GET_DATA_AVAILABLE :: "u8 \<Rightarrow> u32" where "UART_LSR_GET_DATA_AVAILABLE r = get_bit_field r 0"
definition UART_LSR_GET_THR_EMPTY :: "u8 \<Rightarrow> u32" where "UART_LSR_GET_THR_EMPTY r = get_bit_field r 5"

section \<open>Operations\<close>

definition uart_write_reg :: "u16 \<Rightarrow> u16 \<Rightarrow> u8 \<Rightarrow> io \<Rightarrow> io" where
  "uart_write_reg port reg value t = outb (port + reg) value t"

definition uart_read_reg :: "device \<Rightarrow> u16 \<Rightarrow> u16 \<Rightarrow> io \<Rightarrow> u8 \<times> io" where
  "uart_read_reg dev port reg t = inb dev (port + reg) t"

text \<open>A quotient that is cut to zero would only be reported on the console; a division by zero is an exception.\<close>

definition uart_calc_uart_divisor :: "u16 \<Rightarrow> u16 kres" where
  "uart_calc_uart_divisor desired_baud =
     (if desired_baud = 0 then Inl (Panic ''divide error'')
      else Inr (of_nat (UART_UART_BAUD div unat desired_baud)))"

definition uart_write_baud :: "u16 \<Rightarrow> u16 \<Rightarrow> io \<Rightarrow> io kres" where
  "uart_write_baud port baud t =
     kbind (uart_calc_uart_divisor baud) (\<lambda>divisor.
       let d_hi = ucast (drop_bit 8 divisor);
           d_lo = ucast divisor
       in Inr (uart_write_reg port UART_DIVISOR_LATCH_MSB d_hi (uart_write_reg port UART_DIVISOR_LATCH_LSB d_lo t)))"

definition uart_enable :: "u16 \<Rightarrow> io \<Rightarrow> io kres" where
  "uart_enable port t =
     (let t = uart_write_reg port UART_INTERRUPT_ENABLE_REG 0 t;
          lcr = UART_LCR_SET_DLAB 0 1;
          t = uart_write_reg port UART_LINE_CTRL_REG lcr t
      in kbind (uart_write_baud port 38400 t) (\<lambda>t.
           let lcr = UART_LCR_SET_DLAB lcr 0;
               lcr = UART_LCR_SET_PARITY lcr 0;
               lcr = UART_LCR_SET_STOP_BITS lcr 0;
               t = uart_write_reg port UART_LINE_CTRL_REG lcr t;
               fcr = UART_FCR_SET_ENABLED 0 1;
               fcr = UART_FCR_SET_CLEAR_RX_FIFO fcr 1;
               fcr = UART_FCR_SET_CLEAR_TX_FIFO fcr 1;
               fcr = UART_FCR_SET_INT_TRIGGER_LEVEL fcr 3;
               t = uart_write_reg port UART_FIFO_CTRL_REG fcr t;
               mcr = UART_MCR_SET_DATA_TERMINAL_READY 0 1;
               mcr = UART_MCR_SET_REQUEST_TO_SEND mcr 1;
               mcr = UART_MCR_SET_INT_ENABLE_OR_AUX_OUT_2 mcr 1
           in Inr (uart_write_reg port UART_MODEM_CTRL_REG mcr t)))"

definition uart_is_transmit_fifo_empty :: "device \<Rightarrow> u16 \<Rightarrow> io \<Rightarrow> bool \<times> io" where
  "uart_is_transmit_fifo_empty dev port t =
     (let (lsr, t) = uart_read_reg dev port UART_LINE_STATUS_REG t in (UART_LSR_GET_THR_EMPTY lsr = 1, t))"

definition uart_is_receive_fifo_empty :: "device \<Rightarrow> u16 \<Rightarrow> io \<Rightarrow> bool \<times> io" where
  "uart_is_receive_fifo_empty dev port t =
     (let (lsr, t) = uart_read_reg dev port UART_LINE_STATUS_REG t in (UART_LSR_GET_DATA_AVAILABLE lsr = 0, t))"

partial_function (option) uart_transmit_fifo_spinwait :: "device \<Rightarrow> u16 \<Rightarrow> io \<Rightarrow> io option" where
  "uart_transmit_fifo_spinwait dev port t =
     (if \<not> fst (uart_is_transmit_fifo_empty dev port t)
      then uart_transmit_fifo_spinwait dev port (snd (uart_is_transmit_fifo_empty dev port t))
      else Some (snd (uart_is_transmit_fifo_empty dev port t)))"

partial_function (option) uart_receive_fifo_spinwait :: "device \<Rightarrow> u16 \<Rightarrow> io \<Rightarrow> io option" where
  "uart_receive_fifo_spinwait dev port t =
     (if fst (uart_is_receive_fifo_empty dev port t)
      then uart_receive_fifo_spinwait dev port (snd (uart_is_receive_fifo_empty dev port t))
      else Some (snd (uart_is_receive_fifo_empty dev port t)))"

definition uart_putc_sync :: "device \<Rightarrow> u16 \<Rightarrow> u8 \<Rightarrow> io \<Rightarrow> io option" where
  "uart_putc_sync dev port c t = map_option (outb port c) (uart_transmit_fifo_spinwait dev port t)"

text \<open>A string is its bytes; the end of the list is the terminator too.\<close>

fun uart_puts_sync :: "device \<Rightarrow> u16 \<Rightarrow> u8 list \<Rightarrow> io \<Rightarrow> io option" where
  "uart_puts_sync dev port [] t = Some t"
| "uart_puts_sync dev port (c # s) t =
     (if c = 0 then Some t else Option.bind (uart_putc_sync dev port c t) (uart_puts_sync dev port s))"

definition uart_getc_sync :: "device \<Rightarrow> u16 \<Rightarrow> io \<Rightarrow> (u8 \<times> io) option" where
  "uart_getc_sync dev port t = map_option (inb dev port) (uart_receive_fifo_spinwait dev port t)"

text \<open>The fields of the result that are not set keep what they had.\<close>

definition uart_fingerprint_uart :: "device \<Rightarrow> u16 \<Rightarrow> uart_caps \<Rightarrow> io \<Rightarrow> uart_caps \<times> io" where
  "uart_fingerprint_uart dev port result t =
     (let fcr = UART_FCR_SET_ENABLED 0 1;
          fcr = UART_FCR_SET_CLEAR_RX_FIFO fcr 1;
          fcr = UART_FCR_SET_CLEAR_TX_FIFO fcr 1;
          t = uart_write_reg port UART_FIFO_CTRL_REG fcr t;
          t = uart_write_reg port UART_SCRATCH_REG 0x2a t;
          (scratch, t) = uart_read_reg dev port UART_SCRATCH_REG t;
          result = result \<lparr> scratch_reg := (0x2a = scratch) \<rparr>;
          (iir, t) = uart_read_reg dev port UART_INTERRUPT_IDENT_REG t
      in if UART_IIR_GET_FIFO_STATUS iir = 3 then
           (if UART_IIR_GET_64_BYTE_BUFFER_ENABLED fcr \<noteq> 0
            then (result \<lparr> has_fifo := True, model := uart_16750, receive_fifo_size := 64, transmit_fifo_size := 64 \<rparr>, t)
            else (result \<lparr> has_fifo := True, model := uart_16550A, receive_fifo_size := 16, transmit_fifo_size := 16 \<rparr>, t))
         else if UART_IIR_GET_FIFO_STATUS fcr = 1 then
           (result \<lparr> model := uart_16550, has_fifo := True, receive_fifo_size := 1, transmit_fifo_size := 1 \<rparr>, t)
         else
           (result \<lparr> has_fifo := False, model := (if scratch_reg result then uart_16450 else uart_8250) \<rparr>, t))"

section \<open>Transmission\<close>

text \<open>The history after a poll of the line status, and a device that is ready again after some number of polls.\<close>

definition poll :: "device \<Rightarrow> u16 \<Rightarrow> io \<Rightarrow> io" where
  "poll dev port t = snd (inb dev (port + 5) t)"

definition eventually_ready :: "device \<Rightarrow> u16 \<Rightarrow> bool" where
  "eventually_ready dev port \<longleftrightarrow> (\<forall>t. \<exists>n. bit (dev ((poll dev port ^^ n) t) (port + 5)) 5)"

lemmas uart_fields = UART_LCR_SET_STOP_BITS_def UART_LCR_SET_PARITY_def UART_LCR_SET_DLAB_def UART_FCR_SET_ENABLED_def
  UART_FCR_SET_CLEAR_RX_FIFO_def UART_FCR_SET_CLEAR_TX_FIFO_def UART_FCR_SET_INT_TRIGGER_LEVEL_def
  UART_MCR_SET_DATA_TERMINAL_READY_def UART_MCR_SET_REQUEST_TO_SEND_def UART_MCR_SET_INT_ENABLE_OR_AUX_OUT_2_def
  UART_IIR_GET_64_BYTE_BUFFER_ENABLED_def UART_IIR_GET_FIFO_STATUS_def UART_LSR_GET_DATA_AVAILABLE_def
  UART_LSR_GET_THR_EMPTY_def

lemma thr_empty_iff: "UART_LSR_GET_THR_EMPTY r = 1 \<longleftrightarrow> bit r 5"
  by (simp add: uart_fields reg_simps)

lemma spinwait_step:
  "uart_transmit_fifo_spinwait dev port t =
     (if bit (dev t (port + 5)) 5 then Some (poll dev port t) else uart_transmit_fifo_spinwait dev port (poll dev port t))"
  by (subst uart_transmit_fifo_spinwait.simps)
    (simp add: uart_is_transmit_fifo_empty_def uart_read_reg_def inb_def poll_def uart_regs thr_empty_iff Let_def)

lemma spinwait_returns:
  assumes "bit (dev ((poll dev port ^^ n) t) (port + 5)) 5"
  shows "\<exists>t'. uart_transmit_fifo_spinwait dev port t = Some t' \<and> written port t' = written port t"
  using assms
proof (induction n arbitrary: t)
  case 0
  then show ?case
    by (subst spinwait_step) (simp add: poll_def)
next
  case (Suc n)
  then have "bit (dev ((poll dev port ^^ n) (poll dev port t)) (port + 5)) 5"
    by (simp add: funpow_swap1)
  from Suc.IH [OF this] show ?case
    by (subst spinwait_step) (simp add: poll_def)
qed

lemma uart_putc_returns:
  assumes "eventually_ready dev port"
  shows "\<exists>t'. uart_putc_sync dev port c t = Some t' \<and> written port t' = written port t @ [c]"
proof -
  obtain n where "bit (dev ((poll dev port ^^ n) t) (port + 5)) 5"
    using assms by (auto simp: eventually_ready_def)
  from spinwait_returns [of dev n port t, OF this] show ?thesis
    by (auto simp: uart_putc_sync_def)
qed

text \<open>
  Sending a string over the serial line ends whenever the device gets ready again after each byte, however many polls that takes,
  and the bytes written to the port are those of the string up to its terminator, in order and each once.
\<close>

theorem uart_puts_transmits:
  assumes "eventually_ready dev port"
  shows "\<exists>t'. uart_puts_sync dev port s t = Some t' \<and> written port t' = written port t @ takeWhile (\<lambda>c. c \<noteq> 0) s"
proof (induction s arbitrary: t)
  case (Cons c s)
  obtain t1 where "uart_putc_sync dev port c t = Some t1" "written port t1 = written port t @ [c]"
    using uart_putc_returns [OF assms] by blast
  moreover obtain t2 where "uart_puts_sync dev port s t1 = Some t2"
    "written port t2 = written port t1 @ takeWhile (\<lambda>c. c \<noteq> 0) s"
    using Cons by blast
  ultimately show ?case
    by simp
qed simp

text \<open>A device that is ready on every third read.\<close>

theorem uart_puts_transmits_witness:
  "\<exists>t. uart_puts_sync (\<lambda>t _. if length t mod 3 = 0 then 0x20 else 0) 0x3f8 [72, 105] [] = Some t
     \<and> written 0x3f8 t = [72, 105]"
proof -
  let ?d = "\<lambda>t _. if length t mod 3 = 0 then 0x20 else (0 :: u8)"
  have len: "length ((poll ?d 0x3f8 ^^ n) t) = length t + n" for n t
    by (induction n) (simp_all add: poll_def inb_def)
  have "eventually_ready ?d 0x3f8"
    unfolding eventually_ready_def
  proof
    fix t :: io
    have "(length t + 2 * length t) mod 3 = 0"
      by simp
    then show "\<exists>n. bit (?d ((poll ?d 0x3f8 ^^ n) t) (0x3f8 + 5)) 5"
      by (intro exI [of _ "2 * length t"]) (simp add: len)
  qed
  then show ?thesis
    using uart_puts_transmits [of ?d "0x3f8" "[72, 105]" "[]"] by simp
qed

section \<open>Set-up and identification\<close>

text \<open>
  Enabling the serial port writes the divisor 3 of 38400 baud while the latch is
  open, and turns the fifos, the ready signals and the interrupt output on; but the line control register it leaves is 0, and so
  the line has characters of five bits.
\<close>

theorem uart_enable_writes:
  "uart_enable port t =
     Inr (Out (port + 4) 0x0b # Out (port + 2) 0xc7 # Out (port + 3) 0 # Out (port + 1) 0 # Out (port + 0) 3
          # Out (port + 3) 0x80 # Out (port + 1) 0 # t)"
proof -
  have d: "uart_calc_uart_divisor 38400 = Inr 3"
    by (simp add: uart_calc_uart_divisor_def UART_UART_BAUD_def)
  have lcr: "UART_LCR_SET_DLAB 0 1 = 0x80"
    "UART_LCR_SET_STOP_BITS (UART_LCR_SET_PARITY (UART_LCR_SET_DLAB 0x80 0) 0) 0 = 0"
    by (simp_all add: uart_fields reg_simps mask_eq_exp_minus_1)
  have fcr: "UART_FCR_SET_INT_TRIGGER_LEVEL (UART_FCR_SET_CLEAR_TX_FIFO (UART_FCR_SET_CLEAR_RX_FIFO
      (UART_FCR_SET_ENABLED 0 1) 1) 1) 3 = 0xc7"
    by (simp add: uart_fields reg_simps mask_eq_exp_minus_1)
  have mcr: "UART_MCR_SET_INT_ENABLE_OR_AUX_OUT_2 (UART_MCR_SET_REQUEST_TO_SEND
      (UART_MCR_SET_DATA_TERMINAL_READY 0 1) 1) 1 = 0x0b"
    by (simp add: uart_fields reg_simps mask_eq_exp_minus_1)
  show ?thesis
    by (simp add: uart_enable_def uart_write_baud_def d lcr fcr mcr uart_write_reg_def outb_def uart_regs kres_simps Let_def)
qed

text \<open>
  The identification of the chip looks for the larger fifo in the value it has written to the control
  register, not in the one it has read from the identification register.  Whatever the device answers, a 16750 or a 16550 is never
  reported.
\<close>

theorem uart_fingerprint_misses:
  "model (fst (uart_fingerprint_uart dev port caps t)) \<in> {uart_16550A, uart_16450, uart_8250}"
proof -
  have "UART_FCR_SET_CLEAR_TX_FIFO (UART_FCR_SET_CLEAR_RX_FIFO (UART_FCR_SET_ENABLED 0 1) 1) 1 = 7"
    by (simp add: uart_fields reg_simps mask_eq_exp_minus_1)
  moreover have "UART_IIR_GET_64_BYTE_BUFFER_ENABLED 7 = 0" "UART_IIR_GET_FIFO_STATUS 7 = 0"
    by (simp_all add: uart_fields reg_simps mask_eq_exp_minus_1)
  ultimately show ?thesis
    by (simp add: uart_fingerprint_uart_def uart_read_reg_def inb_def Let_def)
qed

end
