(* ===== verification/Pit.thy ===== *)
theory Pit
  imports Ports
begin

text \<open>The interval timer, ia32/pit.c: the mode command and the two bytes of a counter.\<close>

section \<open>Operations\<close>

datatype pit_select_channel = pit_channel_0 | pit_channel_1 | pit_channel_2 | pit_read_back

datatype pit_access_mode = pit_latch_count_value | pit_low_byte | pit_high_byte | pit_low_high_byte

datatype pit_operating_mode =
  pit_mode_0_interrupt_on_terminal_count | pit_mode_1_programmable_one_shot | pit_mode_2_rate_generator
| pit_mode_3_square_wave_generator | pit_mode_4_software_strobe | pit_mode_5_hardware_strobe
| pit_mode_2b_rate_generator | pit_mode_3b_square_wave_generator

primrec channel_no :: "pit_select_channel \<Rightarrow> u32" where
  "channel_no pit_channel_0 = 0"
| "channel_no pit_channel_1 = 1"
| "channel_no pit_channel_2 = 2"
| "channel_no pit_read_back = 3"

primrec access_no :: "pit_access_mode \<Rightarrow> u32" where
  "access_no pit_latch_count_value = 0"
| "access_no pit_low_byte = 1"
| "access_no pit_high_byte = 2"
| "access_no pit_low_high_byte = 3"

primrec mode_no :: "pit_operating_mode \<Rightarrow> u32" where
  "mode_no pit_mode_0_interrupt_on_terminal_count = 0"
| "mode_no pit_mode_1_programmable_one_shot = 1"
| "mode_no pit_mode_2_rate_generator = 2"
| "mode_no pit_mode_3_square_wave_generator = 3"
| "mode_no pit_mode_4_software_strobe = 4"
| "mode_no pit_mode_5_hardware_strobe = 5"
| "mode_no pit_mode_2b_rate_generator = 6"
| "mode_no pit_mode_3b_square_wave_generator = 7"

definition PIT_CH0_PORT :: u16 where "PIT_CH0_PORT = 0x40"
definition PIT_CH1_PORT :: u16 where "PIT_CH1_PORT = 0x41"
definition PIT_CH2_PORT :: u16 where "PIT_CH2_PORT = 0x42"
definition PIT_CMD_PORT :: u16 where "PIT_CMD_PORT = 0x43"
definition PIT_FREQUENCY :: u32 where "PIT_FREQUENCY = 1193180"

definition PIT_MODE_CMD_GET_BCD_BINARY_MODE :: "u8 \<Rightarrow> u32" where
  "PIT_MODE_CMD_GET_BCD_BINARY_MODE pit = get_bit_field pit 0"
definition PIT_MODE_CMD_GET_OPERATING_MODE :: "u8 \<Rightarrow> u32" where
  "PIT_MODE_CMD_GET_OPERATING_MODE pit = get_field pit 1 3"
definition PIT_MODE_CMD_GET_ACCESS_MODE :: "u8 \<Rightarrow> u32" where
  "PIT_MODE_CMD_GET_ACCESS_MODE pit = get_field pit 4 5"
definition PIT_MODE_CMD_GET_SELECT_CHANNEL :: "u8 \<Rightarrow> u32" where
  "PIT_MODE_CMD_GET_SELECT_CHANNEL pit = get_field pit 6 7"
definition PIT_MODE_CMD_SET_BCD_BINARY_MODE :: "u8 \<Rightarrow> u32 \<Rightarrow> u8" where
  "PIT_MODE_CMD_SET_BCD_BINARY_MODE pit v = set_bit_field pit 0 v"
definition PIT_MODE_CMD_SET_OPERATING_MODE :: "u8 \<Rightarrow> u32 \<Rightarrow> u8" where
  "PIT_MODE_CMD_SET_OPERATING_MODE pit v = set_field pit 1 3 v"
definition PIT_MODE_CMD_SET_ACCESS_MODE :: "u8 \<Rightarrow> u32 \<Rightarrow> u8" where
  "PIT_MODE_CMD_SET_ACCESS_MODE pit v = set_field pit 4 5 v"
definition PIT_MODE_CMD_SET_SELECT_CHANNEL :: "u8 \<Rightarrow> u32 \<Rightarrow> u8" where
  "PIT_MODE_CMD_SET_SELECT_CHANNEL pit v = set_field pit 6 7 v"

lemmas pit_fields = PIT_MODE_CMD_GET_BCD_BINARY_MODE_def PIT_MODE_CMD_GET_OPERATING_MODE_def
  PIT_MODE_CMD_GET_ACCESS_MODE_def PIT_MODE_CMD_GET_SELECT_CHANNEL_def PIT_MODE_CMD_SET_BCD_BINARY_MODE_def
  PIT_MODE_CMD_SET_OPERATING_MODE_def PIT_MODE_CMD_SET_ACCESS_MODE_def PIT_MODE_CMD_SET_SELECT_CHANNEL_def

lemmas pit_ports = PIT_CH0_PORT_def PIT_CH1_PORT_def PIT_CH2_PORT_def PIT_CMD_PORT_def

definition pit_mode_byte :: "pit_select_channel \<Rightarrow> pit_access_mode \<Rightarrow> pit_operating_mode \<Rightarrow> u8" where
  "pit_mode_byte channel access_mode mode =
     (let mode_reg = PIT_MODE_CMD_SET_BCD_BINARY_MODE 0 0;
          mode_reg = PIT_MODE_CMD_SET_OPERATING_MODE mode_reg (mode_no mode);
          mode_reg = PIT_MODE_CMD_SET_ACCESS_MODE mode_reg (access_no access_mode)
      in PIT_MODE_CMD_SET_SELECT_CHANNEL mode_reg (channel_no channel))"

definition pit_set_mode :: "pit_select_channel \<Rightarrow> pit_access_mode \<Rightarrow> pit_operating_mode \<Rightarrow> io \<Rightarrow> io kres" where
  "pit_set_mode channel access_mode mode t =
     kbind (kassert (channel_no channel \<le> 2) ''channel >= pit_channel_0 && channel <= pit_channel_2'') (\<lambda>_.
       Inr (outb PIT_CMD_PORT (pit_mode_byte channel access_mode mode) t))"

definition pit_io_port :: "pit_select_channel \<Rightarrow> u16 kres" where
  "pit_io_port channel =
     (case channel of
        pit_channel_0 \<Rightarrow> Inr PIT_CH0_PORT
      | pit_channel_1 \<Rightarrow> Inr PIT_CH1_PORT
      | pit_channel_2 \<Rightarrow> Inr PIT_CH2_PORT
      | pit_read_back \<Rightarrow> Inl (Panic ''unknown pit channel''))"

definition pit_set_counter :: "pit_select_channel \<Rightarrow> u8 \<Rightarrow> io \<Rightarrow> io kres" where
  "pit_set_counter channel value t = kbind (pit_io_port channel) (\<lambda>port. Inr (outb port value t))"

definition pit_one_shot :: "pit_select_channel \<Rightarrow> u16 \<Rightarrow> io \<Rightarrow> io kres" where
  "pit_one_shot channel ticks t =
     kbind (pit_set_mode channel pit_low_high_byte pit_mode_0_interrupt_on_terminal_count t) (\<lambda>t.
     kbind (pit_set_counter channel (ucast (LOW_BYTE (ucast ticks))) t) (\<lambda>t.
       pit_set_counter channel (ucast (HIGH_BYTE (ucast ticks))) (io_wait t)))"

definition pit_square_wave :: "pit_select_channel \<Rightarrow> u16 \<Rightarrow> io \<Rightarrow> io kres" where
  "pit_square_wave channel ticks t =
     kbind (pit_set_mode channel pit_low_high_byte pit_mode_3_square_wave_generator t) (\<lambda>t.
     kbind (pit_set_counter channel (ucast (LOW_BYTE (ucast ticks) AND - 2)) t) (\<lambda>t.
       pit_set_counter channel (ucast (HIGH_BYTE (ucast ticks))) (io_wait t)))"

section \<open>Programming a channel\<close>

text \<open>What the timer makes of the bytes written: the fields of the last command, and the count of a channel.\<close>

definition programmed :: "u16 \<Rightarrow> u32 \<Rightarrow> u32 \<Rightarrow> u16 \<Rightarrow> io \<Rightarrow> io \<Rightarrow> bool" where
  "programmed port channel mode count t t' \<longleftrightarrow>
     (\<exists>cmd lo hi. written PIT_CMD_PORT t' = written PIT_CMD_PORT t @ [cmd]
        \<and> PIT_MODE_CMD_GET_SELECT_CHANNEL cmd = channel \<and> PIT_MODE_CMD_GET_ACCESS_MODE cmd = 3
        \<and> PIT_MODE_CMD_GET_OPERATING_MODE cmd = mode \<and> PIT_MODE_CMD_GET_BCD_BINARY_MODE cmd = 0
        \<and> written port t' = written port t @ [lo, hi] \<and> unat lo + 256 * unat hi = unat count)"

lemma mode_byte_fields:
  "PIT_MODE_CMD_GET_SELECT_CHANNEL (pit_mode_byte channel access_mode mode) = channel_no channel"
  "PIT_MODE_CMD_GET_ACCESS_MODE (pit_mode_byte channel access_mode mode) = access_no access_mode"
  "PIT_MODE_CMD_GET_OPERATING_MODE (pit_mode_byte channel access_mode mode) = mode_no mode"
  "PIT_MODE_CMD_GET_BCD_BINARY_MODE (pit_mode_byte channel access_mode mode) = 0"
proof -
  note fields = get_set_field get_set_field_other pit_mode_byte_def pit_fields bit_field_eq mask_eq_exp_minus_1 Let_def
  show "PIT_MODE_CMD_GET_SELECT_CHANNEL (pit_mode_byte channel access_mode mode) = channel_no channel"
    by (cases channel) (simp_all add: fields)
  show "PIT_MODE_CMD_GET_ACCESS_MODE (pit_mode_byte channel access_mode mode) = access_no access_mode"
    by (cases access_mode) (simp_all add: fields)
  show "PIT_MODE_CMD_GET_OPERATING_MODE (pit_mode_byte channel access_mode mode) = mode_no mode"
    by (cases mode) (simp_all add: fields)
  show "PIT_MODE_CMD_GET_BCD_BINARY_MODE (pit_mode_byte channel access_mode mode) = 0"
    by (simp add: fields)
qed

lemma bytes_of_count: "unat (ucast (LOW_BYTE (ucast n)) :: u8) + 256 * unat (ucast (HIGH_BYTE (ucast n)) :: u8) = unat (n :: u16)"
proof -
  have "ucast (LOW_BYTE (ucast n)) = (ucast n :: u8)" "ucast (HIGH_BYTE (ucast n)) = (ucast (drop_bit 8 n) :: u8)"
    by (auto intro!: bit_word_eqI simp: LOW_BYTE_def HIGH_BYTE_def byte_ones bit_simps)
  moreover have "unat (drop_bit 8 n) < 256"
    using unat_bound [of n] by (simp add: drop_bit_eq_div unat_div_distrib)
  ultimately show ?thesis
    by (simp add: unsigned_ucast_eq take_bit_eq_mod drop_bit_eq_div unat_div_distrib)
qed

lemma even_count: "ucast (LOW_BYTE (ucast n) AND - 2) = (ucast (LOW_BYTE (ucast (n AND NOT 1))) :: u8)"
  "ucast (HIGH_BYTE (ucast n)) = (ucast (HIGH_BYTE (ucast (n AND NOT 1))) :: u8)" for n :: u16
  by (auto intro!: bit_word_eqI simp: LOW_BYTE_def HIGH_BYTE_def byte_ones bit_simps)

text \<open>
  Programming one of the three channels writes one command, whose fields select that channel, the access by
  low and high byte, binary counting and the mode, and then the two bytes of the count on the channel's own port; the square
  wave rounds the count down to an even one.  The fourth value of the channel type fails the assertion and writes nothing.
\<close>

theorem pit_programs_channel:
  assumes "pit_io_port channel = Inr port"
  shows "(\<exists>t'. pit_one_shot channel ticks t = Inr t' \<and> programmed port (channel_no channel) 0 ticks t t')
    \<and> (\<exists>t'. pit_square_wave channel ticks t = Inr t' \<and> programmed port (channel_no channel) 3 (ticks AND NOT 1) t t')
    \<and> pit_square_wave pit_read_back ticks t = Inl (Assert ''channel >= pit_channel_0 && channel <= pit_channel_2'')"
proof -
  have p: "port \<noteq> PIT_CMD_PORT" "port \<noteq> 0x80" "channel_no channel \<le> 2"
    using assms by (auto simp: pit_io_port_def pit_ports split: pit_select_channel.splits)
  note defs = pit_set_mode_def pit_set_counter_def programmed_def mode_byte_fields kres_simps assms
  have "\<exists>t'. pit_one_shot channel ticks t = Inr t' \<and> programmed port (channel_no channel) 0 ticks t t'"
    using p bytes_of_count [of ticks] by (simp add: pit_one_shot_def defs) (simp add: mode_byte_fields PIT_CMD_PORT_def)
  moreover have "\<exists>t'. pit_square_wave channel ticks t = Inr t' \<and> programmed port (channel_no channel) 3 (ticks AND NOT 1) t t'"
    using p bytes_of_count [of "ticks AND NOT 1"] unfolding pit_square_wave_def even_count [of ticks]
    by (simp add: defs) (simp add: mode_byte_fields PIT_CMD_PORT_def)
  ultimately show ?thesis
    by (simp add: pit_square_wave_def pit_set_mode_def kres_simps)
qed

theorem pit_programs_channel_witness:
  "pit_io_port pit_channel_0 = Inr 0x40 \<and> (\<exists>t. pit_square_wave pit_channel_0 11931 [] = Inr t \<and> programmed 0x40 0 3 11930 [] t)"
  using pit_programs_channel [of pit_channel_0 "0x40" 11931 "[]"] by (simp add: pit_io_port_def pit_ports)

end
