(* ===== verification/Cmdline.thy ===== *)
theory Cmdline
  imports KRun
begin

text \<open>
  The kernel's command line, kern/cmdline.c.  Strings are the characters up to the terminator; a position \<open>-1\<close> and a null
  pointer are \<open>None\<close>.  The table of options, a hash table that is never looked up by key, is the list of the options in the order in which
  the loop over \<open>hh.next\<close> meets them.  The allocations are taken to succeed.
\<close>

section \<open>Operations\<close>

datatype parser_state = search_option_start | search_option_end | search_value_start | search_value_end

record cmdline_option =
  opt_name :: string
  opt_values :: "string list"

record cmdline_parser =
  p_state :: parser_state
  option_start :: "nat option"
  value_start :: "nat option"
  p_name :: "string option"
  p_values :: "string list"
  cmdline_options_table :: "cmdline_option list"

definition cmdline_option_add :: "string option \<Rightarrow> string list \<Rightarrow> cmdline_parser \<Rightarrow> cmdline_parser kres" where
  "cmdline_option_add name values p =
     (case name of
        None \<Rightarrow> Inl (Assert ''name != 0'')
      | Some n \<Rightarrow>
          Inr (p \<lparr> cmdline_options_table := cmdline_options_table p @ [\<lparr> opt_name = n, opt_values = values \<rparr>] \<rparr>))"

text \<open>\<open>strndup(cmdline + start, i - start)\<close>\<close>

definition dup_from :: "string \<Rightarrow> nat option \<Rightarrow> nat \<Rightarrow> string" where
  "dup_from cmdline start i = (case start of None \<Rightarrow> [] | Some b \<Rightarrow> take (i - b) (drop b cmdline))"

definition cmdline_step :: "string \<Rightarrow> nat \<Rightarrow> char \<Rightarrow> cmdline_parser \<Rightarrow> cmdline_parser kres" where
  "cmdline_step cmdline i c p =
     (case p_state p of
        search_option_start \<Rightarrow>
          Inr (if c \<noteq> CHR '' '' then p \<lparr> p_state := search_option_end, option_start := Some i \<rparr> else p)
      | search_option_end \<Rightarrow>
          (if c = CHR '' '' then
             let p = p \<lparr> p_state := search_option_start, p_name := Some (dup_from cmdline (option_start p) i) \<rparr>
             in kbind (cmdline_option_add (p_name p) (p_values p) p) (\<lambda>p. Inr (p \<lparr> p_name := None \<rparr>))
           else if c = CHR ''='' then
             Inr (p \<lparr> p_state := search_value_start, p_name := Some (dup_from cmdline (option_start p) i) \<rparr>)
           else Inr p)
      | search_value_start \<Rightarrow>
          Inr (if c = CHR '' '' then p \<lparr> p_state := search_option_start \<rparr>
               else p \<lparr> p_state := search_value_end, value_start := Some i \<rparr>)
      | search_value_end \<Rightarrow>
          (if c = CHR '' '' then
             let v = dup_from cmdline (value_start p) i;
                 p = p \<lparr> p_state := search_option_start, value_start := None, p_values := p_values p @ [v] \<rparr>
             in kbind (cmdline_option_add (p_name p) (p_values p) p) (\<lambda>p. Inr (p \<lparr> p_name := None, p_values := [] \<rparr>))
           else if c = CHR '','' then
             let v = dup_from cmdline (value_start p) i
             in Inr (p \<lparr> p_state := search_value_start, value_start := None, p_values := p_values p @ [v] \<rparr>)
           else Inr p))"

text \<open>The loop; the last string is what is left, \<open>cmdline + i\<close>.\<close>

fun cmdline_loop :: "string \<Rightarrow> nat \<Rightarrow> string \<Rightarrow> cmdline_parser \<Rightarrow> cmdline_parser kres" where
  "cmdline_loop cmdline i [] p = Inr p"
| "cmdline_loop cmdline i (c # cs) p = kbind (cmdline_step cmdline i c p) (cmdline_loop cmdline (Suc i) cs)"

definition cmdline_finish :: "string \<Rightarrow> cmdline_parser \<Rightarrow> cmdline_parser kres" where
  "cmdline_finish cmdline p =
     (if p_name p \<noteq> None then
        let p = (if value_start p \<noteq> None
                 then p \<lparr> p_values := p_values p @ [dup_from cmdline (value_start p) (length cmdline)] \<rparr> else p)
        in cmdline_option_add (p_name p) (p_values p) p
      else Inr p)"

definition cmdline_parse :: "string \<Rightarrow> cmdline_option list \<Rightarrow> cmdline_option list kres" where
  "cmdline_parse cmdline table =
     kbind (cmdline_loop cmdline 0 cmdline
       \<lparr> p_state = search_option_start, option_start = None, value_start = None, p_name = None, p_values = [],
         cmdline_options_table = table \<rparr>) (\<lambda>p.
     kbind (cmdline_finish cmdline p) (\<lambda>p. Inr (cmdline_options_table p)))"

text \<open>What \<open>cmdline_print_info\<close> prints after its heading.\<close>

fun print_values :: "string list \<Rightarrow> string" where
  "print_values [] = []"
| "print_values [v] = v"
| "print_values (v # vs) = v @ '','' @ print_values vs"

definition print_option :: "cmdline_option \<Rightarrow> string" where
  "print_option opt = opt_name opt @ (if opt_values opt \<noteq> [] then ''='' @ print_values (opt_values opt) else [])"

definition cmdline_print_info :: "cmdline_option list \<Rightarrow> string" where
  "cmdline_print_info table = ''command line options:'' @ [CHR 0x0A] @ concat (map (\<lambda>opt. print_option opt @ [CHR 0x0A]) table)"

section \<open>Reading what is printed\<close>

text \<open>Names and values that can be written on a command line.\<close>

definition wf_option :: "cmdline_option \<Rightarrow> bool" where
  "wf_option opt \<longleftrightarrow> opt_name opt \<noteq> [] \<and> CHR '' '' \<notin> set (opt_name opt) \<and> CHR ''='' \<notin> set (opt_name opt)
     \<and> list_all (\<lambda>v. v \<noteq> [] \<and> CHR '' '' \<notin> set v \<and> CHR '','' \<notin> set v) (opt_values opt)"

lemma loop_append:
  "cmdline_loop cmdline i (cs @ ds) p = kbind (cmdline_loop cmdline i cs p) (cmdline_loop cmdline (i + length cs) ds)"
proof (induction cs arbitrary: i p)
  case (Cons c cs)
  then show ?case
    by (cases "cmdline_step cmdline i c p") simp_all
qed simp

lemma loop_skip:
  assumes "\<And>i c. c \<in> set cs \<Longrightarrow> cmdline_step cmdline i c p = Inr p"
  shows "cmdline_loop cmdline i cs p = Inr p"
  using assms by (induction cs arbitrary: i) simp_all

lemma dup_from_middle: "dup_from (pre @ w @ post) (Some (length pre)) (length pre + length w) = w"
  by (simp add: dup_from_def)

text \<open>A parser between two options.\<close>

definition between :: "cmdline_option list \<Rightarrow> cmdline_parser \<Rightarrow> bool" where
  "between table p \<longleftrightarrow> p_state p = search_option_start \<and> value_start p = None \<and> p_name p = None \<and> p_values p = []
     \<and> cmdline_options_table p = table"

lemma loop_name:
  assumes "between table p" "n \<noteq> []" "CHR '' '' \<notin> set n" "CHR ''='' \<notin> set n"
  shows "cmdline_loop cmdline i n p = Inr (p \<lparr> p_state := search_option_end, option_start := Some i \<rparr>)"
proof -
  obtain c cs where n: "n = c # cs"
    using assms(2) by (cases n) auto
  show ?thesis
    using assms by (auto simp: n between_def cmdline_step_def intro!: loop_skip)
qed

lemma loop_value:
  assumes "p_state p = search_value_start" "v \<noteq> []" "CHR '' '' \<notin> set v" "CHR '','' \<notin> set v"
  shows "cmdline_loop cmdline i v p = Inr (p \<lparr> p_state := search_value_end, value_start := Some i \<rparr>)"
proof -
  obtain c cs where v: "v = c # cs"
    using assms(2) by (cases v) auto
  show ?thesis
    using assms by (auto simp: v cmdline_step_def intro!: loop_skip)
qed

text \<open>The values of an option, up to the blank that ends it.\<close>

lemma loop_values:
  assumes "vs \<noteq> []" "list_all (\<lambda>v. v \<noteq> [] \<and> CHR '' '' \<notin> set v \<and> CHR '','' \<notin> set v) vs"
    "p_state p = search_value_start" "value_start p = None" "p_name p = Some n" "cmdline = pre @ print_values vs @ '' '' @ post"
  shows "\<exists>p'. cmdline_loop cmdline (length pre) (print_values vs @ '' '') p = Inr p'
    \<and> between (cmdline_options_table p @ [\<lparr> opt_name = n, opt_values = p_values p @ vs \<rparr>]) p'"
  using assms
proof (induction vs arbitrary: p pre rule: print_values.induct)
  case (2 v)
  have d: "dup_from cmdline (Some (length pre)) (length pre + length v) = v"
    using 2(6) dup_from_middle [of pre v] by simp
  show ?case
    using 2 loop_value [of p v cmdline "length pre"] d
    by (simp add: loop_append cmdline_step_def cmdline_option_add_def between_def Let_def)
next
  case (3 v v' vs)
  define p1 where "p1 = p \<lparr> p_state := search_value_start, value_start := None, p_values := p_values p @ [v] \<rparr>"
  have d: "dup_from cmdline (Some (length pre)) (length pre + length v) = v"
    using 3(7) dup_from_middle [of pre v] by simp
  have l: "cmdline_loop cmdline (length pre) (v @ '','') p = Inr p1"
    using 3 loop_value [of p v cmdline "length pre"] d
    by (simp add: loop_append cmdline_step_def p1_def Let_def)
  have "\<exists>p'. cmdline_loop cmdline (length (pre @ v @ '','')) (print_values (v' # vs) @ '' '') p1 = Inr p'
    \<and> between (cmdline_options_table p1 @ [\<lparr> opt_name = n, opt_values = p_values p1 @ (v' # vs) \<rparr>]) p'"
    using 3(3,6,7) by (intro 3(1)) (simp_all add: p1_def)
  then show ?case
    using l loop_append [of cmdline "length pre" "v @ '',''" "print_values (v' # vs) @ '' ''" p] by (simp add: p1_def add.assoc)
qed simp

lemma loop_option:
  assumes "wf_option opt" "between table p" "cmdline = pre @ print_option opt @ '' '' @ post"
  shows "\<exists>p'. cmdline_loop cmdline (length pre) (print_option opt @ '' '') p = Inr p' \<and> between (table @ [opt]) p'"
proof -
  let ?n = "opt_name opt" and ?vs = "opt_values opt"
  have eta: "\<lparr> opt_name = ?n, opt_values = ?vs \<rparr> = opt"
    by simp
  note name = loop_name [OF assms(2), of ?n cmdline "length pre"]
  have d: "dup_from cmdline (Some (length pre)) (length pre + length ?n) = ?n"
    using assms(3) dup_from_middle [of pre ?n] by (simp add: print_option_def)
  show ?thesis
  proof (cases "?vs = []")
    case True
    then show ?thesis
      using assms(1,2) name d
      by (simp add: print_option_def wf_option_def loop_append cmdline_step_def cmdline_option_add_def between_def Let_def)
  next
    case False
    define p1 where "p1 = p \<lparr> p_state := search_value_start, option_start := Some (length pre), p_name := Some ?n \<rparr>"
    have l: "cmdline_loop cmdline (length pre) (?n @ ''='') p = Inr p1"
      using assms(1) name d by (simp add: wf_option_def loop_append cmdline_step_def p1_def)
    have "\<exists>p'. cmdline_loop cmdline (length (pre @ ?n @ ''='')) (print_values ?vs @ '' '') p1 = Inr p'
      \<and> between (cmdline_options_table p1 @ [\<lparr> opt_name = ?n, opt_values = p_values p1 @ ?vs \<rparr>]) p'"
      using assms False by (intro loop_values) (simp_all add: p1_def wf_option_def between_def print_option_def)
    then show ?thesis
      using l loop_append [of cmdline "length pre" "?n @ ''=''" "print_values ?vs @ '' ''" p] assms(2) False
      by (simp add: p1_def print_option_def between_def add.assoc eta)
  qed
qed

lemma loop_options:
  assumes "list_all wf_option opts" "between table p" "cmdline = pre @ concat (map (\<lambda>opt. print_option opt @ '' '') opts)"
  shows "\<exists>p'. cmdline_loop cmdline (length pre) (concat (map (\<lambda>opt. print_option opt @ '' '') opts)) p = Inr p'
    \<and> between (table @ opts) p'"
  using assms
proof (induction opts arbitrary: table p pre)
  case (Cons opt opts)
  let ?rest = "concat (map (\<lambda>opt. print_option opt @ '' '') opts)"
  obtain p1 where p1: "cmdline_loop cmdline (length pre) (print_option opt @ '' '') p = Inr p1" "between (table @ [opt]) p1"
    using loop_option [of opt table p cmdline pre ?rest] Cons.prems by auto
  have "\<exists>p'. cmdline_loop cmdline (length (pre @ print_option opt @ '' '')) ?rest p1 = Inr p' \<and> between ((table @ [opt]) @ opts) p'"
    using Cons.prems p1(2) by (intro Cons.IH) simp_all
  then show ?case
    using p1(1) loop_append [of cmdline "length pre" "print_option opt @ '' ''" ?rest p] by (simp add: add.assoc)
qed simp

text \<open>
  The parser reads back every list of options with their values, written one after the other and each followed
  by a blank: it adds exactly those options to the table, in order.
\<close>

theorem cmdline_round_trip:
  assumes "list_all wf_option opts"
  shows "cmdline_parse (concat (map (\<lambda>opt. print_option opt @ '' '') opts)) table = Inr (table @ opts)"
proof -
  let ?c = "concat (map (\<lambda>opt. print_option opt @ '' '') opts)"
  let ?p = "\<lparr> p_state = search_option_start, option_start = None, value_start = None, p_name = None, p_values = [],
    cmdline_options_table = table \<rparr>"
  have "between table ?p"
    by (simp add: between_def)
  from loop_options [OF assms this, of ?c "[]"] show ?thesis
    by (auto simp: cmdline_parse_def cmdline_finish_def between_def)
qed

theorem cmdline_round_trip_witness:
  "cmdline_parse ''console=com1,vga quiet '' [] =
     Inr [\<lparr> opt_name = ''console'', opt_values = [''com1'', ''vga''] \<rparr>, \<lparr> opt_name = ''quiet'', opt_values = [] \<rparr>]"
  using cmdline_round_trip [of "[\<lparr> opt_name = ''console'', opt_values = [''com1'', ''vga''] \<rparr>, \<lparr> opt_name = ''quiet'', opt_values = [] \<rparr>]" "[]"]
  by (simp add: wf_option_def print_option_def)

section \<open>Options that are lost\<close>

text \<open>
  An option without values at the end of the line is not recorded; and values that are followed by a comma and a blank
  go to the next option.
\<close>

theorem cmdline_last_option_lost:
  "cmdline_parse ''quiet'' table = Inr table
   \<and> cmdline_parse ''a=1, quiet '' table = Inr (table @ [\<lparr> opt_name = ''quiet'', opt_values = [''1''] \<rparr>])"
  by (simp add: cmdline_parse_def cmdline_step_def cmdline_finish_def cmdline_option_add_def dup_from_def)

end
