(* ===== verification/Descriptors.thy ===== *)
theory Descriptors
  imports Bits KPrelude
begin

text \<open>
  The segment and interrupt descriptor tables, ia32/gdt.c and ia32/idt.c.  The addresses of the tables and of the
  assembly stubs are arguments.  The tables are functions of the index.
\<close>

section \<open>Segments\<close>

record gdt_entry =
  limit_low :: u16
  base_low :: u16
  base_middle :: u8
  g_access :: u8
  granularity :: u8
  base_high :: u8

record gdt_ptr =
  gp_limit :: u16
  gp_base :: u32

record tss_entry =
  prev_task_link :: u32
  esp0 :: u32
  ss0 :: u32
  esp1 :: u32
  ss1 :: u32
  esp2 :: u32
  ss2 :: u32
  tss_cr3 :: u32
  tss_eip :: u32
  tss_eflags :: u32
  tss_eax :: u32
  tss_ecx :: u32
  tss_edx :: u32
  tss_ebx :: u32
  tss_esp :: u32
  tss_ebp :: u32
  tss_esi :: u32
  tss_edi :: u32
  tss_es :: u32
  tss_cs :: u32
  tss_ss :: u32
  tss_ds :: u32
  tss_fs :: u32
  tss_gs :: u32
  tss_ldt :: u32
  trap :: u16
  iomap_base :: u16

record gdt_state =
  gdt :: "nat \<Rightarrow> gdt_entry"
  gp :: gdt_ptr
  tss :: tss_entry

definition GDT_ENTRY_COUNT :: nat where "GDT_ENTRY_COUNT = 6"

definition gdt_set_gate :: "nat \<Rightarrow> u32 \<Rightarrow> u32 \<Rightarrow> u8 \<Rightarrow> u8 \<Rightarrow> gdt_state \<Rightarrow> gdt_state" where
  "gdt_set_gate num base limit access gran s =
     s \<lparr> gdt := (gdt s)(num := \<lparr>
       limit_low = ucast (limit AND 0xFFFF),
       base_low = ucast (base AND 0xFFFF),
       base_middle = ucast (drop_bit 16 base AND 0xFF),
       g_access = access,
       granularity = ucast (drop_bit 16 limit AND 0x0F) OR (gran AND 0xF0),
       base_high = ucast (drop_bit 24 base AND 0xFF) \<rparr>) \<rparr>"

text \<open>The macros set bits of the bytes of an \<open>int\<close>, of which only the first is used.\<close>

definition GDT_SET_ACCESS_RW :: "(nat \<Rightarrow> u8) \<Rightarrow> nat \<Rightarrow> u8" where "GDT_SET_ACCESS_RW a = setbit a 1"
definition GDT_SET_ACCESS_CODE :: "(nat \<Rightarrow> u8) \<Rightarrow> nat \<Rightarrow> u8" where "GDT_SET_ACCESS_CODE a = setbit a 3"
definition GDT_SET_ACCESS_UNUSED_ALWAYS_1 :: "(nat \<Rightarrow> u8) \<Rightarrow> nat \<Rightarrow> u8" where "GDT_SET_ACCESS_UNUSED_ALWAYS_1 a = setbit a 4"
definition GDT_SET_ACCESS_DPL_1 :: "(nat \<Rightarrow> u8) \<Rightarrow> nat \<Rightarrow> u8" where "GDT_SET_ACCESS_DPL_1 a = setbit a 5"
definition GDT_SET_ACCESS_DPL_2 :: "(nat \<Rightarrow> u8) \<Rightarrow> nat \<Rightarrow> u8" where "GDT_SET_ACCESS_DPL_2 a = setbit a 6"
definition GDT_SET_ACCESS_PRESENT :: "(nat \<Rightarrow> u8) \<Rightarrow> nat \<Rightarrow> u8" where "GDT_SET_ACCESS_PRESENT a = setbit a 7"
definition GDT_SET_TSS_TYPE :: "(nat \<Rightarrow> u8) \<Rightarrow> nat \<Rightarrow> u8" where "GDT_SET_TSS_TYPE a = a(0 := a 0 OR 9)"
definition GDT_SET_TSS_BUSY :: "(nat \<Rightarrow> u8) \<Rightarrow> nat \<Rightarrow> u8" where "GDT_SET_TSS_BUSY a = setbit a 1"
definition GDT_SET_TSS_DPL_1 :: "(nat \<Rightarrow> u8) \<Rightarrow> nat \<Rightarrow> u8" where "GDT_SET_TSS_DPL_1 a = setbit a 5"
definition GDT_SET_TSS_DPL_2 :: "(nat \<Rightarrow> u8) \<Rightarrow> nat \<Rightarrow> u8" where "GDT_SET_TSS_DPL_2 a = setbit a 6"
definition GDT_SET_TSS_PRESENT :: "(nat \<Rightarrow> u8) \<Rightarrow> nat \<Rightarrow> u8" where "GDT_SET_TSS_PRESENT a = setbit a 7"
definition GDT_SET_GRAN_32 :: "(nat \<Rightarrow> u8) \<Rightarrow> nat \<Rightarrow> u8" where "GDT_SET_GRAN_32 a = setbit a 6"
definition GDT_SET_GRAN_GRANULARITY :: "(nat \<Rightarrow> u8) \<Rightarrow> nat \<Rightarrow> u8" where "GDT_SET_GRAN_GRANULARITY a = setbit a 7"

text \<open>The bytes of an \<open>int\<close> in memory.\<close>

definition int_bytes :: "u32 \<Rightarrow> nat \<Rightarrow> u8" where
  "int_bytes w i = ucast (drop_bit (8 * i) w)"

definition gdt_access :: "bool \<Rightarrow> bool \<Rightarrow> u32 \<Rightarrow> bool \<Rightarrow> u8" where
  "gdt_access rw code ring present =
     (let access = int_bytes 0;
          access = (if rw then GDT_SET_ACCESS_RW access else access);
          access = (if code then GDT_SET_ACCESS_CODE access else access);
          access = GDT_SET_ACCESS_UNUSED_ALWAYS_1 access;
          access = (if isset (int_bytes ring) 0 \<noteq> 0 then GDT_SET_ACCESS_DPL_1 access else access);
          access = (if isset (int_bytes ring) 1 \<noteq> 0 then GDT_SET_ACCESS_DPL_2 access else access);
          access = (if present then GDT_SET_ACCESS_PRESENT access else access)
      in access 0)"

definition gdt_kernel_code_access :: u8 where "gdt_kernel_code_access = gdt_access True True 0 True"
definition gdt_kernel_data_access :: u8 where "gdt_kernel_data_access = gdt_access True False 0 True"
definition gdt_user_code_access :: u8 where "gdt_user_code_access = gdt_access True True 3 True"
definition gdt_user_data_access :: u8 where "gdt_user_data_access = gdt_access True False 3 True"

definition gdt_32bit_granularity :: "bool \<Rightarrow> u8" where
  "gdt_32bit_granularity segment_4k_granularity =
     (let gran = GDT_SET_GRAN_32 (int_bytes 0);
          gran = (if segment_4k_granularity then GDT_SET_GRAN_GRANULARITY gran else gran)
      in gran 0)"

definition gdt_set_tss :: "nat \<Rightarrow> u32 \<Rightarrow> u32 \<Rightarrow> bool \<Rightarrow> gdt_state \<Rightarrow> gdt_state" where
  "gdt_set_tss num base limit busy s =
     (let access = GDT_SET_TSS_TYPE (\<lambda>_. 0);
          access = (if busy then GDT_SET_TSS_BUSY access else access);
          access = GDT_SET_TSS_DPL_1 access;
          access = GDT_SET_TSS_DPL_2 access;
          access = GDT_SET_TSS_PRESENT access
      in gdt_set_gate num base limit (access 0) 0 s)"

definition tss_set_stack :: "u32 \<Rightarrow> gdt_state \<Rightarrow> gdt_state" where
  "tss_set_stack esp s = s \<lparr> tss := (tss s) \<lparr> esp0 := esp \<rparr> \<rparr>"

definition sizeof_gdt_entry :: nat where "sizeof_gdt_entry = 8"
definition sizeof_tss :: u32 where "sizeof_tss = 104"

definition gdt_install :: "u32 \<Rightarrow> u32 \<Rightarrow> gdt_state \<Rightarrow> gdt_state" where
  "gdt_install gdt_addr tss_addr s =
     (let gran = gdt_32bit_granularity True;
          s = s \<lparr> gp := \<lparr> gp_limit = of_nat (sizeof_gdt_entry * GDT_ENTRY_COUNT) - 1, gp_base = gdt_addr \<rparr> \<rparr>;
          s = gdt_set_gate 0 0 0 0 0 s;
          s = gdt_set_gate 1 0 0xFFFFFFFF gdt_kernel_code_access gran s;
          s = gdt_set_gate 2 0 0xFFFFFFFF gdt_kernel_data_access gran s;
          s = gdt_set_gate 3 0 0xFFFFFFFF gdt_user_code_access gran s;
          s = gdt_set_gate 4 0 0xFFFFFFFF gdt_user_data_access gran s;
          s = gdt_set_tss 5 tss_addr sizeof_tss False s;
          seg = 0x10 OR 3
      in s \<lparr> tss := (tss s) \<lparr> ss0 := 0x10, esp0 := 0, tss_cs := 8 OR 3, tss_ss := seg, tss_ds := seg, tss_es := seg,
             tss_fs := seg, tss_gs := seg \<rparr> \<rparr>)"

section \<open>Interrupt gates\<close>

record idt_header =
  ih_limit :: u16
  ih_base :: u32

record idt_entry =
  offset_low :: u16
  selector :: u16
  idt_unused :: u8
  idt_flags :: u8
  offset_high :: u16

record idt_state =
  idt_header :: idt_header
  idt_entries :: "u8 \<Rightarrow> idt_entry"

definition IDT_ENTRIES :: u32 where "IDT_ENTRIES = 256"
definition sizeof_idt_entry :: u32 where "sizeof_idt_entry = 8"

definition idt_zero_entry :: "idt_entry \<Rightarrow> idt_entry" where
  "idt_zero_entry entry = entry \<lparr> offset_low := 0, selector := 0, idt_unused := 0, idt_flags := 0, offset_high := 0 \<rparr>"

text \<open>All the bytes of the table are set to zero.\<close>

definition idt_init :: "u32 \<Rightarrow> idt_state \<Rightarrow> idt_state" where
  "idt_init entries_addr s =
     s \<lparr> idt_header := \<lparr> ih_limit = ucast (sizeof_idt_entry * IDT_ENTRIES), ih_base = entries_addr \<rparr>,
         idt_entries := (\<lambda>i. idt_zero_entry (idt_entries s i)) \<rparr>"

definition idt_set_gate :: "u8 \<Rightarrow> u32 \<Rightarrow> u16 \<Rightarrow> u8 \<Rightarrow> idt_state \<Rightarrow> idt_state" where
  "idt_set_gate i offset sel fl s =
     s \<lparr> idt_entries := (idt_entries s)(i := \<lparr> offset_low = ucast (offset AND 0xFFFF), selector = sel, idt_unused = 0,
       idt_flags = fl, offset_high = ucast (drop_bit 16 offset) \<rparr>) \<rparr>"

definition gdt_kernel_code_32_segment :: u16 where "gdt_kernel_code_32_segment = 8"

text \<open>
  The vectors for which stubs are installed, in the order of the code: the exceptions, the lines of the controllers, the spurious
  interrupt and the lines of the I/O controller.  The stub of a vector is an argument.
\<close>

definition stub_vectors :: "u8 list" where
  "stub_vectors = map of_nat ([0..<32] @ [32..<48] @ [55..<80])"

definition interrupts_install_handlers :: "(u8 \<Rightarrow> u32) \<Rightarrow> idt_state \<Rightarrow> idt_state" where
  "interrupts_install_handlers stub s =
     (let cs = gdt_kernel_code_32_segment;
          fl = 0x8E;
          s = fold (\<lambda>i. idt_set_gate i (stub i) cs fl) stub_vectors s
      in idt_set_gate 0x80 (stub 0x80) cs (fl OR 0x60) s)"

definition interrupts_init :: "u32 \<Rightarrow> (u8 \<Rightarrow> u32) \<Rightarrow> idt_state \<Rightarrow> idt_state" where
  "interrupts_init entries_addr stub s = interrupts_install_handlers stub (idt_init entries_addr s)"

section \<open>What the processor reads\<close>

text \<open>The fields of a descriptor as the processor puts them together.\<close>

definition seg_base :: "gdt_entry \<Rightarrow> u32" where
  "seg_base e = ucast (base_low e) OR push_bit 16 (ucast (base_middle e)) OR push_bit 24 (ucast (base_high e))"

definition seg_limit :: "gdt_entry \<Rightarrow> u32" where
  "seg_limit e = ucast (limit_low e) OR push_bit 16 (ucast (granularity e AND 0x0F))"

definition seg_dpl :: "gdt_entry \<Rightarrow> u8" where
  "seg_dpl e = drop_bit 5 (g_access e) AND 3"

definition gate_offset :: "idt_entry \<Rightarrow> u32" where
  "gate_offset e = ucast (offset_low e) OR push_bit 16 (ucast (offset_high e))"

lemma masks: "(0xFFFF :: u32) = mask 16" "(0xFF :: u32) = mask 8" "(0x0F :: u32) = mask 4" "(0x0F :: u8) = mask 4"
  "(0xF0 :: u8) = push_bit 4 (mask 4)"
  by (simp_all add: mask_eq_exp_minus_1)

lemma seg_base_gate: "seg_base (gdt (gdt_set_gate n base limit access gran s) n) = base"
proof (rule bit_word_eqI)
  fix k :: nat
  assume "k < LENGTH(32)"
  then consider "k < 16" | "16 \<le> k" "k < 24" | "24 \<le> k" "k < 32"
    by fastforce
  then show "bit (seg_base (gdt (gdt_set_gate n base limit access gran s) n)) k = bit base k"
    by cases (auto simp: seg_base_def gdt_set_gate_def masks bit_simps)
qed

lemma seg_limit_gate: "seg_limit (gdt (gdt_set_gate n base limit access gran s) n) = limit AND mask 20"
  by (rule bit_word_eqI) (auto simp: seg_limit_def gdt_set_gate_def masks bit_simps)

lemma gate_offset_gate: "gate_offset (idt_entries (idt_set_gate i offset sel fl t) i) = offset"
  by (rule bit_word_eqI) (auto simp: gate_offset_def idt_set_gate_def masks bit_simps)

text \<open>
  The processor reads from a segment descriptor the base that was given, and the low twenty bits of the
  limit; from a gate the address of its stub.
\<close>

theorem descriptor_round_trip:
  "seg_base (gdt (gdt_set_gate n base limit access gran s) n) = base
   \<and> seg_limit (gdt (gdt_set_gate n base limit access gran s) n) = limit AND mask 20
   \<and> gate_offset (idt_entries (idt_set_gate i offset sel fl t) i) = offset"
  by (simp add: seg_base_gate seg_limit_gate gate_offset_gate)

lemma access_bytes:
  "gdt_kernel_code_access = 0x9A" "gdt_kernel_data_access = 0x92" "gdt_user_code_access = 0xFA" "gdt_user_data_access = 0xF2"
  "gdt_32bit_granularity True = 0xC0"
  by (simp_all add: gdt_kernel_code_access_def gdt_kernel_data_access_def gdt_user_code_access_def gdt_user_data_access_def
      gdt_access_def gdt_32bit_granularity_def GDT_SET_ACCESS_RW_def GDT_SET_ACCESS_CODE_def GDT_SET_ACCESS_UNUSED_ALWAYS_1_def
      GDT_SET_ACCESS_DPL_1_def GDT_SET_ACCESS_DPL_2_def GDT_SET_ACCESS_PRESENT_def GDT_SET_GRAN_32_def GDT_SET_GRAN_GRANULARITY_def
      setbit_def isset_def int_bytes_def NBBY_def Let_def)

text \<open>
  The four segments that the kernel installs are flat: base 0 and 2^20 pages of 4 KB; the code and data segments of the kernel
  have privilege 0, those of the user privilege 3; and the sixth descriptor is the task state segment at its address.
\<close>

theorem gdt_flat_segments:
  fixes s :: gdt_state and gdt_addr tss_addr :: u32
  defines "g \<equiv> gdt (gdt_install gdt_addr tss_addr s)"
  shows "map (seg_base \<circ> g) [1, 2, 3, 4] = [0, 0, 0, 0] \<and> map (seg_limit \<circ> g) [1, 2, 3, 4] = [0xFFFFF, 0xFFFFF, 0xFFFFF, 0xFFFFF]
    \<and> map (granularity \<circ> g) [1, 2, 3, 4] = [0xCF, 0xCF, 0xCF, 0xCF] \<and> map (g_access \<circ> g) [1, 2, 3, 4] = [0x9A, 0x92, 0xFA, 0xF2]
    \<and> map (seg_dpl \<circ> g) [1, 2, 3, 4] = [0, 0, 3, 3]
    \<and> seg_base (g 5) = tss_addr \<and> seg_limit (g 5) = 104 \<and> g_access (g 5) = 0xE9"
proof -
  define f where "f n b l a r = gdt (gdt_set_gate n b l a r s) n" for n b l a r
  have f: "seg_base (f n b l a r) = b" "seg_limit (f n b l a r) = l AND mask 20" "g_access (f n b l a r) = a"
    "granularity (f n b l a r) = ucast (drop_bit 16 l AND 0x0F) OR (r AND 0xF0)" for n b l a r
    by (simp_all add: f_def seg_base_gate seg_limit_gate) (simp_all add: gdt_set_gate_def)
  have "g 1 = f 1 0 0xFFFFFFFF 0x9A 0xC0" "g 2 = f 2 0 0xFFFFFFFF 0x92 0xC0" "g 3 = f 3 0 0xFFFFFFFF 0xFA 0xC0"
    "g 4 = f 4 0 0xFFFFFFFF 0xF2 0xC0" "g 5 = f 5 tss_addr 104 0xE9 0"
    by (simp_all add: g_def f_def gdt_install_def access_bytes gdt_set_tss_def gdt_set_gate_def sizeof_tss_def
        GDT_SET_TSS_TYPE_def GDT_SET_TSS_DPL_1_def GDT_SET_TSS_DPL_2_def GDT_SET_TSS_PRESENT_def setbit_def NBBY_def Let_def)
  then show ?thesis
    by (simp add: f seg_dpl_def mask_eq_exp_minus_1)
qed

lemma gates_fold:
  assumes "distinct vs"
  shows "idt_entries (fold (\<lambda>i. idt_set_gate i (stub i) cs fl) vs t) v =
    (if v \<in> set vs then idt_entries (idt_set_gate v (stub v) cs fl t) v else idt_entries t v)"
  using assms by (induction vs arbitrary: t) (auto simp: idt_set_gate_def)

lemma stub_vectors_distinct: "distinct stub_vectors" "0x80 \<notin> set stub_vectors"
  by (simp_all add: stub_vectors_def upt_rec)



end
