(* ===== verification/Terminal.thy ===== *)
theory Terminal
  imports Uart
begin

text \<open>
  The text screen, drivers/vga.c and terminal/terminal.c.  The entries of the frame buffer are a function of their index;
  \<open>vma\<close> is the address of the linker symbol of the kernel's offset.  A \<open>char\<close> is signed.
\<close>

section \<open>The frame buffer\<close>

record vga =
  vga_buffer :: u32
  entries :: "u32 \<Rightarrow> u16"
  ports :: io

definition VGA_WIDTH :: u32 where "VGA_WIDTH = 80"
definition VGA_HEIGHT :: u32 where "VGA_HEIGHT = 25"
definition VGA_PORT_3C2 :: u16 where "VGA_PORT_3C2 = 0x3c2"
definition VGA_PORT_3CC :: u16 where "VGA_PORT_3CC = 0x3cc"
definition VGA_PORT_3D4 :: u16 where "VGA_PORT_3D4 = 0x3d4"
definition VGA_DATA_3D5 :: u16 where "VGA_DATA_3D5 = 0x3d5"
definition COLOR_BLACK :: u32 where "COLOR_BLACK = 0"
definition COLOR_LIGHT_GREY :: u32 where "COLOR_LIGHT_GREY = 7"

definition vga_make_color :: "u32 \<Rightarrow> u32 \<Rightarrow> u8" where
  "vga_make_color fg bg = ucast (fg OR push_bit 4 bg)"

definition vga_make_vgaentry :: "u8 \<Rightarrow> u8 \<Rightarrow> u16" where
  "vga_make_vgaentry c color =
     (let c16 = scast c :: u16;
          color16 = ucast color :: u16
      in ucast ((ucast c16 :: u32) OR push_bit 8 (ucast color16)))"

definition vga_read_misc_output_reg :: "device \<Rightarrow> 'a vga_scheme \<Rightarrow> u8 \<times> 'a vga_scheme" where
  "vga_read_misc_output_reg dev s = (let (v, t) = inb dev VGA_PORT_3CC (ports s) in (v, s \<lparr> ports := t \<rparr>))"

definition vga_write_misc_output_reg :: "u8 \<Rightarrow> 'a vga_scheme \<Rightarrow> 'a vga_scheme" where
  "vga_write_misc_output_reg value s = s \<lparr> ports := outb VGA_PORT_3C2 value (ports s) \<rparr>"

definition vga_move_cursor :: "u32 \<Rightarrow> u32 \<Rightarrow> 'a vga_scheme \<Rightarrow> 'a vga_scheme" where
  "vga_move_cursor row col s =
     (let position = row * 80 + col;
          t = outb VGA_PORT_3D4 0x0f (ports s);
          t = outb VGA_DATA_3D5 (ucast (position AND 0xff)) t;
          t = outb VGA_PORT_3D4 0x0e t;
          t = outb VGA_DATA_3D5 (ucast (signed_drop_bit 8 position AND 0xff)) t
      in s \<lparr> ports := t \<rparr>)"

definition vga_init :: "device \<Rightarrow> u32 \<Rightarrow> 'a vga_scheme \<Rightarrow> 'a vga_scheme" where
  "vga_init dev vma s =
     (let (misc_out, s) = vga_read_misc_output_reg dev s;
          s = vga_write_misc_output_reg (misc_out OR 1) s
      in vga_move_cursor 0 0 (s \<lparr> vga_buffer := 0xB8000 + vma \<rparr>))"

definition scroll_entry :: "nat \<Rightarrow> nat \<Rightarrow> (u32 \<Rightarrow> u16) \<Rightarrow> (u32 \<Rightarrow> u16)" where
  "scroll_entry y x b =
     (let index = of_nat y * VGA_WIDTH + of_nat x;
          entry = b index;
          index = index - VGA_WIDTH
      in b (index := entry))"

definition vga_scroll_row :: "'a vga_scheme \<Rightarrow> 'a vga_scheme" where
  "vga_scroll_row s =
     s \<lparr> entries := fold (\<lambda>y. fold (scroll_entry y) [0..<unat VGA_WIDTH]) [1..<unat VGA_HEIGHT] (entries s) \<rparr>"

text \<open>The parameters have the names of the source, which its callers fill with the column and the row.\<close>

definition vga_put_char :: "u8 \<Rightarrow> u8 \<Rightarrow> u32 \<Rightarrow> u32 \<Rightarrow> 'a vga_scheme \<Rightarrow> 'a vga_scheme" where
  "vga_put_char c colour row col s =
     (let index = col * VGA_WIDTH + row
      in s \<lparr> entries := (entries s) (index := vga_make_vgaentry c colour) \<rparr>)"

definition vga_width :: u32 where "vga_width = VGA_WIDTH"
definition vga_height :: u32 where "vga_height = VGA_HEIGHT"

section \<open>The terminal\<close>

record terminal = vga +
  terminal_row :: u32
  terminal_column :: u32
  terminal_color :: u8
  serial_console_port :: u16

definition terminal_enable_serial_console :: "u16 \<Rightarrow> 'a terminal_scheme \<Rightarrow> 'a terminal_scheme" where
  "terminal_enable_serial_console port s = s \<lparr> serial_console_port := port \<rparr>"

definition terminal_disable_serial_console :: "'a terminal_scheme \<Rightarrow> 'a terminal_scheme" where
  "terminal_disable_serial_console s = s \<lparr> serial_console_port := 0 \<rparr>"

definition terminal_setcolor :: "u8 \<Rightarrow> 'a terminal_scheme \<Rightarrow> 'a terminal_scheme" where
  "terminal_setcolor color s = s \<lparr> terminal_color := color \<rparr>"

definition terminal_putentryat :: "u8 \<Rightarrow> u8 \<Rightarrow> u32 \<Rightarrow> u32 \<Rightarrow> 'a terminal_scheme \<Rightarrow> 'a terminal_scheme" where
  "terminal_putentryat c color x y s = vga_put_char c color x y s"

definition terminal_clear :: "'a terminal_scheme \<Rightarrow> 'a terminal_scheme" where
  "terminal_clear s =
     fold (\<lambda>y. fold (\<lambda>x s. terminal_putentryat 32 (terminal_color s) (of_nat x) (of_nat y) s) [0..<unat vga_width])
       [0..<unat vga_height] s"

definition terminal_initialize :: "'a terminal_scheme \<Rightarrow> 'a terminal_scheme" where
  "terminal_initialize s =
     terminal_clear (s \<lparr> terminal_row := 0, terminal_column := 0, terminal_color := vga_make_color COLOR_LIGHT_GREY COLOR_BLACK \<rparr>)"

lemma next_column: "x < vga_width \<Longrightarrow> unat (x + 1) = Suc (unat x)"
  by (simp add: vga_width_def VGA_WIDTH_def word_less_nat_alt unat_word_ariths)

function terminal_clear_line_end :: "u32 \<Rightarrow> u32 \<Rightarrow> 'a terminal_scheme \<Rightarrow> 'a terminal_scheme" where
  "terminal_clear_line_end x y s =
     (if x < vga_width then terminal_clear_line_end (x + 1) y (terminal_putentryat 32 (terminal_color s) x y s) else s)"
  by pat_completeness auto

termination
  by (relation "measure (\<lambda>(x, y, s). 80 - unat x)")
    (auto simp: next_column, simp add: vga_width_def VGA_WIDTH_def word_less_nat_alt)

declare terminal_clear_line_end.simps [simp del]

definition terminal_place :: "u8 \<Rightarrow> 'a terminal_scheme \<Rightarrow> 'a terminal_scheme" where
  "terminal_place c s =
     (if c = 10 then (terminal_clear_line_end (terminal_column s) (terminal_row s) s) \<lparr> terminal_column := vga_width \<rparr>
      else if c = 8 then
        (if terminal_column s > 0 then
           let s = s \<lparr> terminal_column := terminal_column s - 1 \<rparr>
           in terminal_putentryat 32 (terminal_color s) (terminal_column s) (terminal_row s) s
         else s)
      else
        let s = terminal_putentryat c (terminal_color s) (terminal_column s) (terminal_row s) s
        in s \<lparr> terminal_column := terminal_column s + 1 \<rparr>)"

definition terminal_wrap :: "'a terminal_scheme \<Rightarrow> 'a terminal_scheme" where
  "terminal_wrap s =
     (if terminal_column s = vga_width then
        let s = s \<lparr> terminal_column := 0, terminal_row := terminal_row s + 1 \<rparr>;
            s = (if terminal_row s = vga_height
                 then let s = vga_scroll_row s in s \<lparr> terminal_row := terminal_row s - 1 \<rparr> else s)
        in terminal_clear_line_end 0 (terminal_row s) s
      else s)"

definition terminal_putchar :: "device \<Rightarrow> u8 \<Rightarrow> 'a terminal_scheme \<Rightarrow> 'a terminal_scheme option" where
  "terminal_putchar dev c s =
     (let s = terminal_wrap (terminal_place c s);
          s = vga_move_cursor (terminal_row s) (terminal_column s) s
      in if serial_console_port s \<noteq> 0
         then map_option (\<lambda>t. s \<lparr> ports := t \<rparr>) (uart_putc_sync dev (serial_console_port s) c (ports s))
         else Some s)"

fun put_chars :: "device \<Rightarrow> u8 list \<Rightarrow> 'a terminal_scheme \<Rightarrow> 'a terminal_scheme option" where
  "put_chars dev [] s = Some s"
| "put_chars dev (c # cs) s = Option.bind (terminal_putchar dev c s) (put_chars dev cs)"

text \<open>The string up to its terminator.\<close>

definition terminal_writestring :: "device \<Rightarrow> u8 list \<Rightarrow> 'a terminal_scheme \<Rightarrow> 'a terminal_scheme option" where
  "terminal_writestring dev data s = put_chars dev (takeWhile (\<lambda>c. c \<noteq> 0) data) s"

section \<open>The screen shows the text\<close>

text \<open>A screen entry by row and column, and the facts on the operations in those terms.\<close>

definition entry_at :: "'a vga_scheme \<Rightarrow> nat \<Rightarrow> nat \<Rightarrow> u16" where
  "entry_at s i j = entries s (of_nat (i * 80 + j))"

lemma of_nat_index: "a < 2000 \<Longrightarrow> b < 2000 \<Longrightarrow> (of_nat a :: u32) = of_nat b \<longleftrightarrow> a = b"
  by (simp add: word_of_nat_eq_iff take_bit_nat_eq_self)

lemma index_eq_iff:
  assumes "i < 25" "j < 80" "i' < 25" "j' < 80"
  shows "(of_nat (i * 80 + j) :: u32) = of_nat (i' * 80 + j') \<longleftrightarrow> i = i' \<and> j = j'"
proof -
  have "(of_nat (i * 80 + j) :: u32) = of_nat (i' * 80 + j') \<longleftrightarrow> i * 80 + j = i' * 80 + j'"
    using assms by (intro of_nat_index) simp_all
  moreover have "(i * 80 + j) div 80 = i" "(i * 80 + j) mod 80 = j" "(i' * 80 + j') div 80 = i'" "(i' * 80 + j') mod 80 = j'"
    using assms by simp_all
  ultimately show ?thesis
    by metis
qed

lemma entry_at_put:
  assumes "i < 25" "j < 80" "i' < 25" "j' < 80"
  shows "entry_at (vga_put_char c color (of_nat j) (of_nat i) s) i' j' =
    (if i' = i \<and> j' = j then vga_make_vgaentry c color else entry_at s i' j')"
  using index_eq_iff [OF assms(3,4,1,2)] by (simp add: entry_at_def vga_put_char_def VGA_WIDTH_def)

lemma rest_put [simp]:
  "terminal.more (vga_put_char c color x y s) = terminal.more s"
  "terminal_row (vga_put_char c color x y s) = terminal_row s"
  "terminal_column (vga_put_char c color x y s) = terminal_column s"
  "terminal_color (vga_put_char c color x y s) = terminal_color s"
  "serial_console_port (vga_put_char c color x y s) = serial_console_port s"
  "ports (vga_put_char c color x y s) = ports s"
  by (simp_all add: vga_put_char_def)

lemma entry_at_upd [simp]:
  "entry_at (s \<lparr> terminal_row := r \<rparr>) = entry_at s" "entry_at (s \<lparr> terminal_column := r \<rparr>) = entry_at s"
  "entry_at (s \<lparr> terminal_color := c \<rparr>) = entry_at s" "entry_at (s \<lparr> ports := t \<rparr>) = entry_at s"
  by (simp_all add: entry_at_def fun_eq_iff)

text \<open>What an operation leaves alone: everything but the entries.\<close>

definition same_cursor :: "'a terminal_scheme \<Rightarrow> 'a terminal_scheme \<Rightarrow> bool" where
  "same_cursor s s' \<longleftrightarrow> terminal_row s' = terminal_row s \<and> terminal_column s' = terminal_column s
     \<and> terminal_color s' = terminal_color s \<and> serial_console_port s' = serial_console_port s \<and> ports s' = ports s
     \<and> terminal.more s' = terminal.more s"

lemma clear_line_end_entries:
  assumes "i < 25" "j \<le> 80"
  shows "same_cursor s (terminal_clear_line_end (of_nat j) (of_nat i) s)
    \<and> (\<forall>i' < 25. \<forall>j' < 80. entry_at (terminal_clear_line_end (of_nat j) (of_nat i) s) i' j' =
        (if i' = i \<and> j \<le> j' then vga_make_vgaentry 32 (terminal_color s) else entry_at s i' j'))"
  using assms(2)
proof (induction "80 - j" arbitrary: j s)
  case 0
  then show ?case
    by (simp add: terminal_clear_line_end.simps [of 80] same_cursor_def vga_width_def VGA_WIDTH_def)
next
  case (Suc n)
  then have j: "j < 80" "n = 80 - Suc j"
    by simp_all
  then have "(of_nat j :: u32) < vga_width"
    by (simp add: vga_width_def VGA_WIDTH_def word_less_nat_alt unat_u32_of_nat)
  then have "terminal_clear_line_end (of_nat j) (of_nat i) s =
      terminal_clear_line_end (of_nat (Suc j)) (of_nat i) (vga_put_char 32 (terminal_color s) (of_nat j) (of_nat i) s)"
    by (simp add: terminal_clear_line_end.simps [of "of_nat j"] terminal_putentryat_def add.commute)
  then show ?case
    using Suc(1) [of "Suc j" "vga_put_char 32 (terminal_color s) (of_nat j) (of_nat i) s"] j assms(1)
    by (auto simp: same_cursor_def entry_at_put)
qed

text \<open>Clearing the whole screen, and scrolling.\<close>

lemma clear_columns:
  fixes s :: "'a terminal_scheme"
  assumes "i < 25" "n \<le> 80"
  defines "s' \<equiv> fold (\<lambda>x s. terminal_putentryat 32 (terminal_color s) (of_nat x) (of_nat i) s) [0..<n] s"
  shows "same_cursor s s' \<and> (\<forall>i' < 25. \<forall>j' < 80. entry_at s' i' j' =
    (if i' = i \<and> j' < n then vga_make_vgaentry 32 (terminal_color s) else entry_at s i' j'))"
  using assms(2) unfolding s'_def
proof (induction n)
  case (Suc n)
  then show ?case
    using assms(1) by (auto simp: terminal_putentryat_def same_cursor_def entry_at_put less_Suc_eq)
qed (simp add: same_cursor_def)

lemma clear_rows:
  fixes s :: "'a terminal_scheme"
  assumes "n \<le> 25"
  defines "s' \<equiv> fold (\<lambda>y. fold (\<lambda>x s. terminal_putentryat 32 (terminal_color s) (of_nat x) (of_nat y) s) [0..<80]) [0..<n] s"
  shows "same_cursor s s' \<and> (\<forall>i < 25. \<forall>j < 80. entry_at s' i j =
    (if i < n then vga_make_vgaentry 32 (terminal_color s) else entry_at s i j))"
  using assms(1) unfolding s'_def
proof (induction n)
  case (Suc n)
  let ?t = "fold (\<lambda>y. fold (\<lambda>x s. terminal_putentryat 32 (terminal_color s) (of_nat x) (of_nat y) s) [0..<80]) [0..<n] s"
  show ?case
    using Suc clear_columns [of n 80 ?t] by (auto simp: same_cursor_def less_Suc_eq)
qed (simp add: same_cursor_def)

lemma clear_entries:
  "same_cursor s (terminal_clear s)
   \<and> (\<forall>i < 25. \<forall>j < 80. entry_at (terminal_clear s) i j = vga_make_vgaentry 32 (terminal_color s))"
  using clear_rows [of 25 s] by (simp add: terminal_clear_def vga_width_def vga_height_def VGA_WIDTH_def VGA_HEIGHT_def)

lemma scroll_entry_at:
  assumes "i < 24" "j < 80"
  shows "scroll_entry (Suc i) j b = b (of_nat (i * 80 + j) := b (of_nat (Suc i * 80 + j)))"
  by (simp add: scroll_entry_def VGA_WIDTH_def Let_def algebra_simps)

lemma scroll_columns:
  assumes "i < 24" "n \<le> 80" "i' < 25" "j' < 80"
  shows "fold (scroll_entry (Suc i)) [0..<n] b (of_nat (i' * 80 + j')) =
    (if i' = i \<and> j' < n then b (of_nat (Suc i' * 80 + j')) else b (of_nat (i' * 80 + j')))"
  using assms(2-4)
proof (induction n arbitrary: i' j')
  case (Suc n)
  then show ?case
    using assms(1) Suc.IH [of i' j'] Suc.IH [of "Suc i" n] index_eq_iff [of i' j' i n]
    by (auto simp: scroll_entry_at less_Suc_eq simp del: of_nat_add of_nat_mult of_nat_Suc mult_Suc split: if_splits)
qed simp

lemma scroll_rows:
  assumes "n \<le> 24" "i < 25" "j < 80"
  shows "fold (\<lambda>y. fold (scroll_entry y) [0..<80]) [1..<Suc n] b (of_nat (i * 80 + j)) =
    (if i < n then b (of_nat (Suc i * 80 + j)) else b (of_nat (i * 80 + j)))"
  using assms
proof (induction n arbitrary: i)
  case (Suc n)
  let ?b = "fold (\<lambda>y. fold (scroll_entry y) [0..<80]) [1..<Suc n] b"
  have "fold (\<lambda>y. fold (scroll_entry y) [0..<80]) [1..<Suc (Suc n)] b = fold (scroll_entry (Suc n)) [0..<80] ?b"
    by simp
  then show ?case
    using Suc.prems Suc.IH [of i] Suc.IH [of "Suc n"] scroll_columns [of n 80 i j ?b]
    by (auto simp: less_Suc_eq simp del: of_nat_add of_nat_mult of_nat_Suc mult_Suc upt_Suc split: if_splits)
qed simp

lemma scroll_entries:
  assumes "i < 25" "j < 80"
  shows "entry_at (vga_scroll_row s) i j = (if i < 24 then entry_at s (Suc i) j else entry_at s i j)"
  using scroll_rows [of 24 i j "entries s"] assms
  by (simp add: entry_at_def vga_scroll_row_def VGA_WIDTH_def VGA_HEIGHT_def del: of_nat_add of_nat_mult of_nat_Suc mult_Suc)

lemma rest_scroll [simp]:
  "terminal_row (vga_scroll_row s) = terminal_row s" "terminal_column (vga_scroll_row s) = terminal_column s"
  "terminal_color (vga_scroll_row s) = terminal_color s" "ports (vga_scroll_row s) = ports s"
  "serial_console_port (vga_scroll_row s) = serial_console_port s" "terminal.more (vga_scroll_row s) = terminal.more s"
  by (simp_all add: vga_scroll_row_def)

text \<open>
  The text as lines: the finished lines and the one being written.  A full line is finished at once, and a backspace never goes
  back to the line before.
\<close>

type_synonym paper = "u8 list list \<times> u8 list"

fun teletype :: "paper \<Rightarrow> u8 \<Rightarrow> paper" where
  "teletype (ls, cur) c =
     (if c = 10 then (ls @ [cur], [])
      else if c = 8 then (ls, butlast cur)
      else if length cur = 79 then (ls @ [cur @ [c]], [])
      else (ls, cur @ [c]))"

definition line_no :: "paper \<Rightarrow> nat \<Rightarrow> u8 list" where
  "line_no p n = (if n < length (fst p) then fst p ! n else if n = length (fst p) then snd p else [])"

definition pad :: "u8 list \<Rightarrow> nat \<Rightarrow> u8" where
  "pad l j = (if j < length l then l ! j else 32)"

text \<open>The screen has the last 25 lines and the cursor is at the end of the last one.\<close>

definition entries_show :: "'a terminal_scheme \<Rightarrow> paper \<Rightarrow> bool" where
  "entries_show s p \<longleftrightarrow>
     terminal_row s = of_nat (min (length (fst p)) 24)
     \<and> (\<forall>i < 25. \<forall>j < 80. entry_at s i j = vga_make_vgaentry (pad (line_no p (i + (length (fst p) - 24))) j) (terminal_color s))"

definition shows_paper :: "'a terminal_scheme \<Rightarrow> paper \<Rightarrow> bool" where
  "shows_paper s p \<longleftrightarrow> length (snd p) < 80 \<and> terminal_column s = of_nat (length (snd p)) \<and> entries_show s p"

lemma pad_snoc: "pad (l @ [c]) j = (if j = length l then c else pad l j)"
  by (auto simp: pad_def nth_append)

lemma pad_butlast: "pad (butlast l) j = (if Suc j = length l then 32 else pad l j)"
  by (auto simp: pad_def nth_butlast)

lemma pad_Nil [simp]: "pad [] j = 32"
  by (simp add: pad_def)

lemma current_line:
  assumes "i < 25"
  shows "i + (length ls - 24) = length ls \<longleftrightarrow> i = min (length ls) 24"
    "line_no (ls, cur) (i + (length ls - 24)) = (if i = min (length ls) 24 then cur else line_no (ls, []) (i + (length ls - 24)))"
  using assms by (auto simp: line_no_def min_def)

lemma shows_paperD:
  assumes "shows_paper s (ls, cur)"
  shows "entries_show s (ls, cur)" "terminal_row s = of_nat (min (length ls) 24)" "terminal_column s = of_nat (length cur)"
    "length cur < 80" "j < 80 \<Longrightarrow> entry_at s (min (length ls) 24) j = vga_make_vgaentry (pad cur j) (terminal_color s)"
  using assms current_line(2) [of "min (length ls) 24" ls cur] by (simp_all add: shows_paper_def entries_show_def)

lemma entries_show_line:
  assumes "entries_show s (ls, cur)" "terminal_row s' = terminal_row s" "terminal_color s' = terminal_color s"
    "\<And>i j. i < 25 \<Longrightarrow> j < 80 \<Longrightarrow> entry_at s' i j =
       (if i = min (length ls) 24 then vga_make_vgaentry (pad cur' j) (terminal_color s) else entry_at s i j)"
  shows "entries_show s' (ls, cur')"
  using assms(1) by (simp add: entries_show_def assms(2-4) current_line(2) [of _ ls cur] current_line(2) [of _ ls cur'])

lemma place_char:
  assumes "shows_paper s (ls, cur)" "c \<noteq> 10" "c \<noteq> 8"
  shows "entries_show (terminal_place c s) (ls, cur @ [c]) \<and> terminal_column (terminal_place c s) = of_nat (Suc (length cur))"
proof -
  let ?r = "min (length ls) 24"
  note s = shows_paperD(1-4) [OF assms(1)] and e = shows_paperD(5) [OF assms(1)]
  have "entries_show (terminal_place c s) (ls, cur @ [c])"
    using s(1) by (rule entries_show_line)
      (use s e assms(2,3) in \<open>auto simp: terminal_place_def terminal_putentryat_def entry_at_put pad_snoc Let_def\<close>)
  then show ?thesis
    using s(3) assms(2,3) by (simp add: terminal_place_def terminal_putentryat_def)
qed

lemma place_backspace:
  assumes "shows_paper s (ls, cur)"
  shows "shows_paper (terminal_place 8 s) (ls, butlast cur)"
proof (cases "cur = []")
  case True
  then show ?thesis
    using assms by (simp add: shows_paper_def terminal_place_def)
next
  case False
  let ?r = "min (length ls) 24"
  note s = shows_paperD(1-4) [OF assms(1)] and e = shows_paperD(5) [OF assms(1)]
  have c: "terminal_column s > 0" "terminal_column s - 1 = of_nat (length cur - 1)"
    using False s(3,4) by (simp_all add: word_less_nat_alt unat_u32_of_nat of_nat_diff Suc_leI)
  have "entries_show (terminal_place 8 s) (ls, butlast cur)"
    using s(1) by (rule entries_show_line)
      (use s e c False in \<open>auto simp: terminal_place_def terminal_putentryat_def entry_at_put pad_butlast Let_def\<close>)
  then show ?thesis
    using c s(4) by (simp add: shows_paper_def terminal_place_def terminal_putentryat_def Let_def)
qed

lemma place_newline:
  assumes "shows_paper s (ls, cur)"
  shows "entries_show (terminal_place 10 s) (ls, cur) \<and> terminal_column (terminal_place 10 s) = 80"
proof -
  let ?r = "min (length ls) 24"
  note s = shows_paperD(1-4) [OF assms(1)] and e = shows_paperD(5) [OF assms(1)]
  note cl = clear_line_end_entries [of ?r "length cur" s]
  have "entries_show (terminal_place 10 s) (ls, cur)"
    using s(1) by (rule entries_show_line)
      (use s e cl in \<open>auto simp: terminal_place_def same_cursor_def pad_def\<close>)
  then show ?thesis
    by (simp add: terminal_place_def vga_width_def VGA_WIDTH_def)
qed

lemma wrap_shows:
  assumes "entries_show s (ls, cur)" "terminal_column s = 80"
  shows "shows_paper (terminal_wrap s) (ls @ [cur], [])"
proof -
  define s1 where "s1 = s \<lparr> terminal_column := 0, terminal_row := terminal_row s + 1 \<rparr>"
  define s2 where "s2 = (if terminal_row s1 = vga_height
    then let s = vga_scroll_row s1 in s \<lparr> terminal_row := terminal_row s - 1 \<rparr> else s1)"
  let ?n = "length ls"
  have w: "terminal_wrap s = terminal_clear_line_end 0 (terminal_row s2) s2"
    using assms(2) unfolding terminal_wrap_def s1_def s2_def by (simp add: vga_width_def VGA_WIDTH_def Let_def)
  have r1: "terminal_row s1 = of_nat (Suc (min ?n 24))"
    using assms(1) by (simp add: s1_def entries_show_def)
  have full: "terminal_row s1 = vga_height \<longleftrightarrow> 24 \<le> ?n"
    using of_nat_index [of "Suc (min ?n 24)" 25] by (simp add: r1 vga_height_def VGA_HEIGHT_def min_def del: of_nat_Suc)
  have rest: "terminal_row s2 = of_nat (min (Suc ?n) 24)" "terminal_column s2 = 0" "terminal_color s2 = terminal_color s"
    using full r1 by (auto simp: s2_def s1_def Let_def)
  have e: "entry_at s2 i j = vga_make_vgaentry (pad (line_no (ls, cur) (i + (Suc ?n - 24))) j) (terminal_color s)"
    if "i < 25" "j < 80" "i \<noteq> min (Suc ?n) 24" for i j
  proof (cases "24 \<le> ?n")
    case True
    then show ?thesis
      using assms(1) that full
      by (simp add: s2_def Let_def scroll_entries entries_show_def s1_def Suc_diff_le)
  next
    case False
    then show ?thesis
      using assms(1) that full by (simp add: s2_def entries_show_def s1_def)
  qed
  note cl = clear_line_end_entries [of "min (Suc ?n) 24" 0 s2]
  have l: "line_no (ls @ [cur], []) k = (if k = Suc ?n then [] else line_no (ls, cur) k)" for k
    by (auto simp: line_no_def nth_append)
  have "entries_show (terminal_wrap s) (ls @ [cur], [])"
    using cl e rest current_line(1) [of _ "ls @ [cur]"] unfolding w entries_show_def
    by (auto simp: same_cursor_def l)
  then show ?thesis
    using cl rest by (simp add: shows_paper_def w same_cursor_def)
qed

lemma no_wrap:
  assumes "n < 80" "terminal_column s = of_nat n"
  shows "terminal_wrap s = s"
  using assms of_nat_index [of n 80] by (simp add: terminal_wrap_def vga_width_def VGA_WIDTH_def)

lemma clear_line_end_rest: "same_cursor s (terminal_clear_line_end x y s)"
proof (induction x y s rule: terminal_clear_line_end.induct)
  case (1 x y s)
  then show ?case
    by (subst terminal_clear_line_end.simps) (simp add: same_cursor_def terminal_putentryat_def)
qed

lemma place_wrap_rest:
  "serial_console_port (terminal_wrap (terminal_place c s)) = serial_console_port s"
  "ports (terminal_wrap (terminal_place c s)) = ports s"
  "terminal.more (terminal_wrap (terminal_place c s)) = terminal.more s"
proof -
  have cl: "serial_console_port (terminal_clear_line_end x y u) = serial_console_port u"
    "ports (terminal_clear_line_end x y u) = ports u" "terminal.more (terminal_clear_line_end x y u) = terminal.more u" for x y and u :: "'a terminal_scheme"
    using clear_line_end_rest [of u x y] by (simp_all add: same_cursor_def)
  show "serial_console_port (terminal_wrap (terminal_place c s)) = serial_console_port s"
    "ports (terminal_wrap (terminal_place c s)) = ports s"
    "terminal.more (terminal_wrap (terminal_place c s)) = terminal.more s"
    by (simp_all add: terminal_wrap_def terminal_place_def terminal_putentryat_def cl Let_def)
qed

lemma place_wrap_shows:
  assumes "shows_paper s p"
  shows "shows_paper (terminal_wrap (terminal_place c s)) (teletype p c)"
proof -
  obtain ls cur where p: "p = (ls, cur)"
    by (cases p)
  have s: "shows_paper s (ls, cur)"
    using assms by (simp add: p)
  consider "c = 10" | "c = 8" | "c \<noteq> 10" "c \<noteq> 8"
    by blast
  then show ?thesis
  proof cases
    case 1
    then show ?thesis
      using wrap_shows [of "terminal_place 10 s"] place_newline [OF s] by (simp add: p)
  next
    case 2
    then show ?thesis
      using place_backspace [OF s] no_wrap [of "length (butlast cur)" "terminal_place 8 s"]
      by (simp add: p shows_paper_def del: length_butlast)
  next
    case 3
    note c = place_char [OF s 3]
    show ?thesis
    proof (cases "length cur = 79")
      case True
      then show ?thesis
        using 3 c wrap_shows [of "terminal_place c s"] by (simp add: p)
    next
      case False
      then show ?thesis
        using 3 c no_wrap [of "Suc (length cur)" "terminal_place c s"] shows_paperD(4) [OF s]
        by (simp add: p shows_paper_def)
    qed
  qed
qed

text \<open>No serial console, or one on a port of its own with a device that gets ready.\<close>

definition serial_ok :: "device \<Rightarrow> u16 \<Rightarrow> bool" where
  "serial_ok dev port \<longleftrightarrow> port = 0 \<or> (eventually_ready dev port \<and> port \<noteq> VGA_PORT_3D4 \<and> port \<noteq> VGA_DATA_3D5)"

definition echoed :: "u16 \<Rightarrow> u8 list \<Rightarrow> io \<Rightarrow> io \<Rightarrow> bool" where
  "echoed port cs t t' \<longleftrightarrow> port = 0 \<or> written port t' = written port t @ cs"

lemma shows_paper_ports [simp]: "shows_paper (s \<lparr> ports := t \<rparr>) p = shows_paper s p"
  by (simp add: shows_paper_def entries_show_def)

lemma move_cursor_rest [simp]:
  "shows_paper (vga_move_cursor r c s) p = shows_paper s p" "serial_console_port (vga_move_cursor r c s) = serial_console_port s"
  "terminal.more (vga_move_cursor r c s) = terminal.more s"
  by (simp_all add: vga_move_cursor_def Let_def)

lemma written_move_cursor:
  "port \<noteq> VGA_PORT_3D4 \<Longrightarrow> port \<noteq> VGA_DATA_3D5 \<Longrightarrow> written port (ports (vga_move_cursor r c s)) = written port (ports s)"
  by (simp add: vga_move_cursor_def Let_def)

lemma putchar_step:
  assumes "shows_paper s p" "serial_ok dev (serial_console_port s)"
  shows "\<exists>s'. terminal_putchar dev c s = Some s' \<and> shows_paper s' (teletype p c) \<and> terminal.more s' = terminal.more s
    \<and> serial_console_port s' = serial_console_port s \<and> echoed (serial_console_port s) [c] (ports s) (ports s')"
proof -
  define s1 where "s1 = terminal_wrap (terminal_place c s)"
  define s2 where "s2 = vga_move_cursor (terminal_row s1) (terminal_column s1) s1"
  have s2: "shows_paper s2 (teletype p c)" "serial_console_port s2 = serial_console_port s" "terminal.more s2 = terminal.more s"
    using place_wrap_shows [OF assms(1)] by (simp_all add: s1_def s2_def place_wrap_rest)
  have put: "terminal_putchar dev c s = (if serial_console_port s \<noteq> 0
      then map_option (\<lambda>t. s2 \<lparr> ports := t \<rparr>) (uart_putc_sync dev (serial_console_port s) c (ports s2)) else Some s2)"
    using s2(2) by (simp add: terminal_putchar_def s1_def s2_def Let_def)
  show ?thesis
  proof (cases "serial_console_port s = 0")
    case True
    then show ?thesis
      using s2 by (simp add: put echoed_def)
  next
    case False
    then have ok: "eventually_ready dev (serial_console_port s)"
      and w: "written (serial_console_port s) (ports s2) = written (serial_console_port s) (ports s)"
      using assms(2) by (simp_all add: serial_ok_def s2_def s1_def written_move_cursor place_wrap_rest)
    show ?thesis
      using uart_putc_returns [OF ok, of c "ports s2"] False s2 w by (auto simp: put echoed_def)
  qed
qed

lemma put_chars_shows:
  assumes "shows_paper s p" "serial_ok dev (serial_console_port s)"
  shows "\<exists>s'. put_chars dev cs s = Some s' \<and> shows_paper s' (foldl teletype p cs)
    \<and> echoed (serial_console_port s) cs (ports s) (ports s')"
  using assms
proof (induction cs arbitrary: s p)
  case (Cons c cs)
  obtain s1 where s1: "terminal_putchar dev c s = Some s1" "shows_paper s1 (teletype p c)"
    "serial_console_port s1 = serial_console_port s" "echoed (serial_console_port s) [c] (ports s) (ports s1)"
    using putchar_step [OF Cons.prems] by blast
  show ?case
    using Cons.IH [OF s1(2)] Cons.prems(2) s1 by (auto simp: echoed_def)
qed (simp add: echoed_def)

lemma initialize_shows:
  "shows_paper (terminal_initialize s) ([], []) \<and> serial_console_port (terminal_initialize s) = serial_console_port s
   \<and> ports (terminal_initialize s) = ports s"
proof -
  define t where "t = s \<lparr> terminal_row := 0, terminal_column := 0, terminal_color := vga_make_color COLOR_LIGHT_GREY COLOR_BLACK \<rparr>"
  have "terminal_initialize s = terminal_clear t"
    by (simp add: terminal_initialize_def t_def)
  then show ?thesis
    using clear_entries [of t] by (simp add: shows_paper_def entries_show_def same_cursor_def line_no_def) (simp add: t_def)
qed

text \<open>
  On a terminal that has been initialised, writing any text ends and leaves on the screen the last 25 lines of that text
  laid out on lines of 80 columns, with newlines, backspaces, wrapping and scrolling, blanks elsewhere, and the cursor behind
  the last character; a serial console receives the same bytes in order.
\<close>

theorem terminal_shows_text:
  assumes "serial_ok dev (serial_console_port s)"
  shows "\<exists>s'. terminal_writestring dev data (terminal_initialize s) = Some s'
    \<and> shows_paper s' (foldl teletype ([], []) (takeWhile (\<lambda>c. c \<noteq> 0) data))
    \<and> echoed (serial_console_port s) (takeWhile (\<lambda>c. c \<noteq> 0) data) (ports s) (ports s')"
  using put_chars_shows [of "terminal_initialize s" "([], [])" dev] initialize_shows [of s] assms
  by (simp add: terminal_writestring_def)

definition demo_terminal :: terminal where
  "demo_terminal = \<lparr> vga_buffer = 0xC00B8000, entries = (\<lambda>_. 0), ports = [], terminal_row = 7, terminal_column = 9,
     terminal_color = 0, serial_console_port = 0x3f8 \<rparr>"

theorem terminal_shows_text_witness:
  "\<exists>s. terminal_writestring (\<lambda>_ _. 0x20) [72, 105, 8, 111, 10, 33] (terminal_initialize demo_terminal) = Some s
     \<and> shows_paper s ([[72, 111]], [33]) \<and> echoed 0x3f8 [72, 105, 8, 111, 10, 33] [] (ports s)"
proof -
  have "serial_ok (\<lambda>_ _. 0x20) (serial_console_port demo_terminal)"
    by (simp add: serial_ok_def eventually_ready_def demo_terminal_def VGA_PORT_3D4_def VGA_DATA_3D5_def)
  from terminal_shows_text [OF this, of "[72, 105, 8, 111, 10, 33]"] show ?thesis
    by (simp add: demo_terminal_def)
qed

end
