(* ===== verification/Tty.thy ===== *)
theory Tty
  imports Sched Terminal
begin

text \<open>
  The line discipline of the console, drivers/tty.c.  The result of \<open>kmalloc\<close> is an argument, the address or zero;
  that of \<open>krealloc\<close> is \<open>None\<close>, or the address with what the memory there held.  The bytes of a line are those at its
  pointer, also beyond its capacity.  A \<open>char\<close> is signed.
\<close>

section \<open>Data\<close>

record tty_line =
  tl_data :: u32
  tl_bytes :: "nat \<Rightarrow> u8"
  tl_capacity :: u32
  tl_length :: u32
  read_pos :: u32
  write_pos :: u32

text \<open>
  The console with the terminal and the scheduler.  The observers are linked structures; \<open>o_thread\<close> is the thread of each.
\<close>

record tty = terminal +
  tty_lines :: "tty_line option"
  observers :: "u32 option"
  o_next :: "u32 \<Rightarrow> u32 option"
  o_thread :: "u32 \<Rightarrow> u32 option"
  ts :: sched

datatype tty_key_event_type = tty_key_down | tty_key_up

record tty_key_event =
  event_type :: tty_key_event_type
  character :: u8
  mod_keys :: u32

definition TTY_NEW_LINE_CHAR :: u8 where "TTY_NEW_LINE_CHAR = 10"
definition tty_mod_shift :: u32 where "tty_mod_shift = 1"

type_synonym grown = "(u32 \<times> (nat \<Rightarrow> u8)) option"

section \<open>The line\<close>

definition tty_line_alloc :: "u32 \<Rightarrow> tty_line kres" where
  "tty_line_alloc p =
     (if p = 0 then Inl NullDeref
      else Inr \<lparr> tl_data = 0, tl_bytes = (\<lambda>_. 0), tl_capacity = 0, tl_length = 0, read_pos = 0, write_pos = 0 \<rparr>)"

definition tty_init :: "u32 \<Rightarrow> tty \<Rightarrow> tty kres" where
  "tty_init p s =
     (let s = s \<lparr> tty_lines := None, observers := None \<rparr>
      in kbind (tty_line_alloc p) (\<lambda>line. Inr (s \<lparr> tty_lines := Some line \<rparr>)))"

text \<open>The blocks it gives to \<open>kfree\<close>; \<open>p\<close> is the address of the line.\<close>

definition tty_line_free :: "u32 \<Rightarrow> tty_line \<Rightarrow> tty \<Rightarrow> tty" where
  "tty_line_free p line s =
     s \<lparr> ts := kfree_block p (if tl_data line \<noteq> 0 then kfree_block (tl_data line) (ts s) else ts s) \<rparr>"

definition tty_line_write_space_available :: "tty_line option \<Rightarrow> u32 kres" where
  "tty_line_write_space_available line =
     (case line of None \<Rightarrow> Inl (Assert ''line'') | Some l \<Rightarrow> Inr (tl_capacity l - write_pos l))"

definition tty_line_read_chars_available :: "tty_line option \<Rightarrow> u32 kres" where
  "tty_line_read_chars_available line =
     (case line of None \<Rightarrow> Inl (Assert ''line'') | Some l \<Rightarrow> Inr (tl_length l - read_pos l))"

text \<open>The memory after \<open>krealloc\<close>, which copies as many bytes as the new size from the old block.\<close>

definition regrown :: "tty_line \<Rightarrow> u32 \<Rightarrow> u32 \<Rightarrow> (nat \<Rightarrow> u8) \<Rightarrow> tty_line" where
  "regrown l new_capacity new_data mem =
     l \<lparr> tl_data := new_data,
         tl_bytes := (\<lambda>i. if tl_data l \<noteq> 0 \<and> i < unat new_capacity then tl_bytes l i else mem i),
         tl_capacity := new_capacity \<rparr>"

definition tty_line_reserve_space :: "grown \<Rightarrow> u32 \<Rightarrow> tty \<Rightarrow> (int \<times> tty) kres" where
  "tty_line_reserve_space r sz s =
     (case tty_lines s of
        None \<Rightarrow> Inl (Assert ''line'')
      | Some l \<Rightarrow>
          kbind (tty_line_write_space_available (Some l)) (\<lambda>space.
            if space < sz then
              (let new_capacity = max sz (tl_capacity l * 2) in
               case r of
                 Some (new_data, mem) \<Rightarrow>
                   Inr (0, s \<lparr> tty_lines := Some (regrown l new_capacity new_data mem),
                               ts := (if tl_data l \<noteq> 0 then kfree_block (tl_data l) (ts s) else ts s) \<rparr>)
               | None \<Rightarrow> Inr (-1, s))
            else Inr (0, s)))"

definition tty_put :: "device \<Rightarrow> u8 \<Rightarrow> tty \<Rightarrow> tty krun" where
  "tty_put dev c s = map_option Inr (terminal_putchar dev c s)"

definition tty_putc :: "device \<Rightarrow> u8 \<Rightarrow> tty \<Rightarrow> (int \<times> tty) krun" where
  "tty_putc dev c s = krun_bind (tty_put dev c s) (\<lambda>s. kret (0, s))"

fun tty_puts :: "device \<Rightarrow> u8 list \<Rightarrow> tty \<Rightarrow> (int \<times> tty) krun" where
  "tty_puts dev [] s = kret (0, s)"
| "tty_puts dev (c # cs) s =
     (if c = 0 then kret (0, s)
      else krun_bind (tty_putc dev c s) (\<lambda>(r, s). if r \<noteq> 0 then kret (-1, s) else tty_puts dev cs s))"

definition tty_line_append_char :: "device \<Rightarrow> grown \<Rightarrow> u8 \<Rightarrow> tty \<Rightarrow> (int \<times> tty) krun" where
  "tty_line_append_char dev r c s =
     (if c = 8 then
        (case tty_lines s of
           None \<Rightarrow> kfail NullDeref
         | Some l \<Rightarrow>
             if read_pos l < write_pos l then
               krun_bind (tty_put dev c (s \<lparr> tty_lines := Some (l \<lparr> write_pos := write_pos l - 1, tl_length := tl_length l - 1 \<rparr>) \<rparr>))
                 (\<lambda>s. kret (0, s))
             else kret (0, s))
      else
        krun_bind (Some (tty_line_reserve_space r 1 s)) (\<lambda>(e, s).
          if e \<noteq> 0 then kret (-1, s)
          else
            krun_bind (Some (tty_line_write_space_available (tty_lines s))) (\<lambda>space.
            krun_bind (krun_assert (space > 0) ''tty_line_write_space_available(line) > 0'') (\<lambda>_.
              case tty_lines s of
                None \<Rightarrow> kfail NullDeref
              | Some l \<Rightarrow>
                  krun_bind (tty_put dev c (s \<lparr> tty_lines := Some (l \<lparr>
                      tl_bytes := (tl_bytes l)(unat (write_pos l) := c),
                      write_pos := write_pos l + 1, tl_length := tl_length l + 1 \<rparr>) \<rparr>))
                    (\<lambda>s. kret (0, s))))))"

text \<open>The move copies as many bytes as the line holds, from the read position.\<close>

definition compacted :: "tty_line \<Rightarrow> tty_line" where
  "compacted l =
     l \<lparr> tl_bytes := (\<lambda>i. if i < unat (tl_length l) then tl_bytes l (i + unat (read_pos l)) else tl_bytes l i),
         tl_length := tl_length l - read_pos l, write_pos := write_pos l - read_pos l, read_pos := 0 \<rparr>"

definition tty_compact_buffer :: "tty \<Rightarrow> tty kres" where
  "tty_compact_buffer s =
     (case tty_lines s of None \<Rightarrow> Inl NullDeref | Some l \<Rightarrow> Inr (s \<lparr> tty_lines := Some (compacted l) \<rparr>))"

section \<open>Observers\<close>

definition tty_observer_new :: "u32 \<Rightarrow> u32 option \<Rightarrow> tty \<Rightarrow> tty kres" where
  "tty_observer_new obs t s =
     (if obs = 0 then Inl NullDeref
      else Inr (s \<lparr> o_next := (o_next s)(obs := None), o_thread := (o_thread s)(obs := t) \<rparr>))"

definition tty_observer_delete :: "u32 \<Rightarrow> tty \<Rightarrow> tty" where
  "tty_observer_delete obs s = s \<lparr> ts := kfree_block obs (ts s) \<rparr>"

partial_function (option) notify_from :: "u32 option \<Rightarrow> tty \<Rightarrow> tty krun" where
  "notify_from elt s =
     (case elt of
        None \<Rightarrow> kret s
      | Some e \<Rightarrow>
          (case o_thread s e of
             None \<Rightarrow> kfail NullDeref
           | Some t \<Rightarrow>
               (case scheduler_make_runnable t (ts s) of
                  None \<Rightarrow> None
                | Some (Inl er) \<Rightarrow> kfail er
                | Some (Inr k) \<Rightarrow> notify_from (o_next s e) (s \<lparr> ts := k \<rparr>))))"

definition tty_notify_chars_available :: "tty \<Rightarrow> tty krun" where
  "tty_notify_chars_available s = notify_from (observers s) s"

definition tty_line_newline :: "device \<Rightarrow> grown \<Rightarrow> tty \<Rightarrow> (int \<times> tty) krun" where
  "tty_line_newline dev r s =
     krun_bind (tty_line_append_char dev r 10 s) (\<lambda>(e, s).
       if e = 0 then
         krun_bind (Some (tty_compact_buffer s)) (\<lambda>s.
         krun_bind (tty_notify_chars_available s) (\<lambda>s. kret (0, s)))
       else kret (-1, s))"

text \<open>The function ends without a return statement.\<close>

definition tty_send_key_event :: "device \<Rightarrow> grown \<Rightarrow> tty_key_event \<Rightarrow> tty \<Rightarrow> tty krun" where
  "tty_send_key_event dev r event s =
     (if event_type event = tty_key_down then
        (if mod_keys event = 0 \<or> mod_keys event = tty_mod_shift then
           (if character event = TTY_NEW_LINE_CHAR
            then krun_bind (tty_line_newline dev r s) (\<lambda>(_, s). kret s)
            else krun_bind (tty_line_append_char dev r (character event) s) (\<lambda>(_, s). kret s))
         else kret s)
      else kret s)"

section \<open>Reading\<close>

text \<open>A call that may be suspended: its result, or the flags with which it is resumed.\<close>

datatype 'a blocking = Now 'a | Blocked u32

definition wait_finish :: "u32 \<Rightarrow> tty \<Rightarrow> (int blocking \<times> tty) krun" where
  "wait_finish obs s =
     krun_bind (LL_DELETE2 (o_next s, observers s) obs) (\<lambda>(n, h).
       kret (Now 0, tty_observer_delete obs (s \<lparr> o_next := n, observers := h \<rparr>)))"

text \<open>A turn of the loop: the current thread blocks itself and yields.\<close>

partial_function (option) tty_wait_turn :: "u8 \<Rightarrow> u32 \<Rightarrow> u32 \<Rightarrow> tty \<Rightarrow> (int blocking \<times> tty) krun" where
  "tty_wait_turn vma_byte now obs s =
     (case current_thread (ts s) of
        None \<Rightarrow> kfail NullDeref
      | Some me \<Rightarrow>
          (case scheduler_make_blocked me (ts s) of
             None \<Rightarrow> None
           | Some (Inl er) \<Rightarrow> kfail er
           | Some (Inr k) \<Rightarrow>
               (case scheduler_yield vma_byte now k of
                  None \<Rightarrow> None
                | Some (Inl er) \<Rightarrow> kfail er
                | Some (Inr (Suspended flags, k)) \<Rightarrow> kret (Blocked flags, s \<lparr> ts := k \<rparr>)
                | Some (Inr (Returned, k)) \<Rightarrow>
                    (case tty_line_read_chars_available (tty_lines s) of
                       Inl er \<Rightarrow> kfail er
                     | Inr available \<Rightarrow>
                         if available = 0 then tty_wait_turn vma_byte now obs (s \<lparr> ts := k \<rparr>)
                         else wait_finish obs (s \<lparr> ts := k \<rparr>)))))"

text \<open>When the thread is resumed in its turn.\<close>

definition tty_wait_resumed :: "u8 \<Rightarrow> u32 \<Rightarrow> u32 \<Rightarrow> u32 \<Rightarrow> tty \<Rightarrow> (int blocking \<times> tty) krun" where
  "tty_wait_resumed vma_byte now flags obs s =
     (let s = s \<lparr> ts := leave_cli flags (ts s) \<rparr> in
      krun_bind (Some (tty_line_read_chars_available (tty_lines s))) (\<lambda>available.
        if available = 0 then tty_wait_turn vma_byte now obs s else wait_finish obs s))"

definition tty_wait_chars_available :: "u8 \<Rightarrow> u32 \<Rightarrow> u32 \<Rightarrow> tty \<Rightarrow> (int blocking \<times> tty) krun" where
  "tty_wait_chars_available vma_byte now obs s =
     krun_bind (Some (tty_line_read_chars_available (tty_lines s))) (\<lambda>available.
       if available = 0 then
         krun_bind (Some (tty_observer_new obs (current_thread (ts s)) s)) (\<lambda>s.
         krun_bind (LL_PREPEND2 (o_next s, observers s) obs) (\<lambda>(n, h).
           tty_wait_turn vma_byte now obs (s \<lparr> o_next := n, observers := h \<rparr>)))
       else kret (Now 0, s))"

text \<open>The rest of \<open>tty_getc\<close>, after the wait.\<close>

definition getc_rest :: "tty \<Rightarrow> (int \<times> tty) kres" where
  "getc_rest s =
     kbind (tty_line_read_chars_available (tty_lines s)) (\<lambda>available.
       if available = 0 then Inr (-1, s)
       else
         case tty_lines s of
           None \<Rightarrow> Inl NullDeref
         | Some l \<Rightarrow> Inr (sint (tl_bytes l (unat (read_pos l))), s \<lparr> tty_lines := Some (l \<lparr> read_pos := read_pos l + 1 \<rparr>) \<rparr>))"

definition getc_after :: "(int blocking \<times> tty) krun \<Rightarrow> (int blocking \<times> tty) krun" where
  "getc_after w =
     krun_bind w (\<lambda>(b, s).
       case b of
         Blocked flags \<Rightarrow> kret (Blocked flags, s)
       | Now _ \<Rightarrow> krun_bind (Some (getc_rest s)) (\<lambda>(c, s). kret (Now c, s)))"

definition tty_getc :: "u8 \<Rightarrow> u32 \<Rightarrow> u32 \<Rightarrow> tty \<Rightarrow> (int blocking \<times> tty) krun" where
  "tty_getc vma_byte now obs s = getc_after (tty_wait_chars_available vma_byte now obs s)"

definition tty_getc_resumed :: "u8 \<Rightarrow> u32 \<Rightarrow> u32 \<Rightarrow> u32 \<Rightarrow> tty \<Rightarrow> (int blocking \<times> tty) krun" where
  "tty_getc_resumed vma_byte now flags obs s = getc_after (tty_wait_resumed vma_byte now flags obs s)"

text \<open>
  \<open>tty_gets\<close> with the places left in the buffer and the bytes stored so far: the result and the buffer, or the flags and
  where it stopped.  The character is a \<open>char\<close> again when it is tested.
\<close>

datatype gets_result = Read int "u8 list" | Stopped u32 nat "u8 list"

fun gets_loop :: "u8 \<Rightarrow> u32 \<Rightarrow> u32 \<Rightarrow> nat \<Rightarrow> u8 \<Rightarrow> u8 list \<Rightarrow> tty \<Rightarrow> (gets_result \<times> tty) krun" where
  "gets_loop vma_byte now obs 0 c acc s = kret (Read (int (length acc)) acc, s)"
| "gets_loop vma_byte now obs (Suc n) c acc s =
     (if c \<noteq> TTY_NEW_LINE_CHAR then
        krun_bind (tty_getc vma_byte now obs s) (\<lambda>(b, s).
          case b of
            Blocked flags \<Rightarrow> kret (Stopped flags (Suc n) acc, s)
          | Now r \<Rightarrow>
              (let c = word_of_int r :: u8 in
               if sint c < 0 then kret (Read (sint c) acc, s)
               else gets_loop vma_byte now obs n c (acc @ [c]) s))
      else kret (Read (int (length acc)) acc, s))"

definition tty_gets :: "u8 \<Rightarrow> u32 \<Rightarrow> u32 \<Rightarrow> u32 \<Rightarrow> tty \<Rightarrow> (gets_result \<times> tty) krun" where
  "tty_gets vma_byte now obs maxlength s = gets_loop vma_byte now obs (unat maxlength) 0 [] s"

text \<open>The call goes on when the thread that stopped in it is resumed.\<close>

definition tty_gets_resumed ::
    "u8 \<Rightarrow> u32 \<Rightarrow> u32 \<Rightarrow> u32 \<Rightarrow> nat \<Rightarrow> u8 list \<Rightarrow> tty \<Rightarrow> (gets_result \<times> tty) krun" where
  "tty_gets_resumed vma_byte now flags obs n acc s =
     krun_bind (tty_getc_resumed vma_byte now flags obs s) (\<lambda>(b, s).
       case b of
         Blocked flags \<Rightarrow> kret (Stopped flags n acc, s)
       | Now r \<Rightarrow>
           (let c = word_of_int r :: u8 in
            if sint c < 0 then kret (Read (sint c) acc, s)
            else gets_loop vma_byte now obs (n - 1) c (acc @ [c]) s))"

section \<open>The line is a queue with an editable end\<close>

text \<open>The characters of the line that have not been read, and the invariant of a line.\<close>

definition pending :: "tty_line \<Rightarrow> u8 list" where
  "pending l = map (tl_bytes l) [unat (read_pos l)..<unat (write_pos l)]"

definition line_ok :: "tty_line \<Rightarrow> bool" where
  "line_ok l \<longleftrightarrow> tl_length l = write_pos l \<and> read_pos l \<le> write_pos l \<and> write_pos l \<le> tl_capacity l
     \<and> (tl_data l = 0 \<longrightarrow> tl_capacity l = 0)"

definition display_ok :: "device \<Rightarrow> tty \<Rightarrow> paper \<Rightarrow> bool" where
  "display_ok dev s q \<longleftrightarrow> shows_paper s q \<and> serial_ok dev (serial_console_port s)"

definition only_freed :: "sched \<Rightarrow> sched \<Rightarrow> bool" where
  "only_freed k k' \<longleftrightarrow> (\<exists>bs. k' = k \<lparr> kfreed := bs \<rparr>)"

definition same_waiters :: "tty \<Rightarrow> tty \<Rightarrow> bool" where
  "same_waiters s s' \<longleftrightarrow>
     observers s' = observers s \<and> o_next s' = o_next s \<and> o_thread s' = o_thread s \<and> only_freed (ts s) (ts s')"

lemma only_freed_simps [simp]: "only_freed k k" "only_freed k (kfree_block p k)"
  by (auto simp: only_freed_def kfree_block_def intro: exI [of _ "kfreed k"])

lemma only_freed_trans: "only_freed k k' \<Longrightarrow> only_freed k' k'' \<Longrightarrow> only_freed k k''"
  by (auto simp: only_freed_def)

lemma same_waiters_trans: "same_waiters s s' \<Longrightarrow> same_waiters s' s'' \<Longrightarrow> same_waiters s s''"
  by (auto simp: same_waiters_def intro: only_freed_trans)

lemma display_ok_upd [simp]:
  "display_ok dev (s \<lparr> tty_lines := x \<rparr>) q = display_ok dev s q" "display_ok dev (s \<lparr> ts := k \<rparr>) q = display_ok dev s q"
  "display_ok dev (s \<lparr> observers := h \<rparr>) q = display_ok dev s q"
  by (simp_all add: display_ok_def shows_paper_def entries_show_def entry_at_def)

lemma tty_fields_more:
  assumes "terminal.more s' = terminal.more s"
  shows "tty_lines s' = tty_lines s" "observers s' = observers s" "o_next s' = o_next s" "o_thread s' = o_thread s" "ts s' = ts s"
  using assms by (cases s; cases s'; simp)+

lemma tty_put_ok:
  assumes "display_ok dev s q"
  shows "\<exists>s'. tty_put dev c s = kret s' \<and> display_ok dev s' (teletype q c) \<and> tty_lines s' = tty_lines s \<and> same_waiters s s'"
proof -
  obtain s' where s': "terminal_putchar dev c s = Some s'" "shows_paper s' (teletype q c)" "terminal.more s' = terminal.more s"
    "serial_console_port s' = serial_console_port s"
    using putchar_step [of s q dev c] assms by (auto simp: display_ok_def)
  then show ?thesis
    using assms tty_fields_more [OF s'(3)] by (simp add: tty_put_def kret_def display_ok_def same_waiters_def)
qed

lemma pending_cong:
  assumes "read_pos l' = read_pos l" "write_pos l' = write_pos l" "\<And>i. i < unat (write_pos l) \<Longrightarrow> tl_bytes l' i = tl_bytes l i"
  shows "pending l' = pending l"
  using assms by (simp add: pending_def)

lemma pending_empty:
  assumes "line_ok l"
  shows "pending l = [] \<longleftrightarrow> tl_length l - read_pos l = 0"
proof -
  have "pending l = [] \<longleftrightarrow> write_pos l \<le> read_pos l"
    by (auto simp: pending_def word_le_nat_alt)
  then show ?thesis
    using assms by (auto simp: line_ok_def)
qed

text \<open>Growing the line.\<close>

lemma regrown_ok:
  fixes mem :: "nat \<Rightarrow> u8"
  assumes "line_ok l" "unat (tl_capacity l) < 2 ^ 31" "tl_capacity l - write_pos l < 1" "nd \<noteq> 0"
  defines "l' \<equiv> regrown l (max 1 (tl_capacity l * 2)) nd mem"
  shows "line_ok l'" "write_pos l' < tl_capacity l'" "pending l' = pending l"
    "unat (tl_capacity l') \<le> 2 * unat (write_pos l) + 1" "write_pos l' = write_pos l" "read_pos l' = read_pos l"
proof -
  have wp: "write_pos l = tl_capacity l"
    using assms(1,3) by (simp add: word_less_1)
  have c2: "unat (tl_capacity l * 2) = unat (tl_capacity l) * 2"
    using assms(2) by (simp add: unat_word_ariths)
  have cap: "unat (max 1 (tl_capacity l * 2)) = max 1 (unat (tl_capacity l) * 2)"
    using c2 by (simp add: max_def word_le_nat_alt)
  show "unat (tl_capacity l') \<le> 2 * unat (write_pos l) + 1"
    using cap wp by (simp add: l'_def regrown_def)
  show lt: "write_pos l' < tl_capacity l'"
    using cap wp by (simp add: l'_def regrown_def word_less_nat_alt)
  show "line_ok l'"
    using assms(1,4) lt by (simp add: line_ok_def l'_def regrown_def)
  show "pending l' = pending l"
    using assms(1) lt by (intro pending_cong) (auto simp: l'_def regrown_def line_ok_def word_less_nat_alt)
qed (simp_all add: l'_def regrown_def)

lemma reserve_ok:
  assumes "tty_lines s = Some l" "line_ok l" "unat (tl_capacity l) < 2 ^ 31" "nd \<noteq> 0"
  shows "\<exists>s' l'. tty_line_reserve_space (Some (nd, mem)) 1 s = Inr (0, s') \<and> tty_lines s' = Some l' \<and> line_ok l'
    \<and> write_pos l' < tl_capacity l' \<and> pending l' = pending l \<and> write_pos l' = write_pos l \<and> read_pos l' = read_pos l
    \<and> unat (tl_capacity l') \<le> max (unat (tl_capacity l)) (2 * unat (write_pos l) + 1)
    \<and> same_waiters s s' \<and> display_ok dev s' q = display_ok dev s q"
proof (cases "tl_capacity l - write_pos l < 1")
  case True
  note g = regrown_ok [OF assms(2,3) True assms(4), of mem]
  show ?thesis
    using assms(1) True g by (simp add: tty_line_reserve_space_def tty_line_write_space_available_def same_waiters_def Let_def max.coboundedI2)
next
  case False
  then have "write_pos l \<noteq> tl_capacity l"
    by auto
  then have "write_pos l < tl_capacity l"
    using assms(2) by (auto simp: line_ok_def)
  then show ?thesis
    using assms(1,2) False
    by (simp add: tty_line_reserve_space_def tty_line_write_space_available_def same_waiters_def)
qed

lemma pending_snoc:
  fixes c :: u8
  assumes "line_ok l" "write_pos l < tl_capacity l"
  defines "l' \<equiv> l \<lparr> tl_bytes := (tl_bytes l)(unat (write_pos l) := c), write_pos := write_pos l + 1, tl_length := tl_length l + 1 \<rparr>"
  shows "line_ok l'" "pending l' = pending l @ [c]" "unat (write_pos l') = Suc (unat (write_pos l))"
proof -
  have "Suc (unat (write_pos l)) < 4294967296"
    using assms(2) unat_u32_less [of "tl_capacity l"] unfolding word_less_nat_alt by linarith
  then have wp: "unat (write_pos l + 1) = Suc (unat (write_pos l))"
    by (simp add: unat_word_ariths)
  have rp: "unat (read_pos l) \<le> unat (write_pos l)"
    using assms(1) by (simp add: line_ok_def word_le_nat_alt)
  show "unat (write_pos l') = Suc (unat (write_pos l))"
    by (simp add: l'_def wp)
  show "line_ok l'"
    using assms(1,2) wp by (simp add: line_ok_def l'_def word_le_nat_alt word_less_nat_alt)
  show "pending l' = pending l @ [c]"
    using rp by (simp add: pending_def l'_def wp)
qed

lemma append_ok:
  assumes "tty_lines s = Some l" "line_ok l" "unat (tl_capacity l) < 2 ^ 31" "nd \<noteq> 0" "display_ok dev s q" "c \<noteq> 8"
  shows "\<exists>s' l'. tty_line_append_char dev (Some (nd, mem)) c s = kret (0, s') \<and> tty_lines s' = Some l' \<and> line_ok l'
    \<and> pending l' = pending l @ [c] \<and> unat (write_pos l') = Suc (unat (write_pos l)) \<and> read_pos l' = read_pos l
    \<and> unat (tl_capacity l') \<le> max (unat (tl_capacity l)) (2 * unat (write_pos l) + 1)
    \<and> same_waiters s s' \<and> display_ok dev s' (teletype q c)"
proof -
  obtain s1 l1 where r: "tty_line_reserve_space (Some (nd, mem)) 1 s = Inr (0, s1)" "tty_lines s1 = Some l1" "line_ok l1"
    "write_pos l1 < tl_capacity l1" "pending l1 = pending l" "write_pos l1 = write_pos l" "read_pos l1 = read_pos l"
    "unat (tl_capacity l1) \<le> max (unat (tl_capacity l)) (2 * unat (write_pos l) + 1)" "same_waiters s s1" "display_ok dev s1 q"
    using reserve_ok [OF assms(1-4), of mem dev q] assms(5) by blast
  define l2 where
    "l2 = l1 \<lparr> tl_bytes := (tl_bytes l1)(unat (write_pos l1) := c), write_pos := write_pos l1 + 1, tl_length := tl_length l1 + 1 \<rparr>"
  note sn = pending_snoc [OF r(3,4), of c, folded l2_def]
  obtain s2 where p: "tty_put dev c (s1 \<lparr> tty_lines := Some l2 \<rparr>) = kret s2" "display_ok dev s2 (teletype q c)"
    "tty_lines s2 = Some l2" "same_waiters s1 s2"
    using tty_put_ok [of dev "s1 \<lparr> tty_lines := Some l2 \<rparr>" q c] r(10) by (auto simp: same_waiters_def)
  have sp: "tl_capacity l1 - write_pos l1 > 0"
    using r(4) by (simp add: word_neq_0_conv [symmetric] del: word_neq_0_conv)
  have "tty_line_append_char dev (Some (nd, mem)) c s = kret (0, s2)"
    using assms(6) r(1,2) p(1) sp unfolding l2_def
    by (simp add: tty_line_append_char_def tty_line_write_space_available_def)
  then show ?thesis
    using p sn r same_waiters_trans [OF r(9) p(4)] by (auto simp: l2_def)
qed

lemma backspace_ok:
  assumes "tty_lines s = Some l" "line_ok l" "display_ok dev s q"
  shows "\<exists>s' l'. tty_line_append_char dev r 8 s = kret (0, s') \<and> tty_lines s' = Some l' \<and> line_ok l'
    \<and> pending l' = butlast (pending l) \<and> same_waiters s s' \<and> read_pos l' = read_pos l \<and> tl_capacity l' = tl_capacity l
    \<and> unat (write_pos l') \<le> unat (write_pos l)
    \<and> display_ok dev s' (if pending l = [] then q else teletype q 8)"
proof (cases "read_pos l < write_pos l")
  case True
  define l' where "l' = l \<lparr> write_pos := write_pos l - 1, tl_length := tl_length l - 1 \<rparr>"
  have lt: "unat (read_pos l) < unat (write_pos l)"
    using True by (simp add: word_less_nat_alt)
  then have "1 \<le> write_pos l"
    by (simp add: word_le_nat_alt)
  then have rw: "unat (read_pos l) < unat (write_pos l)" "unat (write_pos l - 1) = unat (write_pos l) - 1"
    using lt unat_diff_le [of 1 "write_pos l"] by simp_all
  have "[unat (read_pos l)..<unat (write_pos l)] = [unat (read_pos l)..<unat (write_pos l) - 1] @ [unat (write_pos l) - 1]"
    using rw(1) upt_Suc_append [of "unat (read_pos l)" "unat (write_pos l) - 1"] by simp
  then have p: "pending l' = butlast (pending l)" "pending l \<noteq> []"
    using rw by (simp_all add: pending_def l'_def)
  have ok: "line_ok l'"
    using assms(2) rw by (auto simp: line_ok_def l'_def word_le_nat_alt)
  obtain s' where "tty_put dev 8 (s \<lparr> tty_lines := Some l' \<rparr>) = kret s'" "display_ok dev s' (teletype q 8)"
    "tty_lines s' = Some l'" "same_waiters s s'"
    using tty_put_ok [of dev "s \<lparr> tty_lines := Some l' \<rparr>" q 8] assms(3) by (auto simp: same_waiters_def)
  then show ?thesis
    using True assms(1) ok p rw by (simp add: tty_line_append_char_def l'_def)
next
  case False
  then have "pending l = []"
    by (simp add: pending_def word_less_nat_alt)
  then show ?thesis
    using False assms by (simp add: tty_line_append_char_def same_waiters_def)
qed

lemma compacted_ok:
  assumes "line_ok l"
  shows "line_ok (compacted l)" "pending (compacted l) = pending l"
proof -
  have le: "read_pos l \<le> write_pos l" "tl_length l = write_pos l" "write_pos l \<le> tl_capacity l"
    using assms by (simp_all add: line_ok_def)
  have u: "unat (write_pos l - read_pos l) = unat (write_pos l) - unat (read_pos l)"
    using le(1) by (simp add: unat_diff_le word_le_nat_alt)
  show "line_ok (compacted l)"
    using assms le u by (auto simp: line_ok_def compacted_def word_le_nat_alt)
  show "pending (compacted l) = pending l"
    using le u by (intro nth_equalityI) (auto simp: pending_def compacted_def add.commute)
qed

lemma getc_ok:
  assumes "tty_lines s = Some l" "line_ok l" "pending l = c # cs"
  shows "\<exists>s' l'. tty_getc vma_byte now obs s = kret (Now (sint c), s') \<and> tty_lines s' = Some l' \<and> line_ok l' \<and> pending l' = cs"
proof -
  define l' where "l' = l \<lparr> read_pos := read_pos l + 1 \<rparr>"
  have av: "tl_length l - read_pos l \<noteq> 0"
    using pending_empty [OF assms(2)] assms(3) by simp
  have lt: "unat (read_pos l) < unat (write_pos l)"
    using assms(3) by (cases "unat (read_pos l) < unat (write_pos l)") (simp_all add: pending_def)
  then have "Suc (unat (read_pos l)) < 4294967296"
    using unat_u32_less [of "write_pos l"] by linarith
  then have rp: "unat (read_pos l + 1) = Suc (unat (read_pos l))"
    by (simp add: unat_word_ariths)
  have "pending l = tl_bytes l (unat (read_pos l)) # pending l'"
    using lt by (simp add: pending_def l'_def rp upt_conv_Cons)
  then have p: "tl_bytes l (unat (read_pos l)) = c" "pending l' = cs"
    using assms(3) by simp_all
  have "line_ok l'"
    using assms(2) lt rp by (simp add: line_ok_def l'_def word_le_nat_alt)
  then show ?thesis
    using assms(1) av p
    by (simp add: tty_getc_def getc_after_def tty_wait_chars_available_def tty_line_read_chars_available_def getc_rest_def l'_def)
qed

lemma newline_appends:
  assumes "tty_lines s = Some l" "line_ok l" "unat (tl_capacity l) < 2 ^ 31" "nd \<noteq> 0" "display_ok dev s q"
  shows "\<exists>s1 l1. tty_line_newline dev (Some (nd, mem)) s = krun_bind (tty_notify_chars_available s1) (\<lambda>s. kret (0, s))
    \<and> tty_lines s1 = Some l1 \<and> line_ok l1 \<and> pending l1 = pending l @ [10] \<and> same_waiters s s1"
proof -
  obtain s1 l1 where a: "tty_line_append_char dev (Some (nd, mem)) 10 s = kret (0, s1)" "tty_lines s1 = Some l1" "line_ok l1"
    "pending l1 = pending l @ [10]" "same_waiters s s1"
    using append_ok [OF assms, of 10 mem] by auto
  have "tty_line_newline dev (Some (nd, mem)) s =
      krun_bind (tty_notify_chars_available (s1 \<lparr> tty_lines := Some (compacted l1) \<rparr>)) (\<lambda>s. kret (0, s))"
    using a(1,2) by (simp add: tty_line_newline_def tty_compact_buffer_def)
  moreover have "same_waiters s (s1 \<lparr> tty_lines := Some (compacted l1) \<rparr>)"
    using a(5) by (simp add: same_waiters_def)
  ultimately show ?thesis
    using a(4) compacted_ok [OF a(3)]
    by (intro exI [of _ "s1 \<lparr> tty_lines := Some (compacted l1) \<rparr>"] exI [of _ "compacted l1"]) simp
qed

lemma newline_ok:
  assumes "tty_lines s = Some l" "line_ok l" "unat (tl_capacity l) < 2 ^ 31" "nd \<noteq> 0" "display_ok dev s q" "observers s = None"
  shows "\<exists>s' l'. tty_line_newline dev (Some (nd, mem)) s = kret (0, s') \<and> tty_lines s' = Some l' \<and> line_ok l'
    \<and> pending l' = pending l @ [10]"
proof -
  obtain s1 l1 where n: "tty_line_newline dev (Some (nd, mem)) s = krun_bind (tty_notify_chars_available s1) (\<lambda>s. kret (0, s))"
    "tty_lines s1 = Some l1" "line_ok l1" "pending l1 = pending l @ [10]" "same_waiters s s1"
    using newline_appends [OF assms(1-5), of mem] by blast
  have "observers s1 = None"
    using n(5) assms(6) by (simp add: same_waiters_def)
  then show ?thesis
    using n by (simp add: tty_notify_chars_available_def notify_from.simps)
qed

text \<open>Keys with the answers of \<open>krealloc\<close> that each of them may need, and the text they mean.\<close>

fun send_keys :: "device \<Rightarrow> (tty_key_event \<times> grown) list \<Rightarrow> tty \<Rightarrow> tty krun" where
  "send_keys dev [] s = kret s"
| "send_keys dev ((event, r) # ks) s = krun_bind (tty_send_key_event dev r event s) (send_keys dev ks)"

definition edit :: "u8 list \<Rightarrow> u8 \<Rightarrow> u8 list" where
  "edit xs c = (if c = 8 then butlast xs else xs @ [c])"

definition pressed :: "tty_key_event \<Rightarrow> bool" where
  "pressed event \<longleftrightarrow> event_type event = tty_key_down \<and> (mod_keys event = 0 \<or> mod_keys event = tty_mod_shift)"

definition grows :: "grown \<Rightarrow> bool" where
  "grows r \<longleftrightarrow> (case r of None \<Rightarrow> False | Some (nd, mem) \<Rightarrow> nd \<noteq> 0)"

definition displays :: "device \<Rightarrow> tty \<Rightarrow> bool" where
  "displays dev s \<longleftrightarrow> (\<exists>q. display_ok dev s q)"

lemma displaysI: "display_ok dev s q \<Longrightarrow> displays dev s"
  unfolding displays_def by blast

definition typing :: "device \<Rightarrow> nat \<Rightarrow> u8 list \<Rightarrow> tty \<Rightarrow> bool" where
  "typing dev n xs s \<longleftrightarrow> (\<exists>l. tty_lines s = Some l \<and> line_ok l \<and> pending l = xs \<and> read_pos l = 0
     \<and> unat (tl_capacity l) \<le> 2 * n \<and> unat (write_pos l) \<le> n \<and> displays dev s \<and> observers s = None)"

lemma typing_key:
  assumes "typing dev n xs s" "n < 2 ^ 30" "pressed event" "grows r" "character event \<noteq> 10"
  shows "\<exists>s'. tty_send_key_event dev r event s = kret s' \<and> typing dev (Suc n) (edit xs (character event)) s'"
proof -
  obtain l q where l: "tty_lines s = Some l" "line_ok l" "pending l = xs" "read_pos l = 0" "unat (tl_capacity l) \<le> 2 * n"
    "unat (write_pos l) \<le> n" "display_ok dev s q" "observers s = None"
    using assms(1) unfolding typing_def displays_def by blast
  obtain nd mem where r: "r = Some (nd, mem)" "nd \<noteq> 0"
    using assms(4) by (auto simp: grows_def split: option.splits)
  have send: "tty_send_key_event dev r event s = krun_bind (tty_line_append_char dev r (character event) s) (\<lambda>(_, s). kret s)"
    using assms(3,5) by (simp add: tty_send_key_event_def pressed_def TTY_NEW_LINE_CHAR_def)
  show ?thesis
  proof (cases "character event = 8")
    case True
    then obtain s' l' where b: "tty_line_append_char dev r 8 s = kret (0, s')" "tty_lines s' = Some l'" "line_ok l'"
      "pending l' = butlast (pending l)" "same_waiters s s'" "display_ok dev s' (if pending l = [] then q else teletype q 8)"
      "read_pos l' = 0" "tl_capacity l' = tl_capacity l" "unat (write_pos l') \<le> unat (write_pos l)"
      using backspace_ok [OF l(1,2,7), of r] l(4) by auto
    then show ?thesis
      using l True displaysI [OF b(6)] by (simp add: send typing_def edit_def same_waiters_def)
  next
    case False
    have "unat (tl_capacity l) < 2 ^ 31"
      using l(5) assms(2) by simp
    then obtain s' l' where a: "tty_line_append_char dev r (character event) s = kret (0, s')" "tty_lines s' = Some l'" "line_ok l'"
      "pending l' = pending l @ [character event]" "same_waiters s s'" "display_ok dev s' (teletype q (character event))"
      "read_pos l' = 0" "unat (tl_capacity l') \<le> max (unat (tl_capacity l)) (2 * unat (write_pos l) + 1)"
      "unat (write_pos l') = Suc (unat (write_pos l))"
      using append_ok [OF l(1,2) _ r(2) l(7) False, of mem] l(4) unfolding r(1) by auto
    then have "unat (tl_capacity l') \<le> 2 * Suc n"
      using l(5,6) by simp
    then show ?thesis
      using a l False displaysI [OF a(6)] by (simp add: send typing_def edit_def same_waiters_def)
  qed
qed

lemma typing_keys:
  assumes "typing dev n xs s" "n + length ks < 2 ^ 30" "list_all (\<lambda>(e, r). pressed e \<and> grows r \<and> character e \<noteq> 10) ks"
  shows "\<exists>s'. send_keys dev ks s = kret s' \<and> typing dev (n + length ks) (foldl edit xs (map (character \<circ> fst) ks)) s'"
  using assms
proof (induction ks arbitrary: n xs s)
  case (Cons k ks)
  obtain e r where k: "k = (e, r)"
    by (cases k)
  obtain s1 where "tty_send_key_event dev r e s = kret s1" "typing dev (Suc n) (edit xs (character e)) s1"
    using typing_key [of dev n xs s e r] Cons.prems by (auto simp: k)
  then show ?case
    using Cons.IH [of "Suc n" "edit xs (character e)" s1] Cons.prems by (auto simp: k)
qed simp

lemma gets_line:
  assumes "tty_lines s = Some l" "line_ok l" "pending l = xs @ 10 # ys" "10 \<notin> set xs" "list_all (\<lambda>c. 0 \<le> sint c) xs"
    "length xs < n" "c \<noteq> 10"
  shows "\<exists>s'. gets_loop vma_byte now obs n c acc s = kret (Read (int (length acc + length xs + 1)) (acc @ xs @ [10]), s')"
  using assms
proof (induction xs arbitrary: s l n c acc)
  case Nil
  obtain s' where g: "tty_getc vma_byte now obs s = kret (Now (sint (10 :: u8)), s')"
    using getc_ok [OF Nil(1,2), of 10 ys vma_byte now obs] Nil(3) by auto
  obtain m where "n = Suc m"
    using Nil by (cases n) auto
  then show ?case
    using g Nil by (cases m) (simp_all add: TTY_NEW_LINE_CHAR_def)
next
  case (Cons x xs)
  obtain s' l' where g: "tty_getc vma_byte now obs s = kret (Now (sint x), s')" "tty_lines s' = Some l'" "line_ok l'"
    "pending l' = xs @ 10 # ys"
    using getc_ok [OF Cons.prems(1,2), of x "xs @ 10 # ys" vma_byte now obs] Cons.prems(3) by auto
  obtain m where m: "n = Suc m"
    using Cons.prems(6) by (cases n) auto
  have "\<exists>s''. gets_loop vma_byte now obs m x (acc @ [x]) s' =
      kret (Read (int (length (acc @ [x]) + length xs + 1)) ((acc @ [x]) @ xs @ [10]), s'')"
    using Cons.prems m by (intro Cons.IH [OF g(2-4)]) auto
  then show ?case
    using g(1) Cons.prems(5,7) m by (simp add: TTY_NEW_LINE_CHAR_def Let_def)
qed

lemma send_keys_append:
  "send_keys dev ks s = kret s' \<Longrightarrow> send_keys dev (ks @ ks') s = send_keys dev ks' s'"
  by (induction dev ks s rule: send_keys.induct) (auto elim!: krun_bind_kretE)

lemma set_edit: "set (foldl edit xs cs) \<subseteq> set xs \<union> set cs"
proof (induction cs arbitrary: xs)
  case (Cons c cs)
  have "set (edit xs c) \<subseteq> insert c (set xs)"
    by (auto simp: edit_def dest: in_set_butlastD)
  then show ?case
    using Cons.IH [of "edit xs c"] by auto
qed simp

lemma init_typing:
  assumes "tty_init p s0 = Inr s" "display_ok dev s0 q"
  shows "typing dev 0 [] s"
proof -
  have "display_ok dev s q"
    using assms by (auto simp: tty_init_def tty_line_alloc_def split: if_splits)
  then show ?thesis
    using assms(1) by (auto simp: tty_init_def tty_line_alloc_def typing_def line_ok_def pending_def dest: displaysI split: if_splits)
qed

lemma typing_newline:
  assumes "typing dev n xs s" "n < 2 ^ 30" "grows r"
  shows "\<exists>s' l. tty_line_newline dev r s = kret (0, s') \<and> tty_lines s' = Some l \<and> line_ok l \<and> pending l = xs @ [10]"
proof -
  obtain l q where l: "tty_lines s = Some l" "line_ok l" "pending l = xs" "unat (tl_capacity l) \<le> 2 * n"
    "display_ok dev s q" "observers s = None"
    using assms(1) unfolding typing_def displays_def by blast
  obtain nd mem where r: "r = Some (nd, mem)" "nd \<noteq> 0"
    using assms(3) by (auto simp: grows_def split: option.splits)
  have "unat (tl_capacity l) < 2 ^ 31"
    using l(4) assms(2) by simp
  then show ?thesis
    using newline_ok [OF l(1,2) _ r(2) l(5,6), of mem] l(3) r(1) by auto
qed

text \<open>
  On a fresh console, typing any keys, with backspaces, and then the newline, and reading a line gives exactly the text that the keys mean after
  editing, with its newline, however often the line had to grow; the number of characters is the result.
\<close>

theorem tty_gets_typed_line:
  assumes "tty_init p s0 = Inr s" "display_ok dev s0 q" "length ks < 2 ^ 30"
    "list_all (\<lambda>(e, r). pressed e \<and> grows r \<and> character e \<noteq> 10) ks" "pressed e" "grows r" "character e = 10"
    "typed = foldl edit [] (map (character \<circ> fst) ks)" "list_all (\<lambda>c. 0 \<le> sint c) typed" "length typed < unat maxlength"
  shows "\<exists>s1 s2. send_keys dev (ks @ [(e, r)]) s = kret s1
    \<and> tty_gets vma_byte now obs maxlength s1 = kret (Read (1 + int (length typed)) (typed @ [10]), s2)"
proof -
  obtain s1 where k: "send_keys dev ks s = kret s1" "typing dev (length ks) typed s1"
    using typing_keys [OF init_typing [OF assms(1,2)], of ks] assms(3,4,8) by auto
  obtain s2 l2 where n: "tty_line_newline dev r s1 = kret (0, s2)" "tty_lines s2 = Some l2" "line_ok l2" "pending l2 = typed @ [10]"
    using typing_newline [OF k(2) assms(3,6)] by auto
  have send: "send_keys dev (ks @ [(e, r)]) s = kret s2"
    using send_keys_append [OF k(1)] n(1) assms(5,7) by (simp add: tty_send_key_event_def pressed_def TTY_NEW_LINE_CHAR_def)
  have "10 \<notin> set (map (character \<circ> fst) ks)"
    using assms(4) by (auto simp: list_all_iff)
  then have "10 \<notin> set typed"
    using set_edit [of "[]" "map (character \<circ> fst) ks"] unfolding assms(8) by auto
  then have "\<exists>s3. gets_loop vma_byte now obs (unat maxlength) 0 [] s2 = kret (Read (1 + int (length typed)) (typed @ [10]), s3)"
    using gets_line [OF n(2,3), of typed "[]" "unat maxlength" 0 vma_byte now obs "[]"] n(4) assms(9,10) by simp
  then show ?thesis
    using send by (simp add: tty_gets_def)
qed

definition demo_key :: "u8 \<Rightarrow> tty_key_event \<times> grown" where
  "demo_key c = (\<lparr> event_type = tty_key_down, character = c, mod_keys = 0 \<rparr>, Some (0xC0400000, \<lambda>_. 0xff))"

definition demo_tty :: tty where
  "demo_tty = terminal.extend (terminal_initialize demo_terminal)
     (tty.fields None None (\<lambda>_. None) (\<lambda>_. None) demo_sched)"

lemma demo_tty_display: "display_ok (\<lambda>_ _. 0x20) demo_tty ([], [])"
  using initialize_shows [of demo_terminal]
  by (simp add: display_ok_def demo_tty_def shows_paper_def entries_show_def entry_at_def terminal.defs
      serial_ok_def eventually_ready_def) (simp add: demo_terminal_def VGA_PORT_3D4_def VGA_DATA_3D5_def)

theorem tty_gets_typed_line_witness:
  "\<exists>s s1 s2. tty_init 0xC0300000 demo_tty = Inr s
     \<and> send_keys (\<lambda>_ _. 0x20) (map demo_key [104, 105, 8, 111] @ [demo_key 10]) s = kret s1
     \<and> tty_gets 0 0 0 80 s1 = kret (Read 3 [104, 111, 10], s2)"
proof -
  obtain s where i: "tty_init 0xC0300000 demo_tty = Inr s"
    by (simp add: tty_init_def tty_line_alloc_def)
  have "\<exists>s1 s2. send_keys (\<lambda>_ _. 0x20) (map demo_key [104, 105, 8, 111] @ [(fst (demo_key 10), snd (demo_key 10))]) s = kret s1
    \<and> tty_gets 0 0 0 80 s1 = kret (Read (1 + int (length [104 :: u8, 111])) ([104, 111] @ [10]), s2)"
    by (rule tty_gets_typed_line [OF i demo_tty_display]) (simp_all add: demo_key_def pressed_def grows_def edit_def)
  then show ?thesis
    using i by auto
qed

section \<open>A line wakes its readers\<close>

lemma only_freed_sched:
  assumes "only_freed k k'"
  shows "sched_inv k' rs bs = sched_inv k rs bs" "lockable k' = lockable k"
proof -
  obtain fs where "k' = k \<lparr> kfreed := fs \<rparr>"
    using assms by (auto simp: only_freed_def)
  then show "sched_inv k' rs bs = sched_inv k rs bs" "lockable k' = lockable k"
    by (cases "cur_thread k"; simp add: sched_inv_def queues_def states_ok_def lockable_def current_thread_id_def)+
qed

lemma make_runnable_inv:
  assumes "sched_inv k rs bs" "lockable k" "t \<in> set bs"
  shows "\<exists>k'. scheduler_make_runnable t k = kret k' \<and> sched_inv k' (rs @ [t]) (remove1 t bs) \<and> lockable k'"
proof -
  obtain k' where k': "scheduler_make_runnable t k = kret k'"
    "moved k ((threads k)(t := (threads k t) \<lparr> t_state := thread_runnable, time_slice := TIME_SLICE \<rparr>)) (rs @ [t]) (remove1 t bs) k'"
    using make_runnable_spec [OF assms] by blast
  have d: "distinct bs" "states_ok k rs bs"
    using assms(1) queues_heads(6) by (auto simp: sched_inv_def)
  then have "states_ok k' (rs @ [t]) (remove1 t bs)"
    using k'(2) by (intro states_ok_upd [OF d(2)]) (auto simp: moved_def)
  moreover have "lockable k'"
    using assms(2) k'(2)
    by (cases "cur_thread k") (auto simp: moved_def same_rest_def lockable_def current_thread_id_def)
  ultimately show ?thesis
    using k' by (auto simp: moved_def sched_inv_def)
qed

lemma notify_wakes:
  assumes "lst (o_next s) h os" "\<And>e. e \<in> set os \<Longrightarrow> o_thread s e = Some (w e)" "distinct (map w os)"
    "set (map w os) \<subseteq> set bs" "sched_inv (ts s) rs bs" "lockable (ts s)"
  shows "\<exists>k. notify_from h s = kret (s \<lparr> ts := k \<rparr>) \<and> sched_inv k (rs @ map w os) (filter (\<lambda>t. t \<notin> set (map w os)) bs)"
  using assms
proof (induction os arbitrary: s h rs bs)
  case Nil
  then show ?case
    by (intro exI [of _ "ts s"]) (simp add: notify_from.simps)
next
  case (Cons e os)
  have h: "h = Some e" "lst (o_next s) (o_next s e) os" "o_thread s e = Some (w e)"
    using Cons.prems(1,2) by (auto split: option.splits)
  obtain k where k: "scheduler_make_runnable (w e) (ts s) = kret k" "sched_inv k (rs @ [w e]) (remove1 (w e) bs)" "lockable k"
    using make_runnable_inv [OF Cons.prems(5,6), of "w e"] Cons.prems(4) by auto
  have "distinct bs"
    using Cons.prems(5) queues_heads(6) by (auto simp: sched_inv_def)
  then have r: "remove1 (w e) bs = filter (\<lambda>t. t \<noteq> w e) bs"
    by (simp add: distinct_remove1_removeAll removeAll_filter_not_eq eq_commute)
  have sub: "set (map w os) \<subseteq> set (remove1 (w e) bs)"
    using Cons.prems(3,4) by (auto simp: r) (metis imageI)
  obtain k' where "notify_from (o_next s e) (s \<lparr> ts := k \<rparr>) = kret (s \<lparr> ts := k' \<rparr>)"
    "sched_inv k' ((rs @ [w e]) @ map w os) (filter (\<lambda>t. t \<notin> set (map w os)) (remove1 (w e) bs))"
    using Cons.IH [of "s \<lparr> ts := k \<rparr>" "o_next s e" "remove1 (w e) bs" "rs @ [w e]"] h Cons.prems(2,3) sub k(2,3) by auto
  then show ?case
    using h(1,3) k(1) by (subst notify_from.simps) (auto simp: r kret_def conj_commute)
qed

text \<open>
  A newline makes every thread that waits for characters runnable: the readers leave the blocked threads and
  join the run queue, each once and in the order of the list of observers, and the line they find has the newline at its end.
\<close>

theorem tty_newline_wakes_readers:
  assumes "tty_lines s = Some l" "line_ok l" "unat (tl_capacity l) < 2 ^ 31" "nd \<noteq> 0" "display_ok dev s q"
    "lst (o_next s) (observers s) os" "\<And>e. e \<in> set os \<Longrightarrow> o_thread s e = Some (w e)" "distinct (map w os)"
    "set (map w os) \<subseteq> set bs" "sched_inv (ts s) rs bs" "lockable (ts s)"
  shows "\<exists>s' l'. tty_line_newline dev (Some (nd, mem)) s = kret (0, s')
    \<and> sched_inv (ts s') (rs @ map w os) (filter (\<lambda>t. t \<notin> set (map w os)) bs)
    \<and> tty_lines s' = Some l' \<and> pending l' = pending l @ [10]"
proof -
  obtain s1 l1 where n: "tty_line_newline dev (Some (nd, mem)) s = krun_bind (tty_notify_chars_available s1) (\<lambda>s. kret (0, s))"
    "tty_lines s1 = Some l1" "pending l1 = pending l @ [10]" "same_waiters s s1"
    using newline_appends [OF assms(1-5), of mem] by blast
  have w: "o_next s1 = o_next s" "observers s1 = observers s" "o_thread s1 = o_thread s" "only_freed (ts s) (ts s1)"
    using n(4) by (simp_all add: same_waiters_def)
  obtain k where "notify_from (observers s) s1 = kret (s1 \<lparr> ts := k \<rparr>)"
    "sched_inv k (rs @ map w os) (filter (\<lambda>t. t \<notin> set (map w os)) bs)"
    using notify_wakes [of s1 "observers s" os w bs rs] assms(6-11) w only_freed_sched [OF w(4)] by auto
  then show ?thesis
    using n w(2) by (auto simp: tty_notify_chars_available_def)
qed

text \<open>A reader, thread 3, blocked on an empty line.\<close>

theorem tty_newline_wakes_readers_witness:
  "\<exists>s l. tty_line_newline (\<lambda>_ _. 0x20) (Some (0xC0400000, \<lambda>_. 0))
       (demo_tty \<lparr> tty_lines := Some \<lparr> tl_data = 0, tl_bytes = (\<lambda>_. 0), tl_capacity = 0, tl_length = 0, read_pos = 0, write_pos = 0 \<rparr>,
          observers := Some 0xC0500000, o_thread := (\<lambda>_. Some 3) \<rparr>) = kret (0, s)
     \<and> sched_inv (ts s) [1, 2, 3] [] \<and> tty_lines s = Some l \<and> pending l = [10]"
proof -
  let ?l = "\<lparr> tl_data = 0, tl_bytes = (\<lambda>_. 0), tl_capacity = 0, tl_length = 0, read_pos = 0, write_pos = 0 \<rparr>"
  let ?s = "demo_tty \<lparr> tty_lines := Some ?l, observers := Some 0xC0500000, o_thread := (\<lambda>_. Some 3) \<rparr>"
  have "display_ok (\<lambda>_ _. 0x20) ?s ([], [])"
    using demo_tty_display by (simp add: display_ok_def shows_paper_def entries_show_def entry_at_def)
  moreover have "ts ?s = demo_sched" "lst (o_next ?s) (observers ?s) [0xC0500000]"
    by (simp_all add: demo_tty_def tty.defs terminal.defs)
  ultimately show ?thesis
    using tty_newline_wakes_readers [of ?s ?l "0xC0400000" "\<lambda>_ _. 0x20" "([], [])" "[0xC0500000]" "\<lambda>_. 3" "[3]" "[1, 2]" "\<lambda>_. 0"]
      demo_sched_inv demo_sched_lockable
    by (simp add: line_ok_def pending_def)
qed

end
