(* ===== verification/Pic.thy ===== *)
theory Pic
  imports Ports
begin

text \<open>
  The interrupt controllers, ia32/pic.c.  A shift by 32 or more has no defined value in C; the operation is then
  \<open>None\<close>.
\<close>

section \<open>Operations\<close>

datatype pic = pic1 | pic2

definition PIC1 :: u16 where "PIC1 = 0x20"
definition PIC2 :: u16 where "PIC2 = 0xa0"
definition PIC1_DATA :: u16 where "PIC1_DATA = PIC1 + 1"
definition PIC2_DATA :: u16 where "PIC2_DATA = PIC2 + 1"
definition PIC_EOI :: u8 where "PIC_EOI = 0x20"
definition PIC_MAX_IRQS :: u8 where "PIC_MAX_IRQS = 8"
definition PIC_IRQ1_BASE :: u8 where "PIC_IRQ1_BASE = 0x20"
definition PIC_IRQ2_BASE :: u8 where "PIC_IRQ2_BASE = 0x28"
definition ICW1_ICW4_NEEDED :: u8 where "ICW1_ICW4_NEEDED = 1"
definition ICW1_ICW1 :: u8 where "ICW1_ICW1 = 0x10"
definition ICW4_8086_MODE :: u8 where "ICW4_8086_MODE = 1"

lemmas pic_consts = PIC1_def PIC2_def PIC1_DATA_def PIC2_DATA_def PIC_EOI_def PIC_MAX_IRQS_def PIC_IRQ1_BASE_def
  PIC_IRQ2_BASE_def ICW1_ICW4_NEEDED_def ICW1_ICW1_def ICW4_8086_MODE_def

definition pic_irq_for_interrupt :: "u8 \<Rightarrow> u8" where
  "pic_irq_for_interrupt int_no =
     (let result = int_no - PIC_IRQ1_BASE
      in if result \<ge> PIC_MAX_IRQS then int_no - PIC_IRQ2_BASE + PIC_MAX_IRQS else result)"

definition pic_interrupt_for_irq :: "u8 \<Rightarrow> u8" where
  "pic_interrupt_for_irq irq =
     (if irq < PIC_MAX_IRQS then irq + PIC_IRQ1_BASE else irq - PIC_MAX_IRQS + PIC_IRQ2_BASE)"

text \<open>The bases are unsigned int arguments, of which \<open>outb\<close> takes the low byte.\<close>

definition pic_map_irqs :: "device \<Rightarrow> u32 \<Rightarrow> u32 \<Rightarrow> io \<Rightarrow> io" where
  "pic_map_irqs dev irq_base_1 irq_base_2 t =
     (let (mask_1, t) = inb dev PIC1_DATA t;
          (mask_2, t) = inb dev PIC2_DATA t;
          t = io_wait (outb PIC1 (ICW1_ICW1 OR ICW1_ICW4_NEEDED) t);
          t = io_wait (outb PIC2 (ICW1_ICW1 OR ICW1_ICW4_NEEDED) t);
          t = io_wait (outb PIC1_DATA (ucast irq_base_1) t);
          t = io_wait (outb PIC2_DATA (ucast irq_base_2) t);
          t = io_wait (outb PIC1_DATA 4 t);
          t = io_wait (outb PIC2_DATA 2 t);
          t = io_wait (outb PIC1_DATA ICW4_8086_MODE t);
          t = io_wait (outb PIC2_DATA ICW4_8086_MODE t);
          t = io_wait (outb PIC1_DATA mask_1 t)
      in io_wait (outb PIC2_DATA mask_2 t))"

definition pic_mask_all :: "io \<Rightarrow> io" where
  "pic_mask_all t = outb PIC2_DATA 0xff (outb PIC1_DATA 0xff t)"

definition pic_unmask_all :: "io \<Rightarrow> io" where
  "pic_unmask_all t = outb PIC2_DATA 0 (outb PIC1_DATA 0 t)"

definition pic_init :: "device \<Rightarrow> io \<Rightarrow> io" where
  "pic_init dev t = pic_unmask_all (pic_map_irqs dev (ucast PIC_IRQ1_BASE) (ucast PIC_IRQ2_BASE) t)"

definition pic_eoi :: "u8 \<Rightarrow> io \<Rightarrow> io" where
  "pic_eoi irq t = outb PIC1 PIC_EOI (if irq \<ge> PIC_MAX_IRQS then outb PIC2 PIC_EOI t else t)"

definition pic_data_port :: "pic \<Rightarrow> u16" where
  "pic_data_port p = (case p of pic1 \<Rightarrow> PIC1_DATA | pic2 \<Rightarrow> PIC2_DATA)"

text \<open>The second result is what the argument points to afterwards.\<close>

definition pic_data_port_and_irq :: "u8 \<Rightarrow> u16 \<times> u8" where
  "pic_data_port_and_irq irq = (if irq < PIC_MAX_IRQS then (PIC1_DATA, irq) else (PIC2_DATA, irq - PIC_MAX_IRQS))"

definition pic_get_mask :: "device \<Rightarrow> pic \<Rightarrow> io \<Rightarrow> u8 \<times> io" where
  "pic_get_mask dev p t = inb dev (pic_data_port p) t"

definition pic_set_mask :: "pic \<Rightarrow> u8 \<Rightarrow> io \<Rightarrow> io" where
  "pic_set_mask p value t = io_wait (outb (pic_data_port p) value t)"

definition pic_mask :: "device \<Rightarrow> u8 \<Rightarrow> io \<Rightarrow> io option" where
  "pic_mask dev irq t =
     (let (port, pic_local_irq) = pic_data_port_and_irq irq;
          (value, t) = inb dev port t
      in if pic_local_irq < 32
         then Some (io_wait (outb port (ucast ((ucast value :: u32) OR push_bit (unat pic_local_irq) 1)) t))
         else None)"

definition pic_unmask :: "device \<Rightarrow> u8 \<Rightarrow> io \<Rightarrow> io option" where
  "pic_unmask dev irq t =
     (let (port, irq) = pic_data_port_and_irq irq;
          (value, t) = inb dev port t
      in if irq < 32
         then Some (io_wait (outb port (ucast ((ucast value :: u32) AND NOT (push_bit (unat irq) 1))) t))
         else None)"

section \<open>Numbers\<close>

text \<open>
  The numbers of the lines and the vectors of their interrupts translate into each other without loss for every
  byte, and the sixteen lines have the vectors from the first base on, in order.
\<close>

theorem pic_irq_round_trip:
  "pic_irq_for_interrupt (pic_interrupt_for_irq n) = n \<and> pic_interrupt_for_irq (pic_irq_for_interrupt n) = n
   \<and> pic_interrupt_for_irq n = PIC_IRQ1_BASE + n"
  by (simp add: pic_irq_for_interrupt_def pic_interrupt_for_irq_def pic_consts Let_def)

section \<open>Masks\<close>

text \<open>
  The calls that change the masks, and the set of masked lines they mean.
\<close>

datatype mask_call = Mask u8 | Unmask u8 | Mask_all | Unmask_all | Eoi u8

fun do_call :: "device \<Rightarrow> mask_call \<Rightarrow> io \<Rightarrow> io option" where
  "do_call dev (Mask irq) t = pic_mask dev irq t"
| "do_call dev (Unmask irq) t = pic_unmask dev irq t"
| "do_call dev Mask_all t = Some (pic_mask_all t)"
| "do_call dev Unmask_all t = Some (pic_unmask_all t)"
| "do_call dev (Eoi irq) t = Some (pic_eoi irq t)"

fun do_calls :: "device \<Rightarrow> mask_call list \<Rightarrow> io \<Rightarrow> io option" where
  "do_calls dev [] t = Some t"
| "do_calls dev (c # cs) t = Option.bind (do_call dev c t) (do_calls dev cs)"

fun line_of :: "mask_call \<Rightarrow> u8" where
  "line_of (Mask irq) = irq"
| "line_of (Unmask irq) = irq"
| "line_of (Eoi irq) = irq"
| "line_of _ = 0"

fun masks_after :: "u8 set \<Rightarrow> mask_call \<Rightarrow> u8 set" where
  "masks_after M (Mask irq) = insert irq M"
| "masks_after M (Unmask irq) = M - {irq}"
| "masks_after M Mask_all = {..<16}"
| "masks_after M Unmask_all = {}"
| "masks_after M (Eoi irq) = M"

text \<open>The masks are the bytes last written to the data ports.\<close>

definition masked :: "io \<Rightarrow> u8 set" where
  "masked t = {irq. irq < 16 \<and> bit (last (written (fst (pic_data_port_and_irq irq)) t)) (unat irq mod 8)}"

text \<open>What the data sheet of the controller says of a read from a data port, once it is initialised: the mask.\<close>

definition mask_device :: "device \<Rightarrow> io \<Rightarrow> bool" where
  "mask_device dev t0 \<longleftrightarrow>
     (\<forall>t. \<forall>port \<in> {PIC1_DATA, PIC2_DATA}. dev (t @ t0) port = last (written port (t @ t0)))"

definition extends :: "io \<Rightarrow> io \<Rightarrow> bool" where
  "extends t0 t \<longleftrightarrow> (\<exists>u. t = u @ t0)"

lemma extends_simps [simp]:
  "extends t t" "extends t0 t \<Longrightarrow> extends t0 (outb p v t)" "extends t0 t \<Longrightarrow> extends t0 (io_wait t)"
  "extends t0 t \<Longrightarrow> extends t0 (snd (inb dev p t))"
  by (auto simp: extends_def outb_def io_wait_def inb_def intro: exI [of _ "_ # _"])

lemma unat_line: "irq < 16 \<Longrightarrow> unat (irq :: u8) < 16"
  by (simp add: word_less_nat_alt)

lemma data_port_line:
  assumes "irq < 16"
  shows "fst (pic_data_port_and_irq irq) = (if unat irq < 8 then 0x21 else 0xa1)"
    "unat (snd (pic_data_port_and_irq irq)) = unat irq mod 8"
  using unat_line [OF assms]
  by (auto simp: pic_data_port_and_irq_def pic_consts word_less_nat_alt unat_sub_if' not_less le_mod_geq)

lemma masked_line:
  "irq \<in> masked t \<longleftrightarrow> irq < 16 \<and> bit (last (written (if unat irq < 8 then 0x21 else 0xa1) t)) (unat irq mod 8)"
  by (auto simp: masked_def data_port_line)

lemma masked_io_wait [simp]: "masked (io_wait t) = masked t"
  by (simp add: set_eq_iff masked_line)

lemma masked_outb:
  assumes "irq < 16" "\<And>k. k < 8 \<Longrightarrow> bit v k \<longleftrightarrow> (if k = unat irq mod 8 then b else bit (last (written port t)) k)"
    "port = fst (pic_data_port_and_irq irq)"
  shows "masked (outb port v (snd (inb dev port t))) = (if b then insert irq (masked t) else masked t - {irq})"
proof (rule set_eqI)
  fix j :: u8
  have "j = irq \<longleftrightarrow> unat j = unat irq"
    by (simp add: word_unat_eq_iff)
  then show "j \<in> masked (outb port v (snd (inb dev port t))) \<longleftrightarrow>
      j \<in> (if b then insert irq (masked t) else masked t - {irq})"
    using assms unat_line [OF assms(1)] unat_line [of j]
    by (cases "unat irq < 8"; cases "unat j < 8") (auto simp: masked_line data_port_line le_mod_geq)
qed

lemma mask_unmask_line:
  assumes "mask_device dev t0" "extends t0 t" "irq < 16"
  shows "\<exists>t'. pic_mask dev irq t = Some t' \<and> extends t0 t' \<and> masked t' = insert irq (masked t)"
    "\<exists>t'. pic_unmask dev irq t = Some t' \<and> extends t0 t' \<and> masked t' = masked t - {irq}"
proof -
  define port where "port = fst (pic_data_port_and_irq irq)"
  have p: "port \<in> {PIC1_DATA, PIC2_DATA}"
    by (simp add: port_def pic_data_port_and_irq_def)
  have v: "dev t port = last (written port t)"
    using assms p by (auto simp: mask_device_def extends_def)
  have l: "unat (snd (pic_data_port_and_irq irq)) = unat irq mod 8"
    by (rule data_port_line) (rule assms)
  have l32: "snd (pic_data_port_and_irq irq) < 32"
    using l by (simp add: word_less_nat_alt)
  have eqs: "pic_mask dev irq t =
      Some (io_wait (outb port (ucast ((ucast (dev t port) :: u32) OR push_bit (unat irq mod 8) 1)) (snd (inb dev port t))))"
    "pic_unmask dev irq t =
      Some (io_wait (outb port (ucast ((ucast (dev t port) :: u32) AND NOT (push_bit (unat irq mod 8) 1))) (snd (inb dev port t))))"
    using l32 by (simp_all add: pic_mask_def pic_unmask_def l port_def split_beta inb_def)
  show "\<exists>t'. pic_mask dev irq t = Some t' \<and> extends t0 t' \<and> masked t' = insert irq (masked t)"
    unfolding eqs v using masked_outb [OF assms(3) _ port_def, of _ True t dev] assms(2) by (simp add: bit_simps)
  show "\<exists>t'. pic_unmask dev irq t = Some t' \<and> extends t0 t' \<and> masked t' = masked t - {irq}"
    unfolding eqs v using masked_outb [OF assms(3) _ port_def, of _ False t dev] assms(2) by (simp add: bit_simps)
qed

lemma do_call_masks:
  assumes "mask_device dev t0" "extends t0 t" "line_of c < 16"
  shows "\<exists>t'. do_call dev c t = Some t' \<and> extends t0 t' \<and> masked t' = masks_after (masked t) c"
proof (cases c)
  case Mask_all
  then show ?thesis
    using assms by (auto simp: pic_mask_all_def pic_consts masked_line byte_ones bit_simps)
next
  case Unmask_all
  then show ?thesis
    using assms by (simp add: set_eq_iff pic_unmask_all_def pic_consts masked_line)
next
  case (Eoi irq)
  then show ?thesis
    using assms by (auto simp: pic_eoi_def pic_consts masked_line)
qed (use assms mask_unmask_line in auto)

lemma do_calls_masks:
  assumes "mask_device dev t0" "extends t0 t" "list_all (\<lambda>c. line_of c < 16) cs"
  shows "\<exists>t'. do_calls dev cs t = Some t' \<and> masked t' = foldl masks_after (masked t) cs"
  using assms(2,3)
proof (induction cs arbitrary: t)
  case (Cons c cs)
  obtain t1 where "do_call dev c t = Some t1" "extends t0 t1" "masked t1 = masks_after (masked t) c"
    using do_call_masks [OF assms(1) Cons.prems(1), of c] Cons.prems(2) by auto
  then show ?case
    using Cons.IH [of t1] Cons.prems(2) by auto
qed simp

lemma pic_init_masks: "masked (pic_init dev t) = {}"
  by (simp add: set_eq_iff pic_init_def pic_unmask_all_def masked_line pic_consts)

text \<open>
  After the controllers are initialised every line is open, and any sequence of calls that mask and unmask lines, one or
  all of them, with acknowledgements in between, leaves exactly the lines masked that the sequence means: each call changes
  the bit of its own line, at the controller that has it, and no other.
\<close>

theorem pic_masks_refine_set:
  assumes "mask_device dev (pic_init dev t)" "list_all (\<lambda>c. line_of c < 16) cs"
  shows "\<exists>t'. do_calls dev cs (pic_init dev t) = Some t' \<and> masked t' = foldl masks_after {} cs"
  using do_calls_masks [OF assms(1) extends_simps(1) assms(2)] by (simp add: pic_init_masks)

text \<open>A device that answers with the byte last written.\<close>

theorem pic_masks_refine_set_witness:
  "\<exists>t. do_calls (\<lambda>t port. last (written port t)) [Mask 3, Eoi 9, Mask 12, Unmask 3] (pic_init (\<lambda>t port. last (written port t)) []) = Some t
     \<and> masked t = {12}"
  using pic_masks_refine_set [of "\<lambda>t port. last (written port t)" "[]" "[Mask 3, Eoi 9, Mask 12, Unmask 3]"]
  by (simp add: mask_device_def insert_Diff_if)

end
