(* ===== verification/Interrupts.thy ===== *)
theory Interrupts
  imports Sched MemUtils Pic
begin

text \<open>
  Interrupt dispatch, ia32/interrupts.c.  The handlers of each vector are a linked list of structures; the code of a handler
  is reached through its pointer, and what it does is an argument \<open>run\<close> of the operations that call it, which also gives the
  registers that it leaves.  A processor that is halted with interrupts disabled does not go on: \<open>None\<close>.
\<close>

section \<open>State\<close>

record interrupt_handler =
  ih_int_no :: u32
  ih_handler :: u32
  ih_data :: u32

record interrupts =
  handlers :: "u32 \<Rightarrow> u32 option"
  free_handlers :: "u32 option"
  ih_next :: "u32 \<Rightarrow> u32 option"
  ih :: "u32 \<Rightarrow> interrupt_handler"
  interrupt_nesting :: u32
  ilayout :: layout
  isched :: sched

type_synonym 's handler_code = "u32 \<Rightarrow> u32 \<Rightarrow> registers \<Rightarrow> u32 \<Rightarrow> 's \<Rightarrow> (bool \<times> registers \<times> 's) krun"

definition MAX_INTERRUPTS :: u32 where "MAX_INTERRUPTS = 256"

text \<open>The size of the structure, which is the alignment too.\<close>

definition sizeof_handler :: u32 where "sizeof_handler = 16"

definition interrupts_disable :: "'a interrupts_scheme \<Rightarrow> 'a interrupts_scheme" where
  "interrupts_disable s = s \<lparr> isched := (isched s) \<lparr> eflags := eflags (isched s) AND NOT (push_bit (flags_bit flags_if_bit) 1) \<rparr> \<rparr>"

definition interrupts_enable :: "'a interrupts_scheme \<Rightarrow> 'a interrupts_scheme" where
  "interrupts_enable s = s \<lparr> isched := (isched s) \<lparr> eflags := eflags (isched s) OR push_bit (flags_bit flags_if_bit) 1 \<rparr> \<rparr>"

section \<open>Handlers\<close>

definition interrupts_handler_alloc :: "'a interrupts_scheme \<Rightarrow> (u32 \<times> 'a interrupts_scheme) krun" where
  "interrupts_handler_alloc s =
     (case free_handlers s of
        None \<Rightarrow>
          krun_bind (Some (kalloc_static (ilayout s) sizeof_handler sizeof_handler)) (\<lambda>(h, l).
            krun_bind (krun_assert (h \<noteq> 0) ''handler'') (\<lambda>_. kret (h, s \<lparr> ilayout := l \<rparr>)))
      | Some h \<Rightarrow>
          krun_bind (LL_DELETE2 (ih_next s, free_handlers s) h) (\<lambda>(n, hd).
            kret (h, s \<lparr> ih_next := n, free_handlers := hd \<rparr>)))"

definition interrupts_handler_free :: "u32 \<Rightarrow> 'a interrupts_scheme \<Rightarrow> 'a interrupts_scheme krun" where
  "interrupts_handler_free h s =
     krun_bind (LL_PREPEND2 (ih_next s, free_handlers s) h) (\<lambda>(n, hd). kret (s \<lparr> ih_next := n, free_handlers := hd \<rparr>))"

definition interrupts_install_handler :: "u32 \<Rightarrow> u32 \<Rightarrow> u32 \<Rightarrow> 'a interrupts_scheme \<Rightarrow> (u32 \<times> 'a interrupts_scheme) krun" where
  "interrupts_install_handler ino handler_fn data s =
     krun_bind (krun_assert (ino < MAX_INTERRUPTS) ''int_no < MAX_INTERRUPTS'') (\<lambda>_.
     krun_bind (interrupts_handler_alloc s) (\<lambda>(h, s).
       let s = s \<lparr> ih := (ih s)(h := \<lparr> ih_int_no = ino, ih_handler = handler_fn, ih_data = data \<rparr>) \<rparr> in
       krun_bind (LL_PREPEND2 (ih_next s, handlers s ino) h) (\<lambda>(n, hd).
         kret (h, s \<lparr> ih_next := n, handlers := (handlers s)(ino := hd) \<rparr>))))"

definition unlink_handler :: "u32 \<Rightarrow> u32 \<Rightarrow> 'a interrupts_scheme \<Rightarrow> 'a interrupts_scheme krun" where
  "unlink_handler ino h s =
     krun_bind (LL_DELETE2 (ih_next s, handlers s ino) h) (\<lambda>(n, hd).
       kret (s \<lparr> ih_next := n, handlers := (handlers s)(ino := hd) \<rparr>))"

definition interrupts_uninstall_handler :: "u32 \<Rightarrow> 'a interrupts_scheme \<Rightarrow> 'a interrupts_scheme krun" where
  "interrupts_uninstall_handler h s = unlink_handler (ih_int_no (ih s h)) h s"

text \<open>The search of the list for a handler with the function.\<close>

partial_function (option) uninstall_from :: "u32 option \<Rightarrow> u32 \<Rightarrow> u32 \<Rightarrow> 'a interrupts_scheme \<Rightarrow> 'a interrupts_scheme krun" where
  "uninstall_from elt ino handler_fn s =
     (case elt of
        None \<Rightarrow> kret s
      | Some h \<Rightarrow>
          if ih_handler (ih s h) = handler_fn
          then krun_bind (unlink_handler ino h s) (interrupts_handler_free h)
          else uninstall_from (ih_next s h) ino handler_fn s)"

definition interrupts_uninstall_handler_func :: "u32 \<Rightarrow> u32 \<Rightarrow> 'a interrupts_scheme \<Rightarrow> 'a interrupts_scheme krun" where
  "interrupts_uninstall_handler_func ino handler_fn s = uninstall_from (handlers s ino) ino handler_fn s"

section \<open>Dispatch\<close>

partial_function (option) dispatch_from ::
    "'a interrupts_scheme handler_code \<Rightarrow> u32 option \<Rightarrow> u32 \<Rightarrow> registers \<Rightarrow> 'a interrupts_scheme
     \<Rightarrow> (bool \<times> registers \<times> 'a interrupts_scheme) krun" where
  "dispatch_from run elt ino regs s =
     (case elt of
        None \<Rightarrow> kret (False, regs, s)
      | Some h \<Rightarrow>
          (case run (ih_handler (ih s h)) ino regs (ih_data (ih s h)) s of
             None \<Rightarrow> None
           | Some (Inl e) \<Rightarrow> kfail e
           | Some (Inr (result, regs, s)) \<Rightarrow>
               if result then kret (True, regs, s) else dispatch_from run (ih_next s h) ino regs s))"

definition interrupts_dispatch ::
    "'a interrupts_scheme handler_code \<Rightarrow> u32 \<Rightarrow> registers \<Rightarrow> 'a interrupts_scheme \<Rightarrow> (bool \<times> registers \<times> 'a interrupts_scheme) krun" where
  "interrupts_dispatch run ino regs s =
     krun_bind (krun_assert (ino < MAX_INTERRUPTS) ''int_no < MAX_INTERRUPTS'') (\<lambda>_.
       dispatch_from run (handlers s ino) ino regs s)"

definition interrupts_cpu_enter :: "'a interrupts_scheme \<Rightarrow> 'a interrupts_scheme" where
  "interrupts_cpu_enter s = s \<lparr> interrupt_nesting := interrupt_nesting s + 1 \<rparr>"

definition interrupts_cpu_leave :: "'a interrupts_scheme \<Rightarrow> 'a interrupts_scheme" where
  "interrupts_cpu_leave s = s \<lparr> interrupt_nesting := interrupt_nesting s - 1 \<rparr>"

definition interrupts_cpu_in_nested_isr :: "'a interrupts_scheme \<Rightarrow> bool" where
  "interrupts_cpu_in_nested_isr s \<longleftrightarrow> interrupt_nesting s \<noteq> 0"

definition power_halt :: "'b krun" where
  "power_halt = None"

text \<open>The end of the handler, also when the thread is resumed after the yield.\<close>

definition handler_end :: "u8 \<Rightarrow> registers \<Rightarrow> 'a interrupts_scheme \<Rightarrow> (outcome \<times> registers \<times> 'a interrupts_scheme) krun" where
  "handler_end vma_byte regs s =
     (if r_eip regs < ucast vma_byte
      then kfail (Panic (''error: came from weird address'' @ [CHR 0x0A]))
      else kret (Returned, regs, s))"

definition interrupts_handler_resumed :: "u8 \<Rightarrow> u32 \<Rightarrow> registers \<Rightarrow> 'a interrupts_scheme \<Rightarrow> (outcome \<times> registers \<times> 'a interrupts_scheme) krun" where
  "interrupts_handler_resumed vma_byte flags regs s =
     handler_end vma_byte regs (s \<lparr> isched := leave_cli flags (isched s) \<rparr>)"

definition interrupts_handler ::
    "'a interrupts_scheme handler_code \<Rightarrow> u8 \<Rightarrow> u32 \<Rightarrow> registers \<Rightarrow> 'a interrupts_scheme
     \<Rightarrow> (outcome \<times> registers \<times> 'a interrupts_scheme) krun" where
  "interrupts_handler run vma_byte now regs s =
     (let s = (if int_no regs \<noteq> 0x80 then interrupts_cpu_enter s else s) in
      if r_eip regs < ucast vma_byte
      then kfail (Panic (''error: came from weird address 0x%lx'' @ [CHR 0x0A]))
      else
        krun_bind (interrupts_dispatch run (int_no regs) regs (interrupts_enable s)) (\<lambda>(handled, regs, s).
        krun_bind (if \<not> handled then power_halt else kret ()) (\<lambda>_.
          let s = interrupts_disable s;
              s = (if int_no regs \<noteq> 0x80 then interrupts_cpu_leave s else s)
          in if \<not> interrupts_cpu_in_nested_isr s then
               let s = interrupts_enable s in
               krun_bind (scheduler_yield vma_byte now (isched s)) (\<lambda>(r, k).
                 case r of
                   Suspended flags \<Rightarrow> kret (Suspended flags, regs, s \<lparr> isched := k \<rparr>)
                 | Returned \<Rightarrow> handler_end vma_byte regs (s \<lparr> isched := k \<rparr>))
             else handler_end vma_byte regs s)))"

definition interrupts_isr_handler ::
    "'a interrupts_scheme handler_code \<Rightarrow> u8 \<Rightarrow> u32 \<Rightarrow> registers \<Rightarrow> 'a interrupts_scheme
     \<Rightarrow> (outcome \<times> registers \<times> 'a interrupts_scheme) krun" where
  "interrupts_isr_handler run vma_byte now regs s = interrupts_handler run vma_byte now regs s"

text \<open>The acknowledgement comes first; the ports are those at the start of the handler proper.\<close>

definition interrupts_irq_handler ::
    "'a interrupts_scheme handler_code \<Rightarrow> u8 \<Rightarrow> u32 \<Rightarrow> registers \<Rightarrow> io \<Rightarrow> 'a interrupts_scheme
     \<Rightarrow> io \<times> (outcome \<times> registers \<times> 'a interrupts_scheme) krun" where
  "interrupts_irq_handler run vma_byte now regs t s =
     (let irq = pic_irq_for_interrupt (ucast (int_no regs))
      in (pic_eoi irq t, interrupts_handler run vma_byte now regs s))"

section \<open>Handlers in order\<close>

text \<open>The lists of handlers of all the vectors and the free list are disjoint.\<close>

definition handler_lists :: "'a interrupts_scheme \<Rightarrow> (u32 \<Rightarrow> u32 list) \<Rightarrow> u32 list \<Rightarrow> bool" where
  "handler_lists s hs fs \<longleftrightarrow>
     (\<forall>v. lst (ih_next s) (handlers s v) (hs v)) \<and> lst (ih_next s) (free_handlers s) fs
     \<and> (\<forall>v w. v \<noteq> w \<longrightarrow> set (hs v) \<inter> set (hs w) = {}) \<and> (\<forall>v. set (hs v) \<inter> set fs = {})"

text \<open>Code that does not change the handlers.\<close>

definition same_handlers :: "'a interrupts_scheme \<Rightarrow> 'a interrupts_scheme \<Rightarrow> bool" where
  "same_handlers s s' \<longleftrightarrow> handlers s' = handlers s \<and> ih_next s' = ih_next s \<and> ih s' = ih s \<and> free_handlers s' = free_handlers s"

definition steady :: "'a interrupts_scheme handler_code \<Rightarrow> bool" where
  "steady run \<longleftrightarrow> (\<forall>f v regs d s r regs' s'. run f v regs d s = kret (r, regs', s') \<longrightarrow> same_handlers s s')"

text \<open>The handlers called one after the other, until one of them has handled the interrupt.\<close>

fun try_handlers ::
    "'s handler_code \<Rightarrow> (u32 \<times> u32) list \<Rightarrow> u32 \<Rightarrow> registers \<Rightarrow> 's \<Rightarrow> (bool \<times> registers \<times> 's) krun" where
  "try_handlers run [] v regs s = kret (False, regs, s)"
| "try_handlers run ((f, d) # hs) v regs s =
     krun_bind (run f v regs d s) (\<lambda>(r, regs, s). if r then kret (True, regs, s) else try_handlers run hs v regs s)"

definition code_of :: "'a interrupts_scheme \<Rightarrow> u32 \<Rightarrow> u32 \<times> u32" where
  "code_of s h = (ih_handler (ih s h), ih_data (ih s h))"

lemma krun_cases:
  fixes x :: "'b krun"
  obtains "x = None" | e where "x = kfail e" | y where "x = kret y"
  by (cases x; cases "the x") (auto simp: kret_def kfail_def)

lemma dispatch_list:
  assumes "lst (ih_next s) h hs" "steady run"
  shows "dispatch_from run h v regs s = try_handlers run (map (code_of s) hs) v regs s"
  using assms(1)
proof (induction hs arbitrary: h regs s)
  case Nil
  then show ?case
    by (simp add: dispatch_from.simps)
next
  case (Cons x hs)
  show ?case
  proof (cases "run (ih_handler (ih s x)) v regs (ih_data (ih s x)) s" rule: krun_cases)
    case (3 y)
    obtain r regs' s' where y: "y = (r, regs', s')"
      by (cases y)
    have same: "same_handlers s s'"
      using assms(2) 3 unfolding y steady_def by blast
    then have "code_of s' = code_of s"
      by (intro ext) (simp add: same_handlers_def code_of_def)
    moreover have "lst (ih_next s') (ih_next s' x) hs"
      using Cons.prems same by (auto simp: same_handlers_def)
    ultimately show ?thesis
      using Cons.prems Cons.IH [of s' "ih_next s' x" regs'] 3
      by (subst dispatch_from.simps) (simp add: y code_of_def [of s x] kret_def split: option.splits)
  qed (use Cons.prems in \<open>subst dispatch_from.simps, simp add: code_of_def kfail_def\<close>)+
qed

lemma alloc_lists:
  assumes "handler_lists s hs fs" "interrupts_handler_alloc s = kret (h, s1)" "fs = [] \<Longrightarrow> \<forall>w. h \<notin> set (hs w)"
  shows "handler_lists s1 hs (tl fs)" "\<forall>w. h \<notin> set (hs w)" "h \<notin> set (tl fs)" "handlers s1 = handlers s" "ih s1 = ih s"
proof -
  have l: "lst (ih_next s) (free_handlers s) fs"
    using assms(1) by (simp add: handler_lists_def)
  have all: "handler_lists s1 hs (tl fs) \<and> (\<forall>w. h \<notin> set (hs w)) \<and> h \<notin> set (tl fs) \<and> handlers s1 = handlers s \<and> ih s1 = ih s"
  proof (cases fs)
    case Nil
    then show ?thesis
      using assms l
      by (auto simp: interrupts_handler_alloc_def handler_lists_def krun_bind_def kret_def krun_assert_def kfail_def
          split: sum.splits if_splits)
  next
    case (Cons f gs)
    then have "h = f" "s1 = s \<lparr> ih_next := ih_next s, free_handlers := ih_next s f \<rparr>"
      using assms(2) l by (auto simp: interrupts_handler_alloc_def LL_DELETE2_def)
    then show ?thesis
      using assms(1) l lst_distinct [OF l] Cons by (auto simp: handler_lists_def)
  qed
  then show "handler_lists s1 hs (tl fs)" "\<forall>w. h \<notin> set (hs w)" "h \<notin> set (tl fs)" "handlers s1 = handlers s" "ih s1 = ih s"
    by simp_all
qed

lemma install_lists:
  assumes "handler_lists s hs fs" "interrupts_handler_alloc s = kret (h, s1)" "fs = [] \<Longrightarrow> \<forall>w. h \<notin> set (hs w)" "v < 256"
  obtains s' where "interrupts_install_handler v f d s = kret (h, s')" "handler_lists s' (hs(v := h # hs v)) (tl fs)"
    "map (code_of s') (h # hs v) = (f, d) # map (code_of s) (hs v)"
    "s' = s1 \<lparr> ih := (ih s)(h := \<lparr> ih_int_no = v, ih_handler = f, ih_data = d \<rparr>),
        ih_next := (ih_next s1)(h := handlers s v), handlers := (handlers s)(v := Some h) \<rparr>"
proof -
  note a = alloc_lists [OF assms(1-3)]
  define s' where "s' = s1 \<lparr> ih := (ih s)(h := \<lparr> ih_int_no = v, ih_handler = f, ih_data = d \<rparr>),
    ih_next := (ih_next s1)(h := handlers s v), handlers := (handlers s)(v := Some h) \<rparr>"
  have "interrupts_install_handler v f d s = kret (h, s')"
    using assms(2,4) a(4,5) by (simp add: interrupts_install_handler_def MAX_INTERRUPTS_def LL_PREPEND2_def s'_def)
  moreover have "handler_lists s' (hs(v := h # hs v)) (tl fs)"
    using a(1-4) by (auto simp: handler_lists_def s'_def)
  moreover have "map (code_of s') (h # hs v) = (f, d) # map (code_of s) (hs v)"
    using a(2) by (auto simp: code_of_def s'_def)
  ultimately show ?thesis
    using s'_def by (rule that)
qed

lemma dispatch_lists:
  assumes "handler_lists s hs fs" "steady run" "v < 256"
  shows "interrupts_dispatch run v regs s = try_handlers run (map (code_of s) (hs v)) v regs s"
proof -
  have "lst (ih_next s) (handlers s v) (hs v)"
    using assms(1) by (simp add: handler_lists_def)
  then show ?thesis
    using assms(2,3) by (simp add: interrupts_dispatch_def MAX_INTERRUPTS_def dispatch_list)
qed

text \<open>
  A handler that is installed for one of the 256 vectors is called before the handlers that the vector had,
  with its data; they are called in their order and only as long as none has handled the interrupt, and no other vector is concerned.  Uninstalling it
  gives the lists of before.  Another vector number fails the assertion.
\<close>

theorem interrupts_install_first:
  assumes "handler_lists s hs fs" "interrupts_handler_alloc s = kret (h, s1)" "fs = [] \<Longrightarrow> \<forall>w. h \<notin> set (hs w)"
    "steady run"
  shows "if v < 256 then
      \<exists>s' s''. interrupts_install_handler v f d s = kret (h, s') \<and> handler_lists s' (hs(v := h # hs v)) (tl fs)
      \<and> interrupts_dispatch run v regs s' = try_handlers run ((f, d) # map (code_of s) (hs v)) v regs s'
      \<and> interrupts_uninstall_handler h s' = kret s'' \<and> handler_lists s'' hs (tl fs)
    else interrupts_install_handler v f d s = kfail (Assert ''int_no < MAX_INTERRUPTS'')"
proof (cases "v < 256")
  case True
  note a = alloc_lists [OF assms(1-3)]
  obtain s' where inst: "interrupts_install_handler v f d s = kret (h, s')" "handler_lists s' (hs(v := h # hs v)) (tl fs)"
    and codes: "map (code_of s') (h # hs v) = (f, d) # map (code_of s) (hs v)"
    and s': "s' = s1 \<lparr> ih := (ih s)(h := \<lparr> ih_int_no = v, ih_handler = f, ih_data = d \<rparr>),
        ih_next := (ih_next s1)(h := handlers s v), handlers := (handlers s)(v := Some h) \<rparr>"
    by (rule install_lists [OF assms(1-3) True])
  have disp: "interrupts_dispatch run v regs s' = try_handlers run ((f, d) # map (code_of s) (hs v)) v regs s'"
    using dispatch_lists [OF inst(2) assms(4) True, of regs] unfolding codes [symmetric] by (simp only: fun_upd_same)
  define s'' where "s'' = s' \<lparr> ih_next := ih_next s', handlers := (handlers s')(v := handlers s v) \<rparr>"
  have "interrupts_uninstall_handler h s' = kret s''"
    by (simp add: interrupts_uninstall_handler_def unlink_handler_def LL_DELETE2_def s''_def) (simp add: s')
  moreover have "handler_lists s'' hs (tl fs)"
    using a(1-4) by (auto simp: handler_lists_def s''_def s')
  ultimately show ?thesis
    using True inst disp by auto
next
  case False
  then show ?thesis
    by (simp add: interrupts_install_handler_def MAX_INTERRUPTS_def)
qed

text \<open>A vector with one handler and an empty free list.\<close>

definition demo_interrupts :: interrupts where
  "demo_interrupts = \<lparr> handlers = (\<lambda>v. if v = 33 then Some 0xC0200000 else None), free_handlers = None, ih_next = (\<lambda>_. None),
     ih = (\<lambda>_. \<lparr> ih_int_no = 33, ih_handler = 0xC0101000, ih_data = 0 \<rparr>), interrupt_nesting = 0,
     ilayout = \<lparr> segment_start = 0xC0000000, memory_start = 0xC0300000, memory_end = 0xC0400000 \<rparr>, isched = demo_sched \<rparr>"

theorem interrupts_install_first_witness:
  "\<exists>s s'. interrupts_install_handler 33 0xC0102000 7 demo_interrupts = kret (0xC0300000, s)
     \<and> interrupts_dispatch (\<lambda>f v regs d s. kret (f = 0xC0101000, regs, s)) 33 registers0 s = kret (True, registers0, s)
     \<and> interrupts_uninstall_handler 0xC0300000 s = kret s'"
proof -
  let ?hs = "\<lambda>v. if v = 33 then [0xC0200000] else []"
  let ?run = "\<lambda>f v regs d s. kret (f = 0xC0101000, regs, s)"
  have l: "handler_lists demo_interrupts ?hs []"
    by (auto simp: handler_lists_def demo_interrupts_def)
  have al: "interrupts_handler_alloc demo_interrupts = kret (0xC0300000,
      demo_interrupts \<lparr> ilayout := \<lparr> segment_start = 0xC0000000, memory_start = 0xC0300010, memory_end = 0xC0400000 \<rparr> \<rparr>)"
    by (simp add: interrupts_handler_alloc_def demo_interrupts_def kalloc_static_def sizeof_handler_def align_address_def)
  have st: "steady ?run"
    by (simp add: steady_def same_handlers_def)
  show ?thesis
    using interrupts_install_first [OF l al _ st, of 33 "0xC0102000" 7 registers0]
    by (auto simp: code_of_def demo_interrupts_def)
qed

end
