(* ===== verification/Apic.thy ===== *)
theory Apic
  imports Paging KRun UtList
begin

text \<open>
  The local and the I/O interrupt controllers, ia32/apic.c, with the masking of interrupt lines of ia32/hal_x86.c that
  uses them.  The registers are in memory: a read is answered by the device, a function of all the accesses before and of the
  address.  The list of controllers is the list of the addresses of their structures.
\<close>

section \<open>Memory-mapped registers\<close>

datatype mm_event = MRead u32 u32 | MWrite u32 u32

type_synonym mmio = "mm_event list"

type_synonym mm_device = "mmio \<Rightarrow> u32 \<Rightarrow> u32"

record apic_base_msr =
  msr_low :: u32
  msr_high :: u32

record ioapic =
  io_id :: u8
  phys_address :: u32
  io_address :: u32
  irq_count :: u32
  irq_base :: u32

record hal_irq_line =
  line_vector :: u32
  upstream_interrupt_handler :: u32

record apic =
  base_msr :: apic_base_msr
  ioapics :: "u32 list"
  ioapic_at :: "u32 \<Rightarrow> ioapic"
  mm :: mmio
  apg :: paging
  hal_irqs :: "u32 \<Rightarrow> hal_irq_line"

definition mm_read :: "mm_device \<Rightarrow> u32 \<Rightarrow> apic \<Rightarrow> u32 \<times> apic" where
  "mm_read dev a s = (dev (mm s) a, s \<lparr> mm := MRead a (dev (mm s) a) # mm s \<rparr>)"

definition mm_write :: "u32 \<Rightarrow> u32 \<Rightarrow> apic \<Rightarrow> apic" where
  "mm_write a v s = s \<lparr> mm := MWrite a v # mm s \<rparr>"

section \<open>The local controller\<close>

definition APIC_REG_ID :: u32 where "APIC_REG_ID = 0x20"
definition APIC_REG_EOI :: u32 where "APIC_REG_EOI = 0xB0"
definition APIC_REG_SIVR :: u32 where "APIC_REG_SIVR = 0xF0"
definition APIC_REG_LVT_TIMER :: u32 where "APIC_REG_LVT_TIMER = 0x320"
definition APIC_REG_TIMER_ICR :: u32 where "APIC_REG_TIMER_ICR = 0x380"
definition APIC_REG_TIMER_CCR :: u32 where "APIC_REG_TIMER_CCR = 0x390"
definition APIC_REG_TIMER_DCR :: u32 where "APIC_REG_TIMER_DCR = 0x3E0"
definition APIC_SIVR :: u32 where "APIC_SIVR = 0x37"
definition APIC_IRQ_BASE :: u32 where "APIC_IRQ_BASE = APIC_SIVR + 1"

definition APIC_MSR_LOW_GET_BASE :: "u32 \<Rightarrow> u32" where
  "APIC_MSR_LOW_GET_BASE msr = withbits 0 0 19 (getbits msr 12 31)"
definition APIC_MSR_HIGH_GET_BASE :: "u32 \<Rightarrow> u32" where
  "APIC_MSR_HIGH_GET_BASE msr = withbits 0 20 23 (getbits msr 0 3)"
definition APIC_MSR_LOW_SET_BASE :: "u32 \<Rightarrow> u32 \<Rightarrow> u32" where
  "APIC_MSR_LOW_SET_BASE msr v = withbits msr 12 31 (getbits v 0 19)"
definition APIC_MSR_HIGH_SET_BASE :: "u32 \<Rightarrow> u32 \<Rightarrow> u32" where
  "APIC_MSR_HIGH_SET_BASE msr v = withbits msr 0 3 (getbits v 20 23)"
definition APIC_LVT_SET_MASK :: "u32 \<Rightarrow> u32 \<Rightarrow> u32" where "APIC_LVT_SET_MASK lvt v = withbit lvt 16 v"
definition APIC_SVR_GET_SOFTWARE_ENABLE :: "u32 \<Rightarrow> u32" where "APIC_SVR_GET_SOFTWARE_ENABLE svr = getbit svr 8"
definition APIC_SVR_SET_SOFTWARE_ENABLE :: "u32 \<Rightarrow> u32 \<Rightarrow> u32" where "APIC_SVR_SET_SOFTWARE_ENABLE svr v = withbit svr 8 v"
definition APIC_SVR_SET_VECTOR :: "u32 \<Rightarrow> u32 \<Rightarrow> u32" where "APIC_SVR_SET_VECTOR svr v = withbits svr 0 7 v"

definition apic_get_base :: "apic_base_msr \<Rightarrow> u32 \<times> u32" where
  "apic_get_base msr = (push_bit 12 (APIC_MSR_LOW_GET_BASE (msr_low msr)), APIC_MSR_HIGH_GET_BASE (msr_high msr))"

definition apic_set_base :: "u32 \<Rightarrow> u32 \<Rightarrow> apic_base_msr \<Rightarrow> apic_base_msr" where
  "apic_set_base low high msr =
     msr \<lparr> msr_low := APIC_MSR_LOW_SET_BASE (msr_low msr) (drop_bit 12 low), msr_high := APIC_MSR_HIGH_SET_BASE (msr_high msr) high \<rparr>"

definition apic_phys_to_linear_addr :: "u32 \<Rightarrow> u32 \<Rightarrow> u32" where
  "apic_phys_to_linear_addr low high = low"

definition apic_read_reg_32 :: "mm_device \<Rightarrow> u32 \<Rightarrow> apic \<Rightarrow> u32 \<times> apic" where
  "apic_read_reg_32 dev reg s =
     (let (low, high) = apic_get_base (base_msr s) in mm_read dev (apic_phys_to_linear_addr (low + reg) high) s)"

definition apic_write_reg_32 :: "u32 \<Rightarrow> u32 \<Rightarrow> apic \<Rightarrow> apic" where
  "apic_write_reg_32 reg value s =
     (let (low, high) = apic_get_base (base_msr s) in mm_write (apic_phys_to_linear_addr (low + reg) high) value s)"

definition apic_remap_irqs :: "apic \<Rightarrow> apic" where
  "apic_remap_irqs s =
     (let sivr = APIC_SVR_SET_SOFTWARE_ENABLE 0 1;
          sivr = APIC_SVR_SET_VECTOR sivr APIC_SIVR
      in apic_write_reg_32 APIC_REG_SIVR sivr s)"

definition apic_interrupt_for_irq :: "u8 \<Rightarrow> u8" where
  "apic_interrupt_for_irq irq = irq + ucast APIC_IRQ_BASE"

definition apic_irq_for_interrupt :: "u8 \<Rightarrow> u8" where
  "apic_irq_for_interrupt ino = ino - ucast APIC_IRQ_BASE"

definition apic_timer_set_initial_count :: "u32 \<Rightarrow> apic \<Rightarrow> apic" where
  "apic_timer_set_initial_count start_count s = apic_write_reg_32 APIC_REG_TIMER_ICR start_count s"

definition apic_timer_disable_interrupt :: "apic \<Rightarrow> apic" where
  "apic_timer_disable_interrupt s = apic_write_reg_32 APIC_REG_LVT_TIMER (APIC_LVT_SET_MASK 0 1) s"

definition apic_timer_enable_interrupt :: "u8 \<Rightarrow> apic \<Rightarrow> apic" where
  "apic_timer_enable_interrupt ino s = apic_write_reg_32 APIC_REG_LVT_TIMER (ucast ino) s"

definition apic_timer_get_current_count :: "mm_device \<Rightarrow> apic \<Rightarrow> u32 \<times> apic" where
  "apic_timer_get_current_count dev s = apic_read_reg_32 dev APIC_REG_TIMER_CCR s"

definition apic_timer_set_divider :: "u32 \<Rightarrow> apic \<Rightarrow> apic" where
  "apic_timer_set_divider timer_div s = apic_write_reg_32 APIC_REG_TIMER_DCR timer_div s"

definition apic_sivr_enable :: "mm_device \<Rightarrow> apic \<Rightarrow> apic" where
  "apic_sivr_enable dev s =
     (let (sivr, s) = apic_read_reg_32 dev APIC_REG_SIVR s
      in if APIC_SVR_GET_SOFTWARE_ENABLE sivr = 0
         then apic_write_reg_32 APIC_REG_SIVR (APIC_SVR_SET_SOFTWARE_ENABLE sivr 1) s else s)"

definition apic_sivr_disable :: "mm_device \<Rightarrow> apic \<Rightarrow> apic" where
  "apic_sivr_disable dev s =
     (let (sivr, s) = apic_read_reg_32 dev APIC_REG_SIVR s
      in if APIC_SVR_GET_SOFTWARE_ENABLE sivr = 0
         then apic_write_reg_32 APIC_REG_SIVR (APIC_SVR_SET_SOFTWARE_ENABLE sivr 0) s else s)"

definition apic_current_cpu_apic_id :: "mm_device \<Rightarrow> apic \<Rightarrow> u8 \<times> apic" where
  "apic_current_cpu_apic_id dev s = (let (result, s) = apic_read_reg_32 dev APIC_REG_ID s in (ucast result, s))"

definition apic_eoi :: "apic \<Rightarrow> apic" where
  "apic_eoi s = apic_write_reg_32 APIC_REG_EOI 0 s"

section \<open>The I/O controllers\<close>

definition IOAPIC_REGSEL_VER :: u32 where "IOAPIC_REGSEL_VER = 1"
definition IOAPIC_REGSEL_REDIRECT_TBL_BASE :: u32 where "IOAPIC_REGSEL_REDIRECT_TBL_BASE = 0x10"
definition IOAPIC_IOREGSEL :: "u32 \<Rightarrow> u32" where "IOAPIC_IOREGSEL apic_base = apic_base"
definition IOAPIC_IOWIN :: "u32 \<Rightarrow> u32" where "IOAPIC_IOWIN apic_base = apic_base OR 0x10"
definition I86_PTE_NOT_CACHEABLE :: u32 where "I86_PTE_NOT_CACHEABLE = 0x10"
definition HAL_MAX_IRQS :: u32 where "HAL_MAX_IRQS = 96"

definition IOAPIC_RED_SET_MASK :: "u32 \<Rightarrow> u32 \<Rightarrow> u32" where
  "IOAPIC_RED_SET_MASK entry v = withbit entry 16 v"
definition IOAPIC_RED_SET_TRIGGER_MODE :: "u32 \<Rightarrow> u32 \<Rightarrow> u32" where
  "IOAPIC_RED_SET_TRIGGER_MODE entry v = withbit entry 15 v"
definition IOAPIC_RED_SET_POLARITY :: "u32 \<Rightarrow> u32 \<Rightarrow> u32" where
  "IOAPIC_RED_SET_POLARITY entry v = withbit entry 13 v"
definition IOAPIC_RED_SET_DEST_MODE :: "u32 \<Rightarrow> u32 \<Rightarrow> u32" where
  "IOAPIC_RED_SET_DEST_MODE entry v = withbit entry 11 v"
definition IOAPIC_RED_SET_DELIVERY_MODE :: "u32 \<Rightarrow> u32 \<Rightarrow> u32" where
  "IOAPIC_RED_SET_DELIVERY_MODE entry v = withbits entry 8 10 v"
definition IOAPIC_RED_SET_INTERRUPT_VECTOR :: "u32 \<Rightarrow> u32 \<Rightarrow> u32" where
  "IOAPIC_RED_SET_INTERRUPT_VECTOR entry v = withbits entry 0 7 v"
definition IOAPIC_RED_SET_DESTINATION :: "u32 \<Rightarrow> u32 \<Rightarrow> u32" where
  "IOAPIC_RED_SET_DESTINATION upper v = withbits upper 24 31 v"
definition IOAPIC_RED_GET_INTERRUPT_VECTOR :: "u32 \<Rightarrow> u32" where
  "IOAPIC_RED_GET_INTERRUPT_VECTOR entry = getbits entry 0 7"
definition IOAPIC_REG_VER_GET_MAX_REDIRECT :: "u32 \<Rightarrow> u32" where
  "IOAPIC_REG_VER_GET_MAX_REDIRECT v = getbits v 16 23"

datatype ioapic_redirect_mask = ioapic_redirect_unmasked | ioapic_redirect_masked
datatype ioapic_trigger_mode = ioapic_trigger_edge | ioapic_trigger_level
datatype ioapic_polarity = ioapic_active_high | ioapic_active_low
datatype ioapic_destination_mode = ioapic_dest_physical_mode | ioapic_dest_logical_mode

primrec mask_no :: "ioapic_redirect_mask \<Rightarrow> u32" where
  "mask_no ioapic_redirect_unmasked = 0" | "mask_no ioapic_redirect_masked = 1"
primrec trigger_no :: "ioapic_trigger_mode \<Rightarrow> u32" where
  "trigger_no ioapic_trigger_edge = 0" | "trigger_no ioapic_trigger_level = 1"
primrec polarity_no :: "ioapic_polarity \<Rightarrow> u32" where
  "polarity_no ioapic_active_high = 0" | "polarity_no ioapic_active_low = 1"
primrec dest_no :: "ioapic_destination_mode \<Rightarrow> u32" where
  "dest_no ioapic_dest_physical_mode = 0" | "dest_no ioapic_dest_logical_mode = 1"

definition ioapic_delivery_fixed :: u32 where "ioapic_delivery_fixed = 0"

definition ioapic_read_reg :: "mm_device \<Rightarrow> ioapic \<Rightarrow> u32 \<Rightarrow> apic \<Rightarrow> u32 \<times> apic" where
  "ioapic_read_reg dev i regsel s =
     mm_read dev (IOAPIC_IOWIN (io_address i)) (mm_write (IOAPIC_IOREGSEL (io_address i)) regsel s)"

definition ioapic_write_reg :: "ioapic \<Rightarrow> u32 \<Rightarrow> u32 \<Rightarrow> apic \<Rightarrow> apic" where
  "ioapic_write_reg i regsel value s =
     mm_write (IOAPIC_IOWIN (io_address i)) value (mm_write (IOAPIC_IOREGSEL (io_address i)) regsel s)"

definition ioapic_get_max_redirect :: "mm_device \<Rightarrow> ioapic \<Rightarrow> apic \<Rightarrow> u32 \<times> apic" where
  "ioapic_get_max_redirect dev i s =
     (let (version, s) = ioapic_read_reg dev i IOAPIC_REGSEL_VER s in (IOAPIC_REG_VER_GET_MAX_REDIRECT version, s))"

definition ioapic_read_redirection_entry :: "mm_device \<Rightarrow> ioapic \<Rightarrow> u32 \<Rightarrow> apic \<Rightarrow> (u32 \<times> u32) \<times> apic" where
  "ioapic_read_redirection_entry dev i index s =
     (let regsel = IOAPIC_REGSEL_REDIRECT_TBL_BASE + index * 2;
          (lower, s) = ioapic_read_reg dev i regsel s;
          (upper, s) = ioapic_read_reg dev i (regsel + 1) s
      in ((lower, upper), s))"

definition ioapic_write_redirection_entry :: "ioapic \<Rightarrow> u32 \<Rightarrow> u32 \<Rightarrow> u32 \<Rightarrow> apic \<Rightarrow> apic" where
  "ioapic_write_redirection_entry i index lower upper s =
     (let regsel = IOAPIC_REGSEL_REDIRECT_TBL_BASE + index * 2
      in ioapic_write_reg i (regsel + 1) upper (ioapic_write_reg i regsel lower s))"

definition ioapic_set_redirection ::
    "ioapic \<Rightarrow> u32 \<Rightarrow> u8 \<Rightarrow> ioapic_redirect_mask \<Rightarrow> ioapic_trigger_mode \<Rightarrow> ioapic_polarity \<Rightarrow> ioapic_destination_mode
     \<Rightarrow> u32 \<Rightarrow> u32 \<Rightarrow> apic \<Rightarrow> apic" where
  "ioapic_set_redirection i index destination masked trigger_mode polarity dest_mode delivery_mode interrupt_vector s =
     (let upper = IOAPIC_RED_SET_DESTINATION 0 (ucast destination);
          lower = IOAPIC_RED_SET_MASK 0 (mask_no masked);
          lower = IOAPIC_RED_SET_TRIGGER_MODE lower (trigger_no trigger_mode);
          lower = IOAPIC_RED_SET_POLARITY lower (polarity_no polarity);
          lower = IOAPIC_RED_SET_DEST_MODE lower (dest_no dest_mode);
          lower = IOAPIC_RED_SET_DELIVERY_MODE lower delivery_mode;
          lower = IOAPIC_RED_SET_INTERRUPT_VECTOR lower interrupt_vector
      in ioapic_write_redirection_entry i index lower upper s)"

definition ioapic_compare_irq_base :: "ioapic \<Rightarrow> ioapic \<Rightarrow> int" where
  "ioapic_compare_irq_base a b = (if irq_base a < irq_base b then -1 else if irq_base a > irq_base b then 1 else 0)"

definition ioapic_add :: "u32 \<Rightarrow> apic \<Rightarrow> apic" where
  "ioapic_add i s =
     s \<lparr> ioapics := LL_SORT (\<lambda>a b. ioapic_compare_irq_base (ioapic_at s a) (ioapic_at s b)) (i # ioapics s) \<rparr>"

definition covers :: "u32 \<Rightarrow> ioapic \<Rightarrow> bool" where
  "covers irq i \<longleftrightarrow> irq \<ge> irq_base i \<and> irq < irq_base i + irq_count i"

definition ioapic_for_irq :: "u32 \<Rightarrow> apic \<Rightarrow> ioapic option" where
  "ioapic_for_irq irq s = find (covers irq) (map (ioapic_at s) (ioapics s))"

definition sizeof_ioapic :: u32 where "sizeof_ioapic = 24"

definition ioapic_alloc :: "apic \<Rightarrow> (u32 \<times> apic) kres" where
  "ioapic_alloc s =
     kbind (kalloc_static (kernel_layout (apg s)) sizeof_ioapic 0) (\<lambda>(i, l).
       Inr (i, s \<lparr> apg := (apg s) \<lparr> kernel_layout := l \<rparr> \<rparr>))"

definition apic_configure_ioapic :: "mm_device \<Rightarrow> u32 \<Rightarrow> u8 \<Rightarrow> u32 \<Rightarrow> u32 \<Rightarrow> apic \<Rightarrow> apic krun" where
  "apic_configure_ioapic dev vma id_no phys global_irq_base s =
     krun_bind (Some (ioapic_alloc s)) (\<lambda>(i, s).
     krun_bind (krun_assert (i \<noteq> 0) ''i'') (\<lambda>_.
       let io = (ioapic_at s i) \<lparr> io_id := id_no, phys_address := phys, irq_base := global_irq_base \<rparr>;
           s = ioapic_add i (s \<lparr> ioapic_at := (ioapic_at s)(i := io) \<rparr>)
       in krun_bind (paging_identity_map vma (paging_pd_current (apg s)) phys PAGE_SIZE
              (I86_PTE_PRESENT OR I86_PTE_WRITABLE OR I86_PTE_NOT_CACHEABLE) (apg s)) (\<lambda>p.
            let io = io \<lparr> io_address := phys \<rparr>;
                s = s \<lparr> apg := p, ioapic_at := (ioapic_at s)(i := io) \<rparr>;
                (n, s) = ioapic_get_max_redirect dev io s
            in kret (s \<lparr> ioapic_at := (ioapic_at s)(i := io \<lparr> irq_count := n + 1 \<rparr>) \<rparr>))))"

text \<open>The arguments of the mode are not used.\<close>

definition ioapic_setup_irq ::
    "u32 \<Rightarrow> u8 \<Rightarrow> ioapic_redirect_mask \<Rightarrow> ioapic_trigger_mode \<Rightarrow> ioapic_polarity \<Rightarrow> ioapic_destination_mode
     \<Rightarrow> u32 \<Rightarrow> u32 \<Rightarrow> apic \<Rightarrow> apic kres" where
  "ioapic_setup_irq irq destination masked trigger_mode polarity dest_mode delivery_mode interrupt_vector s =
     (case ioapic_for_irq irq s of
        None \<Rightarrow> Inl (Assert ''i'')
      | Some i \<Rightarrow>
          Inr (ioapic_set_redirection i irq destination ioapic_redirect_unmasked ioapic_trigger_edge ioapic_active_high
                 ioapic_dest_physical_mode ioapic_delivery_fixed interrupt_vector s))"

definition ioapic_interrupt_for_irq :: "mm_device \<Rightarrow> u32 \<Rightarrow> apic \<Rightarrow> (u32 \<times> apic) kres" where
  "ioapic_interrupt_for_irq dev irq s =
     (case ioapic_for_irq irq s of
        None \<Rightarrow> Inl (Assert ''i'')
      | Some i \<Rightarrow>
          (let ((lower, upper), s) = ioapic_read_redirection_entry dev i (irq - irq_base i) s
           in Inr (IOAPIC_RED_GET_INTERRUPT_VECTOR lower, s)))"

definition ioapic_mask_irq :: "mm_device \<Rightarrow> u32 \<Rightarrow> apic \<Rightarrow> apic kres" where
  "ioapic_mask_irq dev irq s =
     (case ioapic_for_irq irq s of
        None \<Rightarrow> Inl (Assert ''i'')
      | Some i \<Rightarrow>
          (let index = irq - irq_base i;
               ((lower, upper), s) = ioapic_read_redirection_entry dev i index s;
               lower = IOAPIC_RED_SET_MASK lower (mask_no ioapic_redirect_masked)
           in Inr (ioapic_write_redirection_entry i index lower upper s)))"

definition ioapic_unmask_irq :: "mm_device \<Rightarrow> u32 \<Rightarrow> apic \<Rightarrow> apic kres" where
  "ioapic_unmask_irq dev irq s =
     (case ioapic_for_irq irq s of
        None \<Rightarrow> Inl (Assert ''i'')
      | Some i \<Rightarrow>
          (let index = irq - irq_base i;
               ((lower, upper), s) = ioapic_read_redirection_entry dev i index s;
               lower = IOAPIC_RED_SET_MASK lower (mask_no ioapic_redirect_unmasked)
           in Inr (ioapic_write_redirection_entry i index lower upper s)))"

section \<open>Lines\<close>

definition hal_x86_init_irq_lines :: "apic \<Rightarrow> apic" where
  "hal_x86_init_irq_lines s =
     s \<lparr> hal_irqs := (\<lambda>irq. if irq < HAL_MAX_IRQS then (hal_irqs s irq) \<lparr> line_vector := irq + APIC_IRQ_BASE \<rparr>
                            else hal_irqs s irq) \<rparr>"

definition hal_init :: "apic \<Rightarrow> apic" where
  "hal_init s = hal_x86_init_irq_lines s"

definition hal_unmask_irq :: "mm_device \<Rightarrow> u32 \<Rightarrow> apic \<Rightarrow> apic kres" where
  "hal_unmask_irq dev irq s =
     (let (lapic_id, s) = apic_current_cpu_apic_id dev s
      in ioapic_setup_irq irq lapic_id ioapic_redirect_unmasked ioapic_trigger_edge ioapic_active_high
           ioapic_dest_physical_mode ioapic_delivery_fixed (line_vector (hal_irqs s irq)) s)"

definition hal_mask_irq :: "mm_device \<Rightarrow> u32 \<Rightarrow> apic \<Rightarrow> apic kres" where
  "hal_mask_irq dev irq s =
     (let (lapic_id, s) = apic_current_cpu_apic_id dev s
      in ioapic_setup_irq irq lapic_id ioapic_redirect_masked ioapic_trigger_edge ioapic_active_high
           ioapic_dest_physical_mode ioapic_delivery_fixed (line_vector (hal_irqs s irq)) s)"

section \<open>The list of controllers\<close>

interpretation ioapic_order: comparator "\<lambda>a b. ioapic_compare_irq_base (at a) (at b)" for at :: "u32 \<Rightarrow> ioapic"
  by unfold_locales (auto simp: ioapic_compare_irq_base_def split: if_splits)

lemma ioapic_add_sorts:
  "sorted_wrt (\<lambda>a b. irq_base (ioapic_at s a) \<le> irq_base (ioapic_at s b)) (ioapics (ioapic_add i s))"
  "mset (ioapics (ioapic_add i s)) = add_mset i (mset (ioapics s))"
proof -
  let ?cmp = "\<lambda>a b. ioapic_compare_irq_base (ioapic_at s a) (ioapic_at s b)"
  have "ioapic_order.le (ioapic_at s) a b \<longleftrightarrow> irq_base (ioapic_at s a) \<le> irq_base (ioapic_at s b)" for a b
    unfolding ioapic_order.le_def by (auto simp: ioapic_compare_irq_base_def not_less)
  then have "ioapic_order.le (ioapic_at s) = (\<lambda>a b. irq_base (ioapic_at s a) \<le> irq_base (ioapic_at s b))"
    by (intro ext) simp
  then show "sorted_wrt (\<lambda>a b. irq_base (ioapic_at s a) \<le> irq_base (ioapic_at s b)) (ioapics (ioapic_add i s))"
    "mset (ioapics (ioapic_add i s)) = add_mset i (mset (ioapics s))"
    using ioapic_order.LL_SORT_sorts [of "ioapic_at s" "i # ioapics s"] by (simp_all add: ioapic_add_def)
qed

section \<open>The redirection table\<close>

text \<open>
  The register selected, and the contents of the registers of the controller at \<open>b\<close> after the accesses \<open>t\<close>, from the contents
  at reset.  Bits 12 and 14 of the lower half of an entry are read-only, and the reserved bits may read as anything: a
  controller \<^emph>\<open>answers\<close> when every other bit of an entry reads as it was last written.
\<close>

fun iosel :: "u32 \<Rightarrow> mmio \<Rightarrow> u32" where
  "iosel b [] = 0"
| "iosel b (MRead a v # t) = iosel b t"
| "iosel b (MWrite a v # t) = (if a = IOAPIC_IOREGSEL b then v else iosel b t)"

fun ioreg :: "(u32 \<Rightarrow> u32) \<Rightarrow> u32 \<Rightarrow> mmio \<Rightarrow> u32 \<Rightarrow> u32" where
  "ioreg init b [] r = init r"
| "ioreg init b (MRead a v # t) r = ioreg init b t r"
| "ioreg init b (MWrite a v # t) r = (if a = IOAPIC_IOWIN b \<and> r = iosel b t then v else ioreg init b t r)"

definition writable :: "u32 \<Rightarrow> nat \<Rightarrow> bool" where
  "writable r k \<longleftrightarrow> (if bit r 0 then 24 \<le> k \<and> k < 32 else k < 17 \<and> k \<noteq> 12 \<and> k \<noteq> 14)"

definition answers :: "(u32 \<Rightarrow> u32) \<Rightarrow> u32 \<Rightarrow> mm_device \<Rightarrow> bool" where
  "answers init b dev \<longleftrightarrow>
     (\<forall>t k. IOAPIC_REGSEL_REDIRECT_TBL_BASE \<le> iosel b t \<longrightarrow> writable (iosel b t) k \<longrightarrow>
       bit (dev t (IOAPIC_IOWIN b)) k = bit (ioreg init b t (iosel b t)) k)"

definition entry_reg :: "u32 \<Rightarrow> u32" where
  "entry_reg index = IOAPIC_REGSEL_REDIRECT_TBL_BASE + index * 2"

lemma window_distinct:
  assumes "\<not> bit b 4"
  shows "IOAPIC_IOWIN b \<noteq> IOAPIC_IOREGSEL b"
proof
  assume "IOAPIC_IOWIN b = IOAPIC_IOREGSEL b"
  then have "bit (b OR 0x10) 4 = bit b 4"
    by (simp add: IOAPIC_IOWIN_def IOAPIC_IOREGSEL_def)
  moreover have "bit (0x10 :: u32) 4"
    by simp
  ultimately show False
    using assms by (metis bit_or_iff)
qed

lemma ioreg_write_reg:
  assumes "\<not> bit (io_address i) 4"
  shows "ioreg init (io_address i) (mm (ioapic_write_reg i r v s)) =
    (ioreg init (io_address i) (mm s))(r := v)"
  using window_distinct [OF assms] by (auto simp: fun_eq_iff ioapic_write_reg_def mm_write_def)

lemma ioreg_read_reg:
  assumes "\<not> bit (io_address i) 4"
  shows "ioreg init (io_address i) (mm (snd (ioapic_read_reg dev i r s))) = ioreg init (io_address i) (mm s)"
  using window_distinct [OF assms] by (auto simp: fun_eq_iff ioapic_read_reg_def mm_read_def mm_write_def)

lemma read_reg_bits:
  assumes b: "\<not> bit (io_address i) 4" and a: "answers init (io_address i) dev" and r: "0x10 \<le> r" "writable r k"
  shows "bit (fst (ioapic_read_reg dev i r s)) k = bit (ioreg init (io_address i) (mm s) r) k"
proof -
  let ?t = "MWrite (IOAPIC_IOREGSEL (io_address i)) r # mm s"
  have "bit (dev ?t (IOAPIC_IOWIN (io_address i))) k = bit (ioreg init (io_address i) ?t (iosel (io_address i) ?t)) k"
    using a r unfolding answers_def by (simp add: IOAPIC_REGSEL_REDIRECT_TBL_BASE_def)
  then show ?thesis
    using window_distinct [OF b] by (auto simp: ioapic_read_reg_def mm_read_def mm_write_def)
qed

lemma ioreg_read_entry:
  assumes "\<not> bit (io_address i) 4" "ioapic_read_redirection_entry dev i index s = ((lower, upper), s')"
  shows "ioreg init (io_address i) (mm s') = ioreg init (io_address i) (mm s)"
  using assms(2) ioreg_read_reg [OF assms(1), of init dev]
  by (auto simp: ioapic_read_redirection_entry_def Let_def split: prod.splits) (metis snd_conv)

lemma read_entry_bits:
  assumes b: "\<not> bit (io_address i) 4" and a: "answers init (io_address i) dev"
    and read: "ioapic_read_redirection_entry dev i index s = ((lower, upper), s')"
    and r: "0x10 \<le> entry_reg index" "0x10 \<le> entry_reg index + 1"
  shows "writable (entry_reg index) k \<Longrightarrow> bit lower k = bit (ioreg init (io_address i) (mm s) (entry_reg index)) k"
    "writable (entry_reg index + 1) k \<Longrightarrow> bit upper k = bit (ioreg init (io_address i) (mm s) (entry_reg index + 1)) k"
proof -
  obtain s1 where l: "ioapic_read_reg dev i (entry_reg index) s = (lower, s1)"
    and u: "ioapic_read_reg dev i (entry_reg index + 1) s1 = (upper, s')"
    using read by (auto simp: ioapic_read_redirection_entry_def entry_reg_def Let_def split: prod.splits)
  show "writable (entry_reg index) k \<Longrightarrow> bit lower k = bit (ioreg init (io_address i) (mm s) (entry_reg index)) k"
    using read_reg_bits [OF b a r(1), of k s] l by simp
  show "writable (entry_reg index + 1) k \<Longrightarrow> bit upper k = bit (ioreg init (io_address i) (mm s) (entry_reg index + 1)) k"
    using read_reg_bits [OF b a r(2), of k s1] u ioreg_read_reg [OF b, of init dev "entry_reg index" s] l by simp
qed

lemma ioreg_write_entry:
  assumes "\<not> bit (io_address i) 4"
  shows "ioreg init (io_address i) (mm (ioapic_write_redirection_entry i index lower upper s)) =
    (ioreg init (io_address i) (mm s))(entry_reg index := lower, entry_reg index + 1 := upper)"
  by (simp add: ioapic_write_redirection_entry_def entry_reg_def Let_def ioreg_write_reg [OF assms])

text \<open>Reading an entry, setting its mask bit and writing it back.\<close>

lemma rewrite_entry:
  assumes b: "\<not> bit (io_address i) 4" and a: "answers init (io_address i) dev"
    and read: "ioapic_read_redirection_entry dev i index s = ((lower, upper), s')"
    and r: "0x10 \<le> entry_reg index" "0x10 \<le> entry_reg index + 1" and w: "writable reg k"
  shows "bit (ioreg init (io_address i)
      (mm (ioapic_write_redirection_entry i index (IOAPIC_RED_SET_MASK lower (mask_no m)) upper s')) reg) k =
    (if reg = entry_reg index \<and> k = 16 then m = ioapic_redirect_masked
     else bit (ioreg init (io_address i) (mm s) reg) k)"
proof -
  have m: "bit (mask_no m) 0 \<longleftrightarrow> m = ioapic_redirect_masked"
    by (cases m) simp_all
  have l: "bit (IOAPIC_RED_SET_MASK lower (mask_no m)) k = (if k = 16 then m = ioapic_redirect_masked else bit lower k)"
    using m by (auto simp: IOAPIC_RED_SET_MASK_def withbit_def bitfield_simps)
  show ?thesis
    using read_entry_bits [OF b a read r, of k] w l ioreg_read_entry [OF b read, of init]
    by (auto simp: ioreg_write_entry [OF b])
qed

lemma unat_entry_reg: "unat index < 120 \<Longrightarrow> unat (entry_reg index) = 16 + 2 * unat index"
  by (simp add: entry_reg_def IOAPIC_REGSEL_REDIRECT_TBL_BASE_def unat_word_ariths)

lemma covers_index:
  assumes "covers irq i" "irq_count i \<le> 120"
  shows "0x10 \<le> entry_reg (irq - irq_base i)" "0x10 \<le> entry_reg (irq - irq_base i) + 1"
proof -
  have le: "unat (irq_base i) \<le> unat irq" and lt: "unat irq < unat (irq_base i + irq_count i)" and c: "unat (irq_count i) \<le> 120"
    using assms by (simp_all add: covers_def word_le_nat_alt word_less_nat_alt)
  have "unat (irq_base i + irq_count i) \<le> unat (irq_base i) + unat (irq_count i)"
    by (simp add: unat_word_ariths)
  then have "unat (irq - irq_base i) < 120"
    using le lt c by (simp add: unat_sub word_le_nat_alt)
  then have "unat (entry_reg (irq - irq_base i)) = 16 + 2 * unat (irq - irq_base i)"
    by (rule unat_entry_reg)
  then show "0x10 \<le> entry_reg (irq - irq_base i)" "0x10 \<le> entry_reg (irq - irq_base i) + 1"
    using \<open>unat (irq - irq_base i) < 120\<close> by (simp_all add: word_le_nat_alt unat_word_ariths)
qed

lemma for_irq_covers: "ioapic_for_irq irq s = Some i \<Longrightarrow> covers irq i"
  by (auto simp: ioapic_for_irq_def find_Some_iff)

section \<open>Masking a line\<close>

text \<open>
  Masking and unmasking an interrupt line at the I/O controller.  When no controller covers the line the assertion fails.
  Otherwise, with a controller that keeps what is written to its redirection entries, \<open>ioapic_mask_irq\<close> sets the mask bit of
  the entry of the line and \<open>ioapic_unmask_irq\<close> clears it, and no other bit of that entry that software can write, nor any
  other entry of the controller, changes.
\<close>

theorem ioapic_mask_exact:
  assumes "\<And>i. ioapic_for_irq irq s = Some i \<Longrightarrow>
      \<not> bit (io_address i) 4 \<and> irq_count i \<le> 120 \<and> answers init (io_address i) dev"
  shows "case ioapic_for_irq irq s of
      None \<Rightarrow> ioapic_mask_irq dev irq s = Inl (Assert ''i'') \<and> ioapic_unmask_irq dev irq s = Inl (Assert ''i'')
    | Some i \<Rightarrow> \<exists>m u. ioapic_mask_irq dev irq s = Inr m \<and> ioapic_unmask_irq dev irq s = Inr u
        \<and> (\<forall>reg k. writable reg k \<longrightarrow>
              bit (ioreg init (io_address i) (mm m) reg) k =
                (reg = entry_reg (irq - irq_base i) \<and> k = 16 \<or> bit (ioreg init (io_address i) (mm s) reg) k)
            \<and> bit (ioreg init (io_address i) (mm u) reg) k =
                (\<not> (reg = entry_reg (irq - irq_base i) \<and> k = 16) \<and> bit (ioreg init (io_address i) (mm s) reg) k))"
proof (cases "ioapic_for_irq irq s")
  case None
  then show ?thesis
    by (simp add: ioapic_mask_irq_def ioapic_unmask_irq_def)
next
  case (Some i)
  obtain lower upper s' where read: "ioapic_read_redirection_entry dev i (irq - irq_base i) s = ((lower, upper), s')"
    by (metis surj_pair)
  note h = assms [OF Some]
  note rewrite = rewrite_entry [OF conjunct1 [OF h] conjunct2 [OF conjunct2 [OF h]] read
      covers_index [OF for_irq_covers [OF Some] conjunct1 [OF conjunct2 [OF h]]]]
  show ?thesis
    using rewrite [where m = ioapic_redirect_masked] rewrite [where m = ioapic_redirect_unmasked]
    by (auto simp: Some ioapic_mask_irq_def ioapic_unmask_irq_def read Let_def)
qed

text \<open>A controller at its usual address with 24 lines, whose registers read as they were written.\<close>

definition demo_ioapic :: ioapic where
  "demo_ioapic = \<lparr> io_id = 0, phys_address = 0xFEC00000, io_address = 0xFEC00000, irq_count = 24, irq_base = 0 \<rparr>"

definition demo_apic :: apic where
  "demo_apic = \<lparr> base_msr = \<lparr> msr_low = 0xFEE00900, msr_high = 0 \<rparr>, ioapics = [0x1000], ioapic_at = (\<lambda>_. demo_ioapic),
     mm = [], apg = demo_paging,
     hal_irqs = (\<lambda>irq. \<lparr> line_vector = irq + APIC_IRQ_BASE, upstream_interrupt_handler = 0 \<rparr>) \<rparr>"

definition demo_mm :: mm_device where
  "demo_mm t a = (if a = 0xFEC00010 then ioreg (\<lambda>_. 0x10000) 0xFEC00000 t (iosel 0xFEC00000 t) else 0)"

lemma demo_for_irq: "ioapic_for_irq 9 demo_apic = Some demo_ioapic"
  by (simp add: ioapic_for_irq_def demo_apic_def covers_def demo_ioapic_def)

lemma demo_address: "io_address demo_ioapic = 0xFEC00000" "irq_count demo_ioapic = 24" "irq_base demo_ioapic = 0"
  "mm demo_apic = []"
  by (simp_all add: demo_ioapic_def demo_apic_def)

theorem ioapic_mask_exact_witness:
  "\<exists>m u. ioapic_mask_irq demo_mm 9 demo_apic = Inr m \<and> ioapic_unmask_irq demo_mm 9 demo_apic = Inr u
    \<and> bit (ioreg (\<lambda>_. 0x10000) 0xFEC00000 (mm m) 0x22) 16 \<and> \<not> bit (ioreg (\<lambda>_. 0x10000) 0xFEC00000 (mm u) 0x22) 16"
proof -
  have a: "answers (\<lambda>_. 0x10000) 0xFEC00000 demo_mm"
    by (simp add: answers_def demo_mm_def IOAPIC_IOWIN_def)
  have "writable 0x22 16" "entry_reg (9 - irq_base demo_ioapic) = 0x22"
    by (simp_all add: writable_def entry_reg_def demo_address IOAPIC_REGSEL_REDIRECT_TBL_BASE_def)
  then show ?thesis
    using ioapic_mask_exact [of 9 demo_apic "\<lambda>_. 0x10000" demo_mm] a
    by (fastforce simp: demo_for_irq demo_address)
qed

lemma for_irq_read: "ioapic_for_irq irq (s \<lparr> mm := t \<rparr>) = ioapic_for_irq irq s"
  by (simp add: ioapic_for_irq_def)

lemma read_apic_id: "\<exists>t. snd (apic_current_cpu_apic_id dev s) = s \<lparr> mm := t \<rparr>"
  by (auto simp: apic_current_cpu_apic_id_def apic_read_reg_32_def apic_get_base_def mm_read_def)

lemma set_redirection_unmasked:
  assumes "\<not> bit (io_address i) 4"
  shows "\<not> bit (ioreg init (io_address i)
    (mm (ioapic_set_redirection i index d ioapic_redirect_unmasked tm pol dm del vec s)) (entry_reg index)) 16"
  by (simp add: ioapic_set_redirection_def Let_def ioreg_write_entry [OF assms] IOAPIC_RED_SET_MASK_def
      IOAPIC_RED_SET_TRIGGER_MODE_def IOAPIC_RED_SET_POLARITY_def IOAPIC_RED_SET_DEST_MODE_def IOAPIC_RED_SET_DELIVERY_MODE_def
      IOAPIC_RED_SET_INTERRUPT_VECTOR_def withbit_def bitfield_simps)

text \<open>
  \<open>hal_mask_irq\<close> does not mask: \<open>ioapic_setup_irq\<close> writes fixed modes whatever the modes it is given, so that
  \<open>hal_mask_irq\<close> and \<open>hal_unmask_irq\<close> are the same function, and after either the redirection entry with the number of the
  line is not masked.
\<close>

theorem hal_mask_is_unmask:
  assumes "\<And>i. ioapic_for_irq irq s = Some i \<Longrightarrow> \<not> bit (io_address i) 4"
  shows "hal_mask_irq dev irq s = hal_unmask_irq dev irq s
   \<and> (case ioapic_for_irq irq s of
        None \<Rightarrow> hal_mask_irq dev irq s = Inl (Assert ''i'')
      | Some i \<Rightarrow> \<exists>s'. hal_mask_irq dev irq s = Inr s' \<and> \<not> bit (ioreg init (io_address i) (mm s') (entry_reg irq)) 16)"
proof -
  obtain lapic_id s1 where r: "apic_current_cpu_apic_id dev s = (lapic_id, s1)"
    by fastforce
  then have f: "ioapic_for_irq irq s1 = ioapic_for_irq irq s"
    using read_apic_id [of dev s] by (auto simp: for_irq_read)
  show ?thesis
    using assms f by (auto simp: hal_mask_irq_def hal_unmask_irq_def r ioapic_setup_irq_def set_redirection_unmasked split: option.splits)
qed

theorem hal_mask_is_unmask_witness:
  "\<exists>s'. hal_mask_irq demo_mm 9 demo_apic = Inr s' \<and> \<not> bit (ioreg (\<lambda>_. 0x10000) 0xFEC00000 (mm s') (entry_reg 9)) 16"
  using hal_mask_is_unmask [of 9 demo_apic demo_mm "\<lambda>_. 0x10000"]
  by (simp add: demo_for_irq demo_address del: ex_simps) metis

end
