(* ===== verification/Hal.thy ===== *)
theory Hal
  imports Interrupts Apic
begin

text \<open>
  Interrupt lines and their drivers, ia32/hal_x86.c.  Each line has a vector and, once a driver is installed for it, one
  handler of the interrupt dispatcher, which asks the drivers of the vector in turn.  What a driver's function does is an
  argument \<open>fast\<close>; the structures come from \<open>kmalloc\<close>, whose result is an argument, and keep the fields that are not set.
\<close>

section \<open>State\<close>

datatype hal_fast_irq_handler_result = IRQ_HANDLED | IRQ_DEFER | IRQ_PASS

record hal_irq_handler =
  hh_irq :: u32
  hh_vector :: u32
  hh_fast :: u32
  hh_name :: string
  hh_slow :: u32
  hh_thread :: u32
  hh_data :: u32

record hal = interrupts +
  hap :: apic
  hal_irq_handlers :: "u32 \<Rightarrow> u32 option"
  hh_next :: "u32 \<Rightarrow> u32 option"
  hh :: "u32 \<Rightarrow> hal_irq_handler"
  hfreed :: "u32 list"

type_synonym 's fast_code =
  "u32 \<Rightarrow> u32 \<Rightarrow> registers \<Rightarrow> u32 \<Rightarrow> 's \<Rightarrow> (hal_fast_irq_handler_result \<times> registers \<times> 's) krun"

text \<open>What starting a thread needs: the memory of its context, the code segment, its blocks and its entry point.\<close>

record spawn_args =
  sp_old :: ctx
  sp_cs :: u16
  sp_thread :: u32
  sp_stack :: u32
  sp_kernel_stack :: u32
  sp_entry :: u32

abbreviation hal_line :: "'a hal_scheme \<Rightarrow> u32 \<Rightarrow> hal_irq_line" where
  "hal_line s irq \<equiv> hal_irqs (hap s) irq"

definition set_upstream :: "u32 \<Rightarrow> u32 \<Rightarrow> 'a hal_scheme \<Rightarrow> 'a hal_scheme" where
  "set_upstream irq u s =
     s \<lparr> hap := (hap s) \<lparr> hal_irqs := (hal_irqs (hap s))(irq := (hal_line s irq) \<lparr> upstream_interrupt_handler := u \<rparr>) \<rparr> \<rparr>"

section \<open>Operations\<close>

definition hal_x86_irq_handler_free :: "u32 \<Rightarrow> 'a hal_scheme \<Rightarrow> 'a hal_scheme" where
  "hal_x86_irq_handler_free h s = s \<lparr> hfreed := h # hfreed s \<rparr>"

text \<open>\<open>entry\<close> is the address of \<open>hal_x86_fast_irq_handler\<close>.\<close>

definition hal_x86_install_upstream_irq_handler :: "u32 \<Rightarrow> u32 \<Rightarrow> 'a hal_scheme \<Rightarrow> 'a hal_scheme krun" where
  "hal_x86_install_upstream_irq_handler entry irq s =
     (if upstream_interrupt_handler (hal_line s irq) = 0
      then krun_bind (interrupts_install_handler (line_vector (hal_line s irq)) entry 0 s) (\<lambda>(u, s). kret (set_upstream irq u s))
      else kret s)"

definition hal_x86_uninstall_upstream_irq_handler :: "u32 \<Rightarrow> 'a hal_scheme \<Rightarrow> 'a hal_scheme krun" where
  "hal_x86_uninstall_upstream_irq_handler irq s =
     (if upstream_interrupt_handler (hal_line s irq) \<noteq> 0
      then krun_bind (interrupts_uninstall_handler (upstream_interrupt_handler (hal_line s irq)) s) (\<lambda>s. kret (set_upstream irq 0 s))
      else kret s)"

text \<open>\<open>slow_entry\<close> is the address of \<open>hal_x86_slow_handler_thread_entry_point\<close>.\<close>

definition hal_x86_start_slow_handler_thread :: "spawn_args \<Rightarrow> u32 \<Rightarrow> u32 \<Rightarrow> 'a hal_scheme \<Rightarrow> 'a hal_scheme krun" where
  "hal_x86_start_slow_handler_thread sp slow_entry h s =
     krun_bind (thread_spawn_kthread (sp_old sp) (sp_cs sp) (sp_thread sp) (sp_stack sp) (sp_kernel_stack sp) (sp_entry sp)
         slow_entry (hh_name (hh s h)) h (isched s)) (\<lambda>(t, k).
       kret (s \<lparr> isched := k, hh := (hh s)(h := (hh s h) \<lparr> hh_thread := t \<rparr>) \<rparr>))"

definition hal_x86_slow_handler_thread_entry_point :: "(u32 \<Rightarrow> u32 \<Rightarrow> 'a hal_scheme \<Rightarrow> 'b) \<Rightarrow> u32 \<Rightarrow> 'a hal_scheme \<Rightarrow> 'b" where
  "hal_x86_slow_handler_thread_entry_point slow h s = slow (hh_slow (hh s h)) (hh_data (hh s h)) s"

text \<open>The function has no return statement, so that the handle that its caller gets is not defined.\<close>

definition hal_install_irq_handler ::
    "spawn_args \<Rightarrow> u32 \<Rightarrow> u32 \<Rightarrow> u32 \<Rightarrow> u32 \<Rightarrow> u32 \<Rightarrow> u32 \<Rightarrow> string \<Rightarrow> u32 \<Rightarrow> 'a hal_scheme \<Rightarrow> 'a hal_scheme krun" where
  "hal_install_irq_handler sp entry slow_entry h irq fast_handler slow_handler name data s =
     (let v = line_vector (hal_line s irq) in
      if h = 0 then kfail NullDeref
      else
        let s = s \<lparr> hh := (hh s)(h := (hh s h) \<lparr> hh_irq := irq, hh_vector := v, hh_fast := fast_handler,
                    hh_slow := slow_handler, hh_name := name, hh_data := data \<rparr>) \<rparr> in
        krun_bind (LL_PREPEND2 (hh_next s, hal_irq_handlers s v) h) (\<lambda>(n, hd).
        let s = s \<lparr> hh_next := n, hal_irq_handlers := (hal_irq_handlers s)(v := hd) \<rparr> in
        krun_bind (if hh_slow (hh s h) \<noteq> 0 then hal_x86_start_slow_handler_thread sp slow_entry h s else kret s)
          (hal_x86_install_upstream_irq_handler entry irq)))"

partial_function (option) hal_uninstall_from :: "u32 option \<Rightarrow> u32 \<Rightarrow> u32 \<Rightarrow> 'a hal_scheme \<Rightarrow> (bool \<times> 'a hal_scheme) krun" where
  "hal_uninstall_from cur v h s =
     (case cur of
        None \<Rightarrow> kret (False, s)
      | Some c \<Rightarrow>
          if c = h
          then krun_bind (LL_DELETE2 (hh_next s, hal_irq_handlers s v) c) (\<lambda>(n, hd).
                 kret (True, s \<lparr> hh_next := n, hal_irq_handlers := (hal_irq_handlers s)(v := hd) \<rparr>))
          else hal_uninstall_from (hh_next s c) v h s)"

definition hal_uninstall_irq_handler :: "u32 \<Rightarrow> 'a hal_scheme \<Rightarrow> (bool \<times> 'a hal_scheme) krun" where
  "hal_uninstall_irq_handler h s =
     (let v = line_vector (hal_line s (hh_irq (hh s h))) in hal_uninstall_from (hal_irq_handlers s v) v h s)"

text \<open>The loop over the drivers; the handler it stops at is given back with the answer.\<close>

partial_function (option) fast_from ::
    "'a hal_scheme fast_code \<Rightarrow> u32 option \<Rightarrow> registers \<Rightarrow> 'a hal_scheme
     \<Rightarrow> (hal_fast_irq_handler_result \<times> u32 option \<times> registers \<times> 'a hal_scheme) krun" where
  "fast_from fast handler regs s =
     (case handler of
        None \<Rightarrow> kret (IRQ_PASS, None, regs, s)
      | Some h \<Rightarrow>
          (case fast (hh_fast (hh s h)) (hh_irq (hh s h)) regs (hh_data (hh s h)) s of
             None \<Rightarrow> None
           | Some (Inl e) \<Rightarrow> kfail e
           | Some (Inr (r, regs, s)) \<Rightarrow>
               if r \<noteq> IRQ_PASS then kret (r, Some h, regs, s) else fast_from fast (hh_next s h) regs s))"

definition wake_driver :: "u32 option \<Rightarrow> 'a hal_scheme \<Rightarrow> 'a hal_scheme krun" where
  "wake_driver handler s =
     (case handler of
        None \<Rightarrow> kfail NullDeref
      | Some h \<Rightarrow>
          if hh_thread (hh s h) \<noteq> 0
          then krun_bind (thread_wake (hh_thread (hh s h)) (isched s)) (\<lambda>k. kret (s \<lparr> isched := k \<rparr>))
          else kret s)"

definition hal_x86_fast_irq_handler ::
    "'a hal_scheme fast_code \<Rightarrow> u32 \<Rightarrow> registers \<Rightarrow> u32 \<Rightarrow> 'a hal_scheme \<Rightarrow> (bool \<times> registers \<times> 'a hal_scheme) krun" where
  "hal_x86_fast_irq_handler fast ino regs data s =
     krun_bind (krun_assert (ino < MAX_INTERRUPTS) ''int_no < MAX_INTERRUPTS'') (\<lambda>_.
     krun_bind (fast_from fast (hal_irq_handlers s ino) regs s) (\<lambda>(r, handler, regs, s).
     krun_bind (if r = IRQ_DEFER then wake_driver handler s else kret s) (\<lambda>s.
       kret (r \<noteq> IRQ_PASS, regs, s))))"

section \<open>Drivers in order\<close>

definition driver_lists :: "'a hal_scheme \<Rightarrow> (u32 \<Rightarrow> u32 list) \<Rightarrow> bool" where
  "driver_lists s hl \<longleftrightarrow>
     (\<forall>v. lst (hh_next s) (hal_irq_handlers s v) (hl v)) \<and> (\<forall>v w. v \<noteq> w \<longrightarrow> set (hl v) \<inter> set (hl w) = {})"

text \<open>Drivers that install and remove nothing while they answer.\<close>

definition same_drivers :: "'a hal_scheme \<Rightarrow> 'a hal_scheme \<Rightarrow> bool" where
  "same_drivers s s' \<longleftrightarrow>
     same_handlers s s' \<and> hal_irq_handlers s' = hal_irq_handlers s \<and> hh_next s' = hh_next s \<and> hh s' = hh s"

definition calm :: "'a hal_scheme fast_code \<Rightarrow> bool" where
  "calm fast \<longleftrightarrow> (\<forall>f irq regs d s r regs' s'. fast f irq regs d s = kret (r, regs', s') \<longrightarrow> same_drivers s s')"

text \<open>The drivers asked one after the other, until one does not pass: its answer and its thread.\<close>

fun ask ::
    "'a hal_scheme fast_code \<Rightarrow> hal_irq_handler list \<Rightarrow> registers \<Rightarrow> 'a hal_scheme
     \<Rightarrow> (hal_fast_irq_handler_result \<times> u32 \<times> registers \<times> 'a hal_scheme) krun" where
  "ask fast [] regs s = kret (IRQ_PASS, 0, regs, s)"
| "ask fast (d # ds) regs s =
     krun_bind (fast (hh_fast d) (hh_irq d) regs (hh_data d) s) (\<lambda>(r, regs, s).
       if r \<noteq> IRQ_PASS then kret (r, hh_thread d, regs, s) else ask fast ds regs s)"

text \<open>What follows from the answer, for the dispatcher.\<close>

definition answered ::
    "hal_fast_irq_handler_result \<Rightarrow> u32 \<Rightarrow> registers \<Rightarrow> 'a hal_scheme \<Rightarrow> (bool \<times> registers \<times> 'a hal_scheme) krun" where
  "answered r t regs s =
     (case r of
        IRQ_PASS \<Rightarrow> kret (False, regs, s)
      | IRQ_HANDLED \<Rightarrow> kret (True, regs, s)
      | IRQ_DEFER \<Rightarrow>
          if t = 0 then kret (True, regs, s)
          else krun_bind (thread_wake t (isched s)) (\<lambda>k. kret (True, regs, s \<lparr> isched := k \<rparr>)))"

lemma krun_bind_assoc: "krun_bind (krun_bind m f) g = krun_bind m (\<lambda>x. krun_bind (f x) g)"
  by (simp add: krun_bind_def split: option.splits sum.splits)

lemma bind_answered:
  "krun_bind (krun_bind m (\<lambda>(r, t, regs, s). answered r t regs s)) k =
   krun_bind m (\<lambda>(r, t, regs, s). krun_bind (answered r t regs s) k)"
  by (simp add: krun_bind_def split: option.splits sum.splits prod.splits)

lemma fast_from_asks:
  assumes "calm fast" "lst (hh_next s) h hl"
  shows "krun_bind (fast_from fast h regs s) (\<lambda>(r, handler, regs, s).
      krun_bind (if r = IRQ_DEFER then wake_driver handler s else kret s) (\<lambda>s. kret (r \<noteq> IRQ_PASS, regs, s)))
    = krun_bind (ask fast (map (hh s) hl) regs s) (\<lambda>(r, t, regs, s). answered r t regs s)"
  using assms(2)
proof (induction hl arbitrary: h regs s)
  case Nil
  then show ?case
    by (simp add: fast_from.simps answered_def)
next
  case (Cons x hl)
  show ?case
  proof (cases "fast (hh_fast (hh s x)) (hh_irq (hh s x)) regs (hh_data (hh s x)) s" rule: krun_cases)
    case (3 y)
    obtain r regs' s' where y: "y = (r, regs', s')"
      by (cases y)
    have same: "same_drivers s s'"
      using assms(1) 3 unfolding y calm_def by blast
    then have l: "lst (hh_next s') (hh_next s' x) hl" and hh: "hh s' = hh s"
      using Cons.prems by (auto simp: same_drivers_def)
    show ?thesis
    proof (cases "r = IRQ_PASS")
      case True
      then show ?thesis
        using Cons.prems Cons.IH [OF l, of regs'] 3 hh by (subst fast_from.simps) (simp add: y kret_def)
    next
      case False
      then show ?thesis
        using Cons.prems 3 hh
        by (subst fast_from.simps) (cases r; simp add: y kret_def wake_driver_def answered_def krun_bind_assoc)
    qed
  qed (use Cons.prems in \<open>subst fast_from.simps, simp add: kfail_def\<close>)+
qed

lemma fast_handler_asks:
  assumes "calm fast" "driver_lists s hl" "v < 256"
  shows "hal_x86_fast_irq_handler fast v regs d s =
    krun_bind (ask fast (map (hh s) (hl v)) regs s) (\<lambda>(r, t, regs, s). answered r t regs s)"
proof -
  have "lst (hh_next s) (hal_irq_handlers s v) (hl v)"
    using assms(2) by (simp add: driver_lists_def)
  then show ?thesis
    using fast_from_asks [OF assms(1)] assms(3) by (simp add: hal_x86_fast_irq_handler_def MAX_INTERRUPTS_def)
qed

section \<open>Installing a driver\<close>

text \<open>The code behind the handlers of the dispatcher: the one of this layer at \<open>entry\<close>, any other elsewhere.\<close>

definition hal_code :: "u32 \<Rightarrow> 'a hal_scheme fast_code \<Rightarrow> 'a hal_scheme handler_code \<Rightarrow> 'a hal_scheme handler_code" where
  "hal_code entry fast run f v regs d s =
     (if f = entry then hal_x86_fast_irq_handler fast v regs d s else run f v regs d s)"

lemma same_handlers_trans: "same_handlers s s' \<Longrightarrow> same_handlers s' s'' \<Longrightarrow> same_handlers s s''"
  by (simp add: same_handlers_def)

lemma fast_from_steady:
  assumes "calm fast" "fast_from fast h regs s = kret (r, k, regs', s')"
  shows "same_handlers s s'"
proof -
  let ?P = "\<lambda>(fast :: 'a hal_scheme fast_code) (h :: u32 option) (regs :: registers) s
      (z :: (hal_fast_irq_handler_result \<times> u32 option \<times> registers \<times> 'a hal_scheme) kres).
    calm fast \<longrightarrow> (\<forall>r k regs' s'. z = Inr (r, k, regs', s') \<longrightarrow> same_handlers s s')"
  have "?P fast h regs s (Inr (r, k, regs', s'))"
  proof (rule fast_from.raw_induct [of ?P])
    fix ff :: "'a hal_scheme fast_code \<Rightarrow> u32 option \<Rightarrow> registers \<Rightarrow> 'a hal_scheme
      \<Rightarrow> (hal_fast_irq_handler_result \<times> u32 option \<times> registers \<times> 'a hal_scheme) krun"
    fix fast :: "'a hal_scheme fast_code" and h regs s z
    assume IH: "\<And>fast h regs s z. ff fast h regs s = Some z \<Longrightarrow> ?P fast h regs s z"
      and body: "(case h of None \<Rightarrow> kret (IRQ_PASS, None, regs, s)
        | Some h \<Rightarrow> (case fast (hh_fast (hh s h)) (hh_irq (hh s h)) regs (hh_data (hh s h)) s of
             None \<Rightarrow> None | Some (Inl e) \<Rightarrow> kfail e
           | Some (Inr (r, regs, s)) \<Rightarrow>
               if r \<noteq> IRQ_PASS then kret (r, Some h, regs, s) else ff fast (hh_next s h) regs s)) = Some z"
    show "?P fast h regs s z"
    proof (cases h)
      case None
      then show ?thesis
        using body by (auto simp: kret_def same_handlers_def)
    next
      case (Some x)
      show ?thesis
      proof (cases "fast (hh_fast (hh s x)) (hh_irq (hh s x)) regs (hh_data (hh s x)) s" rule: krun_cases)
        case (3 y)
        obtain r' regs' s' where y: "y = (r', regs', s')"
          by (cases y)
        have same: "calm fast \<Longrightarrow> same_handlers s s'"
          using 3 unfolding y calm_def same_drivers_def by blast
        show ?thesis
          using body Some 3 same IH [of fast "hh_next s' x" regs' s' z] same_handlers_trans [of s s']
          by (auto simp: y kret_def split: if_splits)
      qed (use body Some in \<open>auto simp: kfail_def\<close>)
    qed
  qed (use assms in \<open>simp add: kret_def\<close>)
  then show ?thesis
    using assms(1) by simp
qed

lemma hal_code_steady:
  assumes "calm fast" "steady run"
  shows "steady (hal_code entry fast run)"
  unfolding steady_def
proof (intro allI impI)
  fix f v regs d and s :: "'a hal_scheme" and r regs' s'
  assume *: "hal_code entry fast run f v regs d s = kret (r, regs', s')"
  show "same_handlers s s'"
  proof (cases "f = entry")
    case True
    then obtain a k regs1 s1 where f: "fast_from fast (hal_irq_handlers s v) regs s = kret (a, k, regs1, s1)"
      and w: "(if a = IRQ_DEFER then wake_driver k s1 else kret s1) = kret s'"
      using * by (auto simp: hal_code_def hal_x86_fast_irq_handler_def krun_bind_eq_kret)
    have "same_handlers s1 s'"
      using w by (auto simp: wake_driver_def same_handlers_def krun_bind_eq_kret split: if_splits option.splits)
    then show ?thesis
      using fast_from_steady [OF assms(1) f] same_handlers_trans by blast
  next
    case False
    then show ?thesis
      using * assms(2) unfolding steady_def hal_code_def by metis
  qed
qed

lemma alloc_cong:
  assumes "interrupts_handler_alloc s = kret (u, s1)"
    "free_handlers s' = free_handlers s" "ih_next s' = ih_next s" "ilayout s' = ilayout s"
  shows "interrupts_handler_alloc s' =
    kret (u, s' \<lparr> ih_next := ih_next s1, free_handlers := free_handlers s1, ilayout := ilayout s1 \<rparr>)"
proof (cases "free_handlers s")
  case None
  then show ?thesis
    using assms by (cases s'; cases s) (auto simp: interrupts_handler_alloc_def krun_bind_eq_kret)
next
  case (Some x)
  then show ?thesis
    using assms by (cases s'; cases s) (auto simp: interrupts_handler_alloc_def krun_bind_eq_kret)
qed

lemma set_upstream_lists [simp]:
  "handler_lists (set_upstream irq u s) hs fs = handler_lists s hs fs"
  "driver_lists (set_upstream irq u s) hl = driver_lists s hl"
  "code_of (set_upstream irq u s) = code_of s" "hh (set_upstream irq u s) = hh s"
  "upstream_interrupt_handler (hal_line (set_upstream irq u s) irq) = u"
  by (auto simp: set_upstream_def handler_lists_def driver_lists_def code_of_def fun_eq_iff)

definition the_driver ::
    "'a hal_scheme \<Rightarrow> u32 \<Rightarrow> u32 \<Rightarrow> u32 \<Rightarrow> u32 \<Rightarrow> u32 \<Rightarrow> string \<Rightarrow> u32 \<Rightarrow> u32 \<Rightarrow> hal_irq_handler" where
  "the_driver s h irq v f slow name d t =
     (hh s h) \<lparr> hh_irq := irq, hh_vector := v, hh_fast := f, hh_slow := slow, hh_name := name, hh_data := d, hh_thread := t \<rparr>"

text \<open>
  The thread \<open>t\<close> of the driver and the scheduler \<open>k\<close> after it was started; without a slow handler the
  thread is what the memory of the structure held.
\<close>

definition started :: "spawn_args \<Rightarrow> u32 \<Rightarrow> u32 \<Rightarrow> u32 \<Rightarrow> string \<Rightarrow> 'a hal_scheme \<Rightarrow> u32 \<Rightarrow> sched \<Rightarrow> bool" where
  "started sp slow_entry h slow name s t k \<longleftrightarrow>
     (if slow = 0 then t = hh_thread (hh s h) \<and> k = isched s
      else thread_spawn_kthread (sp_old sp) (sp_cs sp) (sp_thread sp) (sp_stack sp) (sp_kernel_stack sp) (sp_entry sp)
             slow_entry name h (isched s) = kret (t, k))"

lemma install_driver:
  assumes lists: "handler_lists s hs fs" "driver_lists s hl"
    and line: "hal_line s irq = \<lparr> line_vector = v, upstream_interrupt_handler = 0 \<rparr>" "v < 256"
    and h: "h \<noteq> 0" "\<forall>w. h \<notin> set (hl w)"
    and u: "interrupts_handler_alloc s = kret (u, s1)" "fs = [] \<Longrightarrow> \<forall>w. u \<notin> set (hs w)"
    and t: "started sp slow_entry h slow name s t k"
  obtains s' where "hal_install_irq_handler sp entry slow_entry h irq f slow name d s = kret s'"
    "handler_lists s' (hs(v := u # hs v)) (tl fs)" "driver_lists s' (hl(v := h # hl v))"
    "upstream_interrupt_handler (hal_line s' irq) = u"
    "map (code_of s') (u # hs v) = (entry, 0) # map (code_of s) (hs v)"
    "map (hh s') (h # hl v) = the_driver s h irq v f slow name d t # map (hh s) (hl v)"
proof -
  define s0 where "s0 = s \<lparr> hh := (hh s)(h := the_driver s h irq v f slow name d t),
    hh_next := (hh_next s)(h := hal_irq_handlers s v), hal_irq_handlers := (hal_irq_handlers s)(v := Some h), isched := k \<rparr>"
  define s01 where "s01 = s0 \<lparr> ih_next := ih_next s1, free_handlers := free_handlers s1, ilayout := ilayout s1 \<rparr>"
  have l0: "handler_lists s0 hs fs"
    using lists(1) by (simp add: handler_lists_def s0_def)
  have al: "interrupts_handler_alloc s0 = kret (u, s01)"
    unfolding s01_def by (rule alloc_cong [OF u(1)]) (simp_all add: s0_def)
  obtain s2 where s2: "interrupts_install_handler v entry 0 s0 = kret (u, s2)"
      "handler_lists s2 (hs(v := u # hs v)) (tl fs)"
      "map (code_of s2) (u # hs v) = (entry, 0) # map (code_of s0) (hs v)"
    and eq: "s2 = s01 \<lparr> ih := (ih s0)(u := \<lparr> ih_int_no = v, ih_handler = entry, ih_data = 0 \<rparr>),
        ih_next := (ih_next s01)(u := handlers s0 v), handlers := (handlers s0)(v := Some u) \<rparr>"
    by (rule install_lists [OF l0 al u(2) line(2), of entry 0])
  have hh2: "hh s2 = hh s0" "hh_next s2 = hh_next s0" "hal_irq_handlers s2 = hal_irq_handlers s0"
    by (simp_all add: eq s01_def)
  have c: "code_of s0 = code_of s"
    by (simp add: fun_eq_iff code_of_def s0_def)
  show ?thesis
  proof (rule that [of "set_upstream irq u s2"])
    show "hal_install_irq_handler sp entry slow_entry h irq f slow name d s = kret (set_upstream irq u s2)"
      using s2(1) h(1) line(1) t
      by (cases s; cases "slow = 0") (simp_all add: hal_install_irq_handler_def LL_PREPEND2_def hal_x86_install_upstream_irq_handler_def
          hal_x86_start_slow_handler_thread_def started_def s0_def the_driver_def)
    show "handler_lists (set_upstream irq u s2) (hs(v := u # hs v)) (tl fs)"
      using s2(2) by simp
    show "driver_lists (set_upstream irq u s2) (hl(v := h # hl v))"
      unfolding set_upstream_lists using lists(2) h(2) hh2 by (auto simp: driver_lists_def s0_def)
    show "map (code_of (set_upstream irq u s2)) (u # hs v) = (entry, 0) # map (code_of s) (hs v)"
      using s2(3) c by simp
    show "map (hh (set_upstream irq u s2)) (h # hl v) = the_driver s h irq v f slow name d t # map (hh s) (hl v)"
      using h(2) hh2 by (auto simp: s0_def)
  qed simp
qed


text \<open>The keyboard line with no driver yet, on vector 0x39.\<close>

definition demo_hal :: hal where
  "demo_hal = interrupts.extend demo_interrupts \<lparr> hap = demo_apic, hal_irq_handlers = (\<lambda>_. None), hh_next = (\<lambda>_. None),
     hh = (\<lambda>_. \<lparr> hh_irq = 0, hh_vector = 0, hh_fast = 0, hh_name = [], hh_slow = 0, hh_thread = 0, hh_data = 0 \<rparr>), hfreed = [] \<rparr>"

definition demo_spawn :: spawn_args where
  "demo_spawn = \<lparr> sp_old = snd (stack_context (threads demo_sched 0)), sp_cs = 8, sp_thread = 0, sp_stack = 0, sp_kernel_stack = 0,
     sp_entry = 0 \<rparr>"


end
