(* ===== verification/Ps2.thy ===== *)
theory Ps2
  imports Tty Hal
begin

text \<open>
  The keyboard controller and the keyboard thread, ia32/ps2.c.  The controller answers through the two ports; the code of a
  callback is an argument.  The tables of characters have 128 entries: \<open>past\<close> gives what the memory beyond each of them
  holds.  There is one scheduler, that of the console; the interrupt layer works on it too.
\<close>

section \<open>The controller\<close>

definition PS2_DATA_PORT :: u16 where "PS2_DATA_PORT = 0x60"
definition PS2_SC_PORT :: u16 where "PS2_SC_PORT = 0x64"
definition MAX_SCANCODE_BYTES :: nat where "MAX_SCANCODE_BYTES = 8"
definition PS2_STATUS_GET_OUTPUT_BUFFER_STATUS :: "u8 \<Rightarrow> u32" where "PS2_STATUS_GET_OUTPUT_BUFFER_STATUS r = getbit (ucast r) 0"
definition PS2_STATUS_GET_INPUT_BUFFER_STATUS :: "u8 \<Rightarrow> u32" where "PS2_STATUS_GET_INPUT_BUFFER_STATUS r = getbit (ucast r) 1"
definition PS2_STATUS_GET_SYSTEM_FLAG :: "u8 \<Rightarrow> u32" where "PS2_STATUS_GET_SYSTEM_FLAG r = getbit (ucast r) 2"
definition PS2_CTRL_CFG_GET_2ND_PS2_CLOCK_DISABLE :: "u8 \<Rightarrow> u32" where "PS2_CTRL_CFG_GET_2ND_PS2_CLOCK_DISABLE r = getbit (ucast r) 5"
definition PS2_CTRL_CFG_SET_1ST_PS2_INT_ENABLE :: "u8 \<Rightarrow> u32 \<Rightarrow> u8" where "PS2_CTRL_CFG_SET_1ST_PS2_INT_ENABLE r v = ucast (withbit (ucast r) 0 v)"
definition PS2_CTRL_CFG_SET_2ND_PS2_INT_ENABLE :: "u8 \<Rightarrow> u32 \<Rightarrow> u8" where "PS2_CTRL_CFG_SET_2ND_PS2_INT_ENABLE r v = ucast (withbit (ucast r) 1 v)"
definition PS2_CTRL_CFG_SET_1ST_PS2_TRANSLATION_ENABLE :: "u8 \<Rightarrow> u32 \<Rightarrow> u8" where "PS2_CTRL_CFG_SET_1ST_PS2_TRANSLATION_ENABLE r v = ucast (withbit (ucast r) 6 v)"
definition read_byte_0 :: u8 where "read_byte_0 = 0x20"
definition write_byte_0 :: u8 where "write_byte_0 = 0x60"
definition disable_second_ps2_port :: u8 where "disable_second_ps2_port = 0xa7"
definition enable_second_ps2_port :: u8 where "enable_second_ps2_port = 0xa8"
definition test_second_ps2_port :: u8 where "test_second_ps2_port = 0xa9"
definition test_ps2_controller :: u8 where "test_ps2_controller = 0xaa"
definition test_first_ps2_port :: u8 where "test_first_ps2_port = 0xab"
definition disable_first_ps2_port :: u8 where "disable_first_ps2_port = 0xad"
definition enable_first_ps2_port :: u8 where "enable_first_ps2_port = 0xae"

definition ps2_read_data :: "device \<Rightarrow> io \<Rightarrow> u8 \<times> io" where
  "ps2_read_data dev t = inb dev PS2_DATA_PORT t"

definition ps2_write_data :: "u8 \<Rightarrow> io \<Rightarrow> io" where
  "ps2_write_data data t = outb PS2_DATA_PORT data t"

definition ps2_read_status :: "device \<Rightarrow> io \<Rightarrow> u8 \<times> io" where
  "ps2_read_status dev t = inb dev PS2_SC_PORT t"

definition ps2_write_command :: "u8 \<Rightarrow> io \<Rightarrow> io" where
  "ps2_write_command command t = outb PS2_SC_PORT command t"

definition ps2_can_read_data :: "device \<Rightarrow> io \<Rightarrow> bool \<times> io" where
  "ps2_can_read_data dev t =
     (let (status, t) = ps2_read_status dev t in (1 = PS2_STATUS_GET_OUTPUT_BUFFER_STATUS status, t))"

partial_function (option) ps2_wait_output_buffer_sync :: "device \<Rightarrow> io \<Rightarrow> io krun" where
  "ps2_wait_output_buffer_sync dev t =
     (if \<not> fst (ps2_can_read_data dev t) then ps2_wait_output_buffer_sync dev (snd (ps2_can_read_data dev t))
      else kret (snd (ps2_can_read_data dev t)))"

text \<open>The loop of the wait, with the status that was read last.\<close>

partial_function (option) wait_input_from :: "device \<Rightarrow> u8 \<Rightarrow> io \<Rightarrow> io krun" where
  "wait_input_from dev status t =
     (if PS2_STATUS_GET_INPUT_BUFFER_STATUS status = 0
      then wait_input_from dev (fst (ps2_read_status dev t)) (snd (ps2_read_status dev t))
      else kret t)"

definition ps2_wait_input_buffer_sync :: "device \<Rightarrow> io \<Rightarrow> io krun" where
  "ps2_wait_input_buffer_sync dev t = (let (status, t) = ps2_read_status dev t in wait_input_from dev status t)"

partial_function (option) ps2_flush_output_buffer :: "device \<Rightarrow> io \<Rightarrow> io krun" where
  "ps2_flush_output_buffer dev t =
     (if fst (ps2_can_read_data dev t)
      then ps2_flush_output_buffer dev (snd (ps2_read_data dev (snd (ps2_can_read_data dev t))))
      else kret (snd (ps2_can_read_data dev t)))"

definition ps2_read_config :: "device \<Rightarrow> io \<Rightarrow> u8 \<times> io" where
  "ps2_read_config dev t = ps2_read_data dev (ps2_write_command read_byte_0 t)"

definition ps2_write_config :: "u8 \<Rightarrow> io \<Rightarrow> io" where
  "ps2_write_config config t = ps2_write_data config (ps2_write_command write_byte_0 t)"

text \<open>The bytes that are read, at most as many as the first argument; and the last status.\<close>

fun probe_drain :: "device \<Rightarrow> nat \<Rightarrow> u8 \<Rightarrow> io \<Rightarrow> nat \<times> io" where
  "probe_drain dev 0 status t = (0, t)"
| "probe_drain dev (Suc n) status t =
     (if PS2_STATUS_GET_OUTPUT_BUFFER_STATUS status \<noteq> 0
      then let (_, t) = ps2_read_data dev t;
               (status, t) = ps2_read_status dev t;
               (bytes_read, t) = probe_drain dev n status t
           in (Suc bytes_read, t)
      else (0, t))"

text \<open>The response of the self test is compared with \<open>!response == 0x55\<close>, which no response satisfies, and only printed.\<close>

definition ps2_probe :: "device \<Rightarrow> io \<Rightarrow> (bool \<times> io) krun" where
  "ps2_probe dev t =
     (let (status, t) = ps2_read_status dev t in
      if PS2_STATUS_GET_SYSTEM_FLAG status = 0 then kret (False, t)
      else
        let (bytes_read, t) = probe_drain dev 16 status t in
        if bytes_read = 16 then kret (False, t)
        else
          krun_bind (ps2_wait_output_buffer_sync dev (ps2_write_command test_ps2_controller t)) (\<lambda>t.
            let (response, t) = ps2_read_data dev t in kret (True, t)))"

section \<open>The keyboard\<close>

definition MAX_VISIBLE_SCANCODE :: u32 where "MAX_VISIBLE_SCANCODE = 127"

definition ps2_kbd_scancodes_set_2_en_gb :: "u8 list" where
  "ps2_kbd_scancodes_set_2_en_gb =
  [
   96, 0, 0, 0, 0, 0, 0, 0, 0, 0, 0, 0, 0, 9, 92, 0,
   0, 0, 0, 0, 0, 113, 49, 0, 0, 0, 122, 115, 97, 119, 50, 0,
   0, 99, 120, 100, 101, 52, 51, 0, 0, 32, 118, 102, 116, 114, 53, 0,
   0, 110, 98, 104, 103, 121, 54, 0, 0, 0, 109, 106, 117, 55, 56, 0,
   0, 44, 107, 105, 111, 48, 57, 0, 0, 46, 47, 108, 59, 112, 45, 0,
   0, 0, 39, 0, 91, 61, 0, 0, 0, 0, 10, 93, 0, 35, 0, 0,
   0, 0, 8, 0, 0, 49, 8, 52, 55, 0, 0, 0, 48, 46, 50, 53,
   54, 56, 27, 0, 0, 43, 51, 45, 42, 57, 0, 0, 0, 0, 0, 0]"

definition ps2_kbd_scancodes_set_2_en_gb_shift :: "u8 list" where
  "ps2_kbd_scancodes_set_2_en_gb_shift =
  [
   96, 0, 0, 0, 0, 0, 0, 0, 0, 0, 0, 0, 0, 9, 124, 0,
   0, 0, 0, 0, 0, 81, 33, 0, 0, 0, 90, 83, 65, 87, 34, 0,
   0, 67, 88, 68, 69, 36, 35, 0, 0, 32, 86, 70, 84, 82, 37, 0,
   0, 78, 66, 72, 71, 89, 94, 0, 0, 0, 77, 74, 85, 38, 42, 0,
   0, 60, 75, 73, 79, 41, 40, 0, 0, 62, 63, 76, 58, 80, 95, 0,
   0, 0, 64, 0, 123, 43, 0, 0, 0, 0, 10, 125, 0, 126, 0, 0,
   0, 0, 8, 0, 0, 49, 0, 52, 55, 0, 0, 0, 48, 46, 50, 53,
   54, 56, 27, 0, 0, 43, 51, 45, 42, 57, 0, 0, 0, 0, 0, 0]"

definition PS2_SC_ALT :: u8 where "PS2_SC_ALT = 0x11"
definition PS2_SC_LEFT_SHIFT :: u8 where "PS2_SC_LEFT_SHIFT = 0x12"
definition PS2_SC_CTRL :: u8 where "PS2_SC_CTRL = 0x14"
definition PS2_SC_RIGHT_SHIFT :: u8 where "PS2_SC_RIGHT_SHIFT = 0x59"

definition ps2_kbd_left_shift :: nat where "ps2_kbd_left_shift = 1"
definition ps2_kbd_right_shift :: nat where "ps2_kbd_right_shift = 2"
definition ps2_kbd_left_ctrl :: nat where "ps2_kbd_left_ctrl = 3"
definition ps2_kbd_right_ctrl :: nat where "ps2_kbd_right_ctrl = 4"
definition ps2_kbd_left_alt :: nat where "ps2_kbd_left_alt = 5"
definition ps2_kbd_right_alt :: nat where "ps2_kbd_right_alt = 6"
definition tty_mod_alt :: u32 where "tty_mod_alt = 2"
definition tty_mod_ctrl :: u32 where "tty_mod_ctrl = 4"

definition ps2_kbd_mod_shift_pressed :: "u32 \<Rightarrow> bool" where
  "ps2_kbd_mod_shift_pressed m \<longleftrightarrow> getbit m ps2_kbd_left_shift = 1 \<or> getbit m ps2_kbd_right_shift = 1"

definition ps2_kbd_mod_ctrl_pressed :: "u32 \<Rightarrow> bool" where
  "ps2_kbd_mod_ctrl_pressed m \<longleftrightarrow> getbit m ps2_kbd_left_ctrl = 1 \<or> getbit m ps2_kbd_right_ctrl = 1"

definition ps2_kbd_mod_alt_pressed :: "u32 \<Rightarrow> bool" where
  "ps2_kbd_mod_alt_pressed m \<longleftrightarrow> getbit m ps2_kbd_left_alt = 1 \<or> getbit m ps2_kbd_right_alt = 1"

definition ps2_kbd_scancode_complete :: "(nat \<Rightarrow> u8) \<Rightarrow> nat \<Rightarrow> bool" where
  "ps2_kbd_scancode_complete scancode len =
     (if len = 1 then \<not> (scancode 0 = 0xE0 \<or> scancode 0 = 0xF0 \<or> scancode 0 = 0xE1)
      else if len = 2 then \<not> (scancode 0 = 0xE0 \<and> scancode 1 = 0xF0 \<or> scancode 0 = 0xE1)
      else if 3 \<le> len \<and> len \<le> 7 then scancode 0 \<noteq> 0xE1
      else True)"

text \<open>The entry of a table at a key.\<close>

definition entry_of :: "u8 list \<Rightarrow> (u8 \<Rightarrow> u8) \<Rightarrow> u8 \<Rightarrow> u8" where
  "entry_of table beyond key = (if key \<le> 127 then table ! unat key else beyond key)"

section \<open>State\<close>

record ps2_async_command =
  pc_cmd :: u8
  pc_data :: u8
  pc_send_data :: bool
  pc_callback :: u32

record ps2 =
  kb :: tty
  khal :: hal
  ps2_available :: bool
  ps2_free_commands :: "u32 option"
  ps2_kbd_command_queue :: "u32 option"
  pc :: "u32 \<Rightarrow> ps2_async_command"
  pc_next :: "u32 \<Rightarrow> u32 option"
  pc_prev :: "u32 \<Rightarrow> u32 option"
  ps2_kbd_thread_id :: "u32 option"
  ps2_kbd_mod_state :: u32

definition kbd_irq :: u32 where "kbd_irq = 1"

definition set_ports :: "io \<Rightarrow> ps2 \<Rightarrow> ps2" where
  "set_ports t s = s \<lparr> kb := (kb s) \<lparr> ports := t \<rparr> \<rparr>"

definition set_sched :: "sched \<Rightarrow> ps2 \<Rightarrow> ps2" where
  "set_sched k s = s \<lparr> kb := (kb s) \<lparr> ts := k \<rparr> \<rparr>"

text \<open>An operation of the interrupt layer, on the scheduler of the console.\<close>

definition on_hal :: "(hal \<Rightarrow> hal krun) \<Rightarrow> ps2 \<Rightarrow> ps2 krun" where
  "on_hal f s =
     krun_bind (f ((khal s) \<lparr> isched := ts (kb s) \<rparr>)) (\<lambda>h. kret (set_sched (isched h) (s \<lparr> khal := h \<rparr>)))"

definition on_apic :: "(apic \<Rightarrow> apic kres) \<Rightarrow> ps2 \<Rightarrow> ps2 krun" where
  "on_apic f s = krun_bind (Some (f (hap (khal s)))) (\<lambda>a. kret (s \<lparr> khal := (khal s) \<lparr> hap := a \<rparr> \<rparr>))"

section \<open>Commands\<close>

text \<open>\<open>p\<close> is what \<open>kmalloc\<close> returns when the free list is empty.\<close>

definition ps2_command_alloc :: "u32 \<Rightarrow> ps2 \<Rightarrow> (u32 \<times> ps2) krun" where
  "ps2_command_alloc p s =
     (case ps2_free_commands s of
        Some cmd \<Rightarrow>
          krun_bind (LL_DELETE2 (pc_next s, ps2_free_commands s) cmd) (\<lambda>(n, hd).
            kret (cmd, s \<lparr> pc_next := n, ps2_free_commands := hd \<rparr>))
      | None \<Rightarrow> kret (p, s))"

definition ps2_command_free :: "u32 \<Rightarrow> ps2 \<Rightarrow> ps2 krun" where
  "ps2_command_free cmd s =
     krun_bind (LL_PREPEND2 (pc_next s, ps2_free_commands s) cmd) (\<lambda>(n, hd).
       kret (s \<lparr> pc_next := n, ps2_free_commands := hd \<rparr>))"

text \<open>The queue is a parameter: its new head is lost.  The field \<open>send_data\<close> is not set.\<close>

definition ps2_send_command :: "u32 \<Rightarrow> u32 option \<Rightarrow> u8 \<Rightarrow> u8 \<Rightarrow> u32 \<Rightarrow> ps2 \<Rightarrow> (u32 \<times> ps2) krun" where
  "ps2_send_command p queue cmd data callback s =
     krun_bind (ps2_command_alloc p s) (\<lambda>(result, s).
       if result \<noteq> 0 then
         let s = s \<lparr> pc := (pc s)(result := (pc s result) \<lparr> pc_cmd := cmd, pc_data := data, pc_callback := callback \<rparr>) \<rparr> in
         krun_bind (DL_APPEND2 (pc_next s, pc_prev s, queue) result) (\<lambda>(n, pr, _).
           kret (result, s \<lparr> pc_next := n, pc_prev := pr \<rparr>))
       else kret (result, s))"

definition ps2_cancel_command :: "u32 option \<Rightarrow> u32 \<Rightarrow> ps2 \<Rightarrow> (bool \<times> ps2) krun" where
  "ps2_cancel_command queue cmd s =
     krun_bind (DL_DELETE2 (pc_next s, pc_prev s, queue) cmd) (\<lambda>(n, pr, _).
     krun_bind (ps2_command_free cmd (s \<lparr> pc_next := n(cmd := None), pc_prev := pr \<rparr>)) (\<lambda>s.
       kret (True, s)))"

definition ps2_kbd_issue_next_command :: "ps2 \<Rightarrow> ps2 krun" where
  "ps2_kbd_issue_next_command s =
     (case ps2_kbd_command_queue s of
        None \<Rightarrow> kfail NullDeref
      | Some cmd \<Rightarrow>
          (let t = ps2_write_command (pc_cmd (pc s cmd)) (ports (kb s));
               t = (if pc_send_data (pc s cmd) then ps2_write_data (pc_data (pc s cmd)) t else t)
           in kret (set_ports t s)))"

text \<open>\<open>run\<close> is the code of the callbacks.\<close>

definition ps2_kbd_handle_response :: "device \<Rightarrow> (u32 \<Rightarrow> u8 \<Rightarrow> u8 \<Rightarrow> ps2 \<Rightarrow> ps2 krun) \<Rightarrow> ps2 \<Rightarrow> (bool \<times> ps2) krun" where
  "ps2_kbd_handle_response dev run s =
     (let (data, t) = ps2_read_data dev (ports (kb s));
          s = set_ports t s
      in if data = 0xFE then kret (False, s)
         else
           case ps2_kbd_command_queue s of
             None \<Rightarrow> kfail (Assert ''cmd != NULL'')
           | Some cmd \<Rightarrow>
               krun_bind (krun_assert (pc_callback (pc s cmd) \<noteq> 0) ''cmd->callback != NULL'') (\<lambda>_.
               krun_bind (run (pc_callback (pc s cmd)) (pc_cmd (pc s cmd)) data s) (\<lambda>s.
               krun_bind (ps2_cancel_command (ps2_kbd_command_queue s) cmd s) (\<lambda>(_, s).
                 kret (True, s)))))"

section \<open>Keys\<close>

definition ps2_kbd_interrupt_handler :: "registers \<Rightarrow> 'a hal_scheme \<Rightarrow> (hal_fast_irq_handler_result \<times> registers \<times> 'a hal_scheme) krun" where
  "ps2_kbd_interrupt_handler regs s = kret (IRQ_DEFER, regs, s)"

text \<open>What a complete code says: whether the key went down, the key, and whether it has the prefix \<open>0xe0\<close>.\<close>

definition scancode_key :: "(nat \<Rightarrow> u8) \<Rightarrow> bool \<times> u8 \<times> bool" where
  "scancode_key scancode =
     (if scancode 0 = 0xf0 then (False, scancode 1, False)
      else if scancode 0 = 0xe0 then
        (if scancode 1 = 0xf0 then (False, scancode 2, True) else (True, scancode 1, True))
      else (True, scancode 0, False))"

definition bit_value :: "bool \<Rightarrow> u32" where
  "bit_value b = (if b then 1 else 0)"

text \<open>The event of an ordinary key, if there is one.\<close>

definition key_event_of :: "(bool \<Rightarrow> u8 \<Rightarrow> u8) \<Rightarrow> u32 \<Rightarrow> bool \<Rightarrow> u8 \<Rightarrow> tty_key_event option" where
  "key_event_of past m down key =
     (let charset_key = entry_of ps2_kbd_scancodes_set_2_en_gb (past False) key;
          (charset_key, mods) =
            (if ps2_kbd_mod_ctrl_pressed m \<or> ps2_kbd_mod_alt_pressed m then
               let mods = 0;
                   mods = (if ps2_kbd_mod_ctrl_pressed m then mods OR tty_mod_ctrl else mods);
                   mods = (if ps2_kbd_mod_alt_pressed m then mods OR tty_mod_alt else mods);
                   mods = (if ps2_kbd_mod_shift_pressed m then mods OR tty_mod_shift else mods)
               in (charset_key, mods)
             else if ps2_kbd_mod_shift_pressed m then (entry_of ps2_kbd_scancodes_set_2_en_gb_shift (past True) key, 0)
             else (charset_key, 0))
      in if charset_key \<noteq> 0
         then Some \<lparr> event_type = (if down then tty_key_down else tty_key_up), character = charset_key, mod_keys = mods \<rparr>
         else None)"

text \<open>
  The state of the modifiers, or an event for the console.  \<open>realloc\<close> is the answer of \<open>krealloc\<close> when the line of the
  console has to grow.
\<close>

definition handle_key ::
    "device \<Rightarrow> (bool \<Rightarrow> u8 \<Rightarrow> u8) \<Rightarrow> (tty \<Rightarrow> grown) \<Rightarrow> bool \<times> u8 \<times> bool \<Rightarrow> ps2 \<Rightarrow> ps2 krun" where
  "handle_key dev past realloc what s =
     (let (down, key, e0) = what;
          m = ps2_kbd_mod_state s
      in if key = PS2_SC_ALT then
           kret (s \<lparr> ps2_kbd_mod_state := withbit m (if e0 then ps2_kbd_right_alt else ps2_kbd_left_alt) (bit_value down) \<rparr>)
         else if key = PS2_SC_CTRL then
           kret (s \<lparr> ps2_kbd_mod_state := withbit m (if e0 then ps2_kbd_right_ctrl else ps2_kbd_left_ctrl) (bit_value down) \<rparr>)
         else if key = PS2_SC_LEFT_SHIFT then kret (s \<lparr> ps2_kbd_mod_state := withbit m ps2_kbd_left_shift (bit_value down) \<rparr>)
         else if key = PS2_SC_RIGHT_SHIFT then kret (s \<lparr> ps2_kbd_mod_state := withbit m ps2_kbd_right_shift (bit_value down) \<rparr>)
         else
           case key_event_of past m down key of
             None \<Rightarrow> kret s
           | Some event \<Rightarrow>
               krun_bind (tty_send_key_event dev (realloc (kb s)) event (kb s)) (\<lambda>c. kret (s \<lparr> kb := c \<rparr>)))"

definition ps2_kbd_handle_scancode ::
    "device \<Rightarrow> (bool \<Rightarrow> u8 \<Rightarrow> u8) \<Rightarrow> (tty \<Rightarrow> grown) \<Rightarrow> (nat \<Rightarrow> u8) \<Rightarrow> nat \<Rightarrow> ps2 \<Rightarrow> ps2 krun" where
  "ps2_kbd_handle_scancode dev past realloc scancode len s =
     krun_bind (krun_assert (len \<noteq> 0) ''length != 0'') (\<lambda>_. handle_key dev past realloc (scancode_key scancode) s)"

section \<open>The keyboard thread\<close>

datatype ps2_driver_state = waiting_command | waiting_response | waiting_scancode_start | waiting_scancode_end

text \<open>The local variables of the thread.\<close>

record kbd_local =
  k_state :: ps2_driver_state
  scancode_i :: nat
  scancode :: "nat \<Rightarrow> u8"

text \<open>One turn of the inner loop: whether it is done.  The \<open>continue\<close> after a response goes to the test of the loop.\<close>

definition kbd_step ::
    "device \<Rightarrow> (u32 \<Rightarrow> u8 \<Rightarrow> u8 \<Rightarrow> ps2 \<Rightarrow> ps2 krun) \<Rightarrow> (bool \<Rightarrow> u8 \<Rightarrow> u8) \<Rightarrow> (tty \<Rightarrow> grown)
     \<Rightarrow> kbd_local \<Rightarrow> ps2 \<Rightarrow> (bool \<times> kbd_local \<times> ps2) krun" where
  "kbd_step dev run past realloc l s =
     (case k_state l of
        waiting_command \<Rightarrow>
          if ps2_kbd_command_queue s \<noteq> None
          then krun_bind (ps2_kbd_issue_next_command s) (\<lambda>s. kret (True, l \<lparr> k_state := waiting_response \<rparr>, s))
          else kret (True, l, s)
      | waiting_response \<Rightarrow>
          krun_bind (ps2_kbd_handle_response dev run s) (\<lambda>(r, s).
            kret (True, if r then l \<lparr> k_state := waiting_command \<rparr> else l, s))
      | waiting_scancode_start \<Rightarrow>
          (let (b, t) = ps2_read_data dev (ports (kb s));
               s = set_ports t s;
               l = l \<lparr> scancode := (scancode l)(0 := b), scancode_i := 1 \<rparr>
           in krun_bind (if ps2_kbd_scancode_complete (scancode l) (scancode_i l)
                         then krun_bind (ps2_kbd_handle_scancode dev past realloc (scancode l) (scancode_i l) s) (\<lambda>s. kret (l, s))
                         else kret (l \<lparr> k_state := waiting_scancode_end \<rparr>, s)) (\<lambda>(l, s).
                let (more, t) = ps2_can_read_data dev (ports (kb s)) in kret (\<not> more, l, set_ports t s)))
      | waiting_scancode_end \<Rightarrow>
          (let (b, t) = ps2_read_data dev (ports (kb s));
               s = set_ports t s;
               l = l \<lparr> scancode := (scancode l)(scancode_i l := b), scancode_i := scancode_i l + 1 \<rparr>
           in krun_bind (if ps2_kbd_scancode_complete (scancode l) (scancode_i l)
                         then krun_bind (ps2_kbd_handle_scancode dev past realloc (scancode l) (scancode_i l) s) (\<lambda>s.
                                kret (l \<lparr> k_state := waiting_scancode_start \<rparr>, s))
                         else kret (l, s)) (\<lambda>(l, s).
                let (more, t) = ps2_can_read_data dev (ports (kb s)) in kret (\<not> more, l, set_ports t s))))"

partial_function (option) kbd_loop ::
    "device \<Rightarrow> (u32 \<Rightarrow> u8 \<Rightarrow> u8 \<Rightarrow> ps2 \<Rightarrow> ps2 krun) \<Rightarrow> (bool \<Rightarrow> u8 \<Rightarrow> u8) \<Rightarrow> (tty \<Rightarrow> grown)
     \<Rightarrow> kbd_local \<Rightarrow> ps2 \<Rightarrow> (kbd_local \<times> ps2) krun" where
  "kbd_loop dev run past realloc l s =
     (case kbd_step dev run past realloc l s of
        None \<Rightarrow> None
      | Some (Inl e) \<Rightarrow> kfail e
      | Some (Inr (done, l, s)) \<Rightarrow> if done then kret (l, s) else kbd_loop dev run past realloc l s)"

text \<open>The start of the thread, and one turn of its endless loop up to the return from the yield.\<close>

definition ps2_kbd_thread_start :: "device \<Rightarrow> (nat \<Rightarrow> u8) \<Rightarrow> ps2 \<Rightarrow> (kbd_local \<times> ps2) krun" where
  "ps2_kbd_thread_start dev garbage s =
     (let s = s \<lparr> ps2_kbd_thread_id := current_thread (ts (kb s)) \<rparr> in
      krun_bind (ps2_flush_output_buffer dev (ports (kb s))) (\<lambda>t.
        kret (\<lparr> k_state = waiting_scancode_start, scancode_i = 0, scancode = garbage \<rparr>, set_ports t s)))"

definition ps2_kbd_thread ::
    "device \<Rightarrow> mm_device \<Rightarrow> (u32 \<Rightarrow> u8 \<Rightarrow> u8 \<Rightarrow> ps2 \<Rightarrow> ps2 krun) \<Rightarrow> (bool \<Rightarrow> u8 \<Rightarrow> u8) \<Rightarrow> (tty \<Rightarrow> grown) \<Rightarrow> u8 \<Rightarrow> u32
     \<Rightarrow> kbd_local \<Rightarrow> ps2 \<Rightarrow> (outcome \<times> kbd_local \<times> ps2) krun" where
  "ps2_kbd_thread dev mdev run past realloc vma_byte now l s =
     krun_bind (on_apic (hal_mask_irq mdev kbd_irq) s) (\<lambda>s.
     krun_bind (kbd_loop dev run past realloc l s) (\<lambda>(l, s).
       case current_thread (ts (kb s)) of
         None \<Rightarrow> kfail NullDeref
       | Some me \<Rightarrow>
           krun_bind (scheduler_make_blocked me (ts (kb s))) (\<lambda>k.
           krun_bind (on_apic (hal_unmask_irq mdev kbd_irq) (set_sched k s)) (\<lambda>s.
           krun_bind (scheduler_yield vma_byte now (ts (kb s))) (\<lambda>(r, k).
             kret (r, l, set_sched k s))))))"

section \<open>Set-up\<close>

text \<open>The ports are tested and enabled with their interrupts; the test of the second port is only run for a controller with two.\<close>

definition enable_ports :: "device \<Rightarrow> u8 \<Rightarrow> bool \<Rightarrow> u8 \<Rightarrow> io \<Rightarrow> io" where
  "enable_ports dev first_port_response is_dual_channel second_port_response t =
     (let t = (if first_port_response = 0 then
                 let t = ps2_write_command enable_first_ps2_port t;
                     (config, t) = ps2_read_config dev t
                 in ps2_write_config (PS2_CTRL_CFG_SET_1ST_PS2_INT_ENABLE config 1) t
               else t)
      in if is_dual_channel \<and> second_port_response = 0 then
           let t = ps2_write_command enable_second_ps2_port t;
               (config, t) = ps2_read_config dev t
           in ps2_write_config (PS2_CTRL_CFG_SET_2ND_PS2_INT_ENABLE config 1) t
         else t)"

definition setup_ports :: "device \<Rightarrow> io \<Rightarrow> io krun" where
  "setup_ports dev t =
     krun_bind (ps2_flush_output_buffer dev
         (ps2_write_command disable_second_ps2_port (ps2_write_command disable_first_ps2_port t))) (\<lambda>t.
       let (config, t) = ps2_read_config dev t;
           is_dual_channel = (PS2_CTRL_CFG_GET_2ND_PS2_CLOCK_DISABLE config \<noteq> 0);
           config = PS2_CTRL_CFG_SET_1ST_PS2_INT_ENABLE config 0;
           config = PS2_CTRL_CFG_SET_2ND_PS2_INT_ENABLE config 0;
           config = PS2_CTRL_CFG_SET_1ST_PS2_TRANSLATION_ENABLE config 0;
           t = ps2_write_command test_first_ps2_port (ps2_write_config config t)
       in krun_bind (ps2_wait_output_buffer_sync dev t) (\<lambda>t.
            let (first_port_response, t) = ps2_read_data dev t in
            if is_dual_channel then
              krun_bind (ps2_wait_output_buffer_sync dev (ps2_write_command test_second_ps2_port t)) (\<lambda>t.
                let (second_port_response, t) = ps2_read_data dev t
                in kret (enable_ports dev first_port_response True second_port_response t))
            else kret (enable_ports dev first_port_response False 0 t)))"

text \<open>
  What ACPI says about the controller is given, as are the addresses of the code and the memory for the driver and
  its thread.
\<close>

definition ps2_init ::
    "device \<Rightarrow> bool \<Rightarrow> bool \<Rightarrow> spawn_args \<Rightarrow> u32 \<Rightarrow> u32 \<Rightarrow> u32 \<Rightarrow> u32 \<Rightarrow> u32 \<Rightarrow> ps2 \<Rightarrow> ps2 krun" where
  "ps2_init dev acpi_tables_loaded acpi_fadt_has_8042 sp entry slow_entry h fast_handler slow_handler s =
     (let s = s \<lparr> ps2_available := (if acpi_tables_loaded then acpi_fadt_has_8042 else True) \<rparr> in
      krun_bind (ps2_probe dev (ports (kb s))) (\<lambda>(r, t).
        let s = set_ports t s;
            s = (if r then s \<lparr> ps2_available := True \<rparr> else s)
        in if \<not> ps2_available s then kret s
           else
             krun_bind (setup_ports dev (ports (kb s))) (\<lambda>t.
               on_hal (hal_install_irq_handler sp entry slow_entry h kbd_irq fast_handler slow_handler ''ps2_kbd'' 0)
                 (set_ports t s))))"

section \<open>Codes\<close>

text \<open>
  The strokes of the keyboard with their codes: a key going down or up, with or without the prefix \<open>0xe0\<close>.
\<close>

datatype stroke = Make u8 | Break u8 | EMake u8 | EBreak u8

fun code :: "stroke \<Rightarrow> u8 list" where
  "code (Make k) = [k]"
| "code (Break k) = [0xF0, k]"
| "code (EMake k) = [0xE0, k]"
| "code (EBreak k) = [0xE0, 0xF0, k]"

fun key_of :: "stroke \<Rightarrow> bool \<times> u8 \<times> bool" where
  "key_of (Make k) = (True, k, False)"
| "key_of (Break k) = (False, k, False)"
| "key_of (EMake k) = (True, k, True)"
| "key_of (EBreak k) = (False, k, True)"

definition valid :: "stroke \<Rightarrow> bool" where
  "valid st \<longleftrightarrow> (let (_, k, _) = key_of st in k \<noteq> 0xE0 \<and> k \<noteq> 0xE1 \<and> k \<noteq> 0xF0)"

definition holds :: "(nat \<Rightarrow> u8) \<Rightarrow> u8 list \<Rightarrow> bool" where
  "holds b xs \<longleftrightarrow> (\<forall>i < length xs. b i = xs ! i)"

lemma holds_simps [simp]:
  "holds b []" "holds b [x] \<longleftrightarrow> b 0 = x" "holds b [x, y] \<longleftrightarrow> b 0 = x \<and> b 1 = y"
  "holds b [x, y, z] \<longleftrightarrow> b 0 = x \<and> b 1 = y \<and> b 2 = z"
  by (simp_all add: holds_def numeral_2_eq_2 numeral_3_eq_3 All_less_Suc conj_ac)

lemma holds_code_key:
  assumes "holds b (code st)" "valid st"
  shows "scancode_key b = key_of st"
  using assms by (cases st) (simp_all add: valid_def scancode_key_def)

lemma complete_code:
  assumes "valid st" "holds b (take n (code st))" "n = 1 \<or> n = 2 \<or> n = 3" "n \<le> length (code st)"
  shows "ps2_kbd_scancode_complete b n \<longleftrightarrow> n = length (code st)"
  using assms(3)
proof (elim disjE)
  assume "n = 1"
  then show ?thesis
    using assms(1,2) by (cases st) (simp_all add: ps2_kbd_scancode_complete_def valid_def)
next
  assume "n = 2"
  then show ?thesis
    using assms(1,2,4) by (cases st) (simp_all add: ps2_kbd_scancode_complete_def valid_def)
next
  assume "n = 3"
  then show ?thesis
    using assms(1,2,4) by (cases st) (simp_all add: ps2_kbd_scancode_complete_def valid_def)
qed

section \<open>The bytes of the data port\<close>

fun reads :: "u16 \<Rightarrow> io \<Rightarrow> nat" where
  "reads p [] = 0"
| "reads p (In q v # t) = (if q = p then Suc (reads p t) else reads p t)"
| "reads p (Out q v # t) = reads p t"

text \<open>
  A controller that delivers the bytes \<open>bs\<close>, one with each read of the data port, and whose status says
  whether there are more.
\<close>

definition delivers :: "device \<Rightarrow> u8 list \<Rightarrow> bool" where
  "delivers dev bs \<longleftrightarrow>
     (\<forall>t. reads PS2_DATA_PORT t < length bs \<longrightarrow> dev t PS2_DATA_PORT = bs ! reads PS2_DATA_PORT t)
     \<and> (\<forall>t. bit (dev t PS2_SC_PORT) 0 \<longleftrightarrow> reads PS2_DATA_PORT t < length bs)"

lemma ports_differ: "PS2_SC_PORT \<noteq> PS2_DATA_PORT"
  by (simp add: PS2_SC_PORT_def PS2_DATA_PORT_def)

lemma output_status_iff: "1 = PS2_STATUS_GET_OUTPUT_BUFFER_STATUS r \<longleftrightarrow> bit r 0"
proof -
  have "PS2_STATUS_GET_OUTPUT_BUFFER_STATUS r = (if bit r 0 then 1 else 0)"
    by (rule bit_word_eqI) (auto simp: PS2_STATUS_GET_OUTPUT_BUFFER_STATUS_def getbit_def bitfield_simps bit_simps)
  then show ?thesis
    by simp
qed

lemma can_read_delivers:
  assumes "delivers dev bs"
  shows "ps2_can_read_data dev t = (reads PS2_DATA_PORT t < length bs, In PS2_SC_PORT (dev t PS2_SC_PORT) # t)"
  using assms by (simp add: ps2_can_read_data_def ps2_read_status_def inb_def output_status_iff delivers_def)

lemma read_data_delivers:
  assumes "delivers dev bs" "reads PS2_DATA_PORT t < length bs"
  shows "ps2_read_data dev t = (bs ! reads PS2_DATA_PORT t, In PS2_DATA_PORT (bs ! reads PS2_DATA_PORT t) # t)"
  using assms by (simp add: ps2_read_data_def inb_def delivers_def)

text \<open>Writing to the console reads no other port than the line status of the serial port.\<close>

lemma spinwait_reads:
  assumes "uart_transmit_fifo_spinwait dev port t = Some t'" "p \<noteq> port + 5"
  shows "reads p t' = reads p t"
proof -
  have "p \<noteq> port + 5 \<longrightarrow> reads p t' = reads p t"
  proof (rule uart_transmit_fifo_spinwait.raw_induct [of "\<lambda>dev port t t'. p \<noteq> port + 5 \<longrightarrow> reads p t' = reads p t"])
    fix f dev port t y
    assume IH: "\<And>dev port t y. f dev port t = Some y \<Longrightarrow> p \<noteq> port + 5 \<longrightarrow> reads p y = reads p t"
      and body: "(if \<not> fst (uart_is_transmit_fifo_empty dev port t) then f dev port (snd (uart_is_transmit_fifo_empty dev port t))
        else Some (snd (uart_is_transmit_fifo_empty dev port t))) = Some y"
    have "p \<noteq> port + 5 \<Longrightarrow> reads p (snd (uart_is_transmit_fifo_empty dev port t)) = reads p t"
      by (simp add: uart_is_transmit_fifo_empty_def uart_read_reg_def inb_def uart_regs Let_def)
    then show "p \<noteq> port + 5 \<longrightarrow> reads p y = reads p t"
      using body IH [of dev port "snd (uart_is_transmit_fifo_empty dev port t)" y] by (auto split: if_splits)
  qed (rule assms)
  then show ?thesis
    using assms(2) by simp
qed

definition unread :: "u16 \<Rightarrow> 'a terminal_scheme \<Rightarrow> bool" where
  "unread p s \<longleftrightarrow> serial_console_port s = 0 \<or> p \<noteq> serial_console_port s + 5"

lemma putchar_reads:
  assumes "terminal_putchar dev c s = Some s'" "unread p s"
  shows "reads p (ports s') = reads p (ports s) \<and> serial_console_port s' = serial_console_port s"
proof -
  define s2 where "s2 = vga_move_cursor (terminal_row (terminal_wrap (terminal_place c s)))
    (terminal_column (terminal_wrap (terminal_place c s))) (terminal_wrap (terminal_place c s))"
  have s2: "reads p (ports s2) = reads p (ports s)" "serial_console_port s2 = serial_console_port s"
    by (simp_all add: s2_def vga_move_cursor_def outb_def Let_def place_wrap_rest)
  have put: "terminal_putchar dev c s = (if serial_console_port s2 \<noteq> 0
      then map_option (\<lambda>t. s2 \<lparr> ports := t \<rparr>) (uart_putc_sync dev (serial_console_port s2) c (ports s2)) else Some s2)"
    by (simp add: terminal_putchar_def s2_def Let_def)
  show ?thesis
    using assms s2 spinwait_reads [of dev "serial_console_port s2" "ports s2" _ p]
    by (auto simp: put unread_def uart_putc_sync_def outb_def split: if_splits)
qed

definition same_reads :: "u16 \<Rightarrow> tty \<Rightarrow> tty \<Rightarrow> bool" where
  "same_reads p s s' \<longleftrightarrow> reads p (ports s') = reads p (ports s) \<and> serial_console_port s' = serial_console_port s"

lemma same_reads_upd [simp]:
  "same_reads p (s \<lparr> tty_lines := x \<rparr>) s' = same_reads p s s'" "same_reads p s (s' \<lparr> tty_lines := x \<rparr>) = same_reads p s s'"
  "same_reads p (s \<lparr> ts := k \<rparr>) s' = same_reads p s s'" "same_reads p s (s' \<lparr> ts := k \<rparr>) = same_reads p s s'"
  "same_reads p s s"
  by (simp_all add: same_reads_def)

lemma same_reads_trans: "same_reads p s s' \<Longrightarrow> same_reads p s' s'' \<Longrightarrow> same_reads p s s''"
  by (simp add: same_reads_def)

lemma unread_upd [simp]: "unread p (s \<lparr> tty_lines := x \<rparr>) = unread p s" "unread p (s \<lparr> ts := k \<rparr>) = unread p s"
  by (simp_all add: unread_def)

lemma put_reads: "tty_put dev c (s \<lparr> tty_lines := x \<rparr>) = kret s' \<Longrightarrow> unread p s \<Longrightarrow> same_reads p s s'"
  using putchar_reads [of dev c "s \<lparr> tty_lines := x \<rparr>" s' p] by (auto simp: tty_put_def kret_def same_reads_def)

lemma reserve_reads: "tty_line_reserve_space r n s = Inr (e, s') \<Longrightarrow> same_reads p s s'"
  by (auto simp: tty_line_reserve_space_def tty_line_write_space_available_def split: option.splits if_splits)

lemma bind_Some_eq_kret: "Some m = kret x \<longleftrightarrow> m = Inr x"
  by (simp add: kret_def)

lemma append_reads:
  assumes "tty_line_append_char dev r c s = kret (e, s')" "unread p s"
  shows "same_reads p s s'"
proof (cases "c = 8")
  case True
  then show ?thesis
    using assms put_reads [of dev c _ _ s' p]
    by (auto simp: tty_line_append_char_def krun_bind_eq_kret split: option.splits if_splits)
next
  case False
  then obtain e1 s1 where res: "tty_line_reserve_space r 1 s = Inr (e1, s1)"
    and rest: "(if e1 \<noteq> 0 then kret (-1, s1) else
      krun_bind (Some (tty_line_write_space_available (tty_lines s1))) (\<lambda>space.
        krun_bind (krun_assert (space > 0) ''tty_line_write_space_available(line) > 0'') (\<lambda>_.
          case tty_lines s1 of None \<Rightarrow> kfail NullDeref
          | Some l \<Rightarrow> krun_bind (tty_put dev c (s1 \<lparr> tty_lines := Some (l \<lparr>
                      tl_bytes := (tl_bytes l)(unat (write_pos l) := c),
                      write_pos := write_pos l + 1, tl_length := tl_length l + 1 \<rparr>) \<rparr>)) (\<lambda>s. kret (0, s))))) = kret (e, s')"
    using assms(1) by (auto simp: tty_line_append_char_def krun_bind_eq_kret) (auto simp: kret_def)
  have "same_reads p s s1"
    by (rule reserve_reads [OF res])
  moreover have "unread p s1"
    using calculation assms(2) by (simp add: same_reads_def unread_def)
  ultimately show ?thesis
    using rest put_reads [of dev c _ _ s' p] same_reads_trans [of p s s1 s']
    by (auto simp: krun_bind_eq_kret split: option.splits if_splits)
qed

lemma notify_reads:
  assumes "notify_from elt s = kret s'"
  shows "same_reads p s s'"
proof -
  let ?P = "\<lambda>(elt :: u32 option) s (z :: tty kres). \<forall>s'. z = Inr s' \<longrightarrow> same_reads p s s'"
  have "?P elt s (Inr s')"
  proof (rule notify_from.raw_induct [of ?P])
    fix f :: "u32 option \<Rightarrow> tty \<Rightarrow> tty krun" and elt s z
    assume IH: "\<And>elt s z. f elt s = Some z \<Longrightarrow> ?P elt s z"
      and body: "(case elt of None \<Rightarrow> kret s
        | Some e \<Rightarrow> (case o_thread s e of None \<Rightarrow> kfail NullDeref
           | Some t \<Rightarrow> (case scheduler_make_runnable t (ts s) of
               None \<Rightarrow> None | Some (Inl er) \<Rightarrow> kfail er | Some (Inr k) \<Rightarrow> f (o_next s e) (s \<lparr> ts := k \<rparr>)))) = Some z"
    show "?P elt s z"
    proof (cases elt)
      case None
      then show ?thesis
        using body by (auto simp: kret_def)
    next
      case (Some e)
      show ?thesis
      proof (cases "o_thread s e")
        case None
        then show ?thesis
          using body Some by (auto simp: kfail_def)
      next
        fix t assume t: "o_thread s e = Some t"
        have "f (o_next s e) (s \<lparr> ts := k \<rparr>) = Some z \<Longrightarrow> ?P elt s z" for k
          using IH [of "o_next s e" "s \<lparr> ts := k \<rparr>" z] by simp
        then show ?thesis
          using body Some t
          by (cases "scheduler_make_runnable t (ts s)" rule: krun_cases) (auto simp: kfail_def kret_def)
      qed
    qed
  qed (use assms in \<open>simp add: kret_def\<close>)
  then show ?thesis
    by simp
qed

lemma send_reads:
  assumes "tty_send_key_event dev r e s = kret s'" "unread p s"
  shows "same_reads p s s'"
proof (cases "event_type e = tty_key_down \<and> (mod_keys e = 0 \<or> mod_keys e = tty_mod_shift)")
  case True
  show ?thesis
  proof (cases "character e = TTY_NEW_LINE_CHAR")
    case nl: True
    then obtain x where n: "tty_line_newline dev r s = kret (x, s')"
      using assms(1) True by (auto simp: tty_send_key_event_def krun_bind_eq_kret)
    then obtain e1 s1 where a: "tty_line_append_char dev r 10 s = kret (e1, s1)"
      and rest: "e1 \<noteq> 0 \<and> s' = s1 \<or> (\<exists>s2. tty_compact_buffer s1 = Inr s2 \<and> notify_from (observers s2) s2 = kret s')"
      by (auto simp: tty_line_newline_def tty_notify_chars_available_def krun_bind_eq_kret bind_Some_eq_kret split: if_splits)
    have "same_reads p s1 s'"
      using rest by (auto simp: tty_compact_buffer_def dest!: notify_reads [where p = p] split: option.splits)
    then show ?thesis
      using append_reads [OF a assms(2)] same_reads_trans by blast
  next
    case False
    then show ?thesis
      using assms True append_reads by (auto simp: tty_send_key_event_def krun_bind_eq_kret)
  qed
next
  case False
  then show ?thesis
    using assms(1) by (auto simp: tty_send_key_event_def split: if_splits)
qed

end
