(* ===== verification/Keyboard.thy ===== *)
theory Keyboard
  imports Ps2
begin

text \<open>
  From the codes of the keyboard to the lines of the console: the inner loop of the keyboard thread takes the codes that the
  controller delivers apart into strokes, and what the reader of the console gets is what the strokes mean.
\<close>

section \<open>One stroke\<close>

lemma kbd_loop_unfold:
  "kbd_loop dev run past realloc l s =
     krun_bind (kbd_step dev run past realloc l s) (\<lambda>(done, l, s).
       if done then kret (l, s) else kbd_loop dev run past realloc l s)"
  by (subst kbd_loop.simps) (simp add: krun_bind_def kfail_def split: option.splits sum.splits prod.splits)

definition next_turn ::
    "device \<Rightarrow> (u32 \<Rightarrow> u8 \<Rightarrow> u8 \<Rightarrow> ps2 \<Rightarrow> ps2 krun) \<Rightarrow> (bool \<Rightarrow> u8 \<Rightarrow> u8) \<Rightarrow> (tty \<Rightarrow> grown)
     \<Rightarrow> kbd_local \<Rightarrow> ps2 \<Rightarrow> (kbd_local \<times> ps2) krun" where
  "next_turn dev run past realloc l s =
     (let (more, t) = ps2_can_read_data dev (ports (kb s))
      in if more then kbd_loop dev run past realloc l (set_ports t s) else kret (l, set_ports t s))"

text \<open>The thread has read \<open>i\<close> bytes of the code of the stroke.\<close>

definition at_code :: "stroke \<Rightarrow> nat \<Rightarrow> kbd_local \<Rightarrow> bool" where
  "at_code st i l \<longleftrightarrow>
     (if i = 0 then k_state l = waiting_scancode_start
      else k_state l = waiting_scancode_end \<and> scancode_i l = i \<and> holds (scancode l) (take i (code st)))"

lemma holds_snoc: "holds b (take i xs) \<Longrightarrow> i < length xs \<Longrightarrow> holds (b(i := xs ! i)) (take (Suc i) xs)"
  by (auto simp: holds_def less_Suc_eq)

lemma code_nonempty [simp]: "code st \<noteq> []"
  by (cases st) simp_all

lemma code_length: "i < length (code st) \<Longrightarrow> Suc i = 1 \<or> Suc i = 2 \<or> Suc i = 3"
  by (cases st) auto

lemma set_ports_simps [simp]:
  "set_ports t (set_ports t' s) = set_ports t s" "ports (kb (set_ports t s)) = t"
  "ps2_kbd_mod_state (set_ports t s) = ps2_kbd_mod_state s"
  by (simp_all add: set_ports_def)

lemma step_code:
  assumes dev: "delivers dev bs" and m: "reads PS2_DATA_PORT (ports (kb s)) = m + i" "drop m bs = code st @ rest"
    and st: "valid st" "i < length (code st)" "at_code st i l"
  shows "kbd_step dev run past realloc l s =
    (let l' = l \<lparr> scancode := (scancode l)(i := code st ! i), scancode_i := Suc i \<rparr>;
         s' = set_ports (In PS2_DATA_PORT (code st ! i) # ports (kb s)) s
     in krun_bind (if Suc i = length (code st)
                   then krun_bind (handle_key dev past realloc (key_of st) s') (\<lambda>s. kret (l' \<lparr> k_state := waiting_scancode_start \<rparr>, s))
                   else kret (l' \<lparr> k_state := waiting_scancode_end \<rparr>, s'))
          (\<lambda>(l, s). let (more, t) = ps2_can_read_data dev (ports (kb s)) in kret (\<not> more, l, set_ports t s)))"
proof -
  define b where "b = (scancode l)(i := code st ! i)"
  have lt: "m + i < length bs" and nth: "bs ! (m + i) = code st ! i"
  proof -
    have "length bs - m = length (code st) + length rest"
      using arg_cong [OF m(2), of length] by simp
    then show "m + i < length bs"
      using st(2) by simp
    then show "bs ! (m + i) = code st ! i"
      using arg_cong [OF m(2), of "\<lambda>xs. xs ! i"] st(2) by (simp add: nth_append)
  qed
  have h: "holds b (take (Suc i) (code st))"
    using st(2,3) holds_snoc [of "scancode l" i "code st"]
    by (cases "i = 0") (auto simp: at_code_def b_def holds_def)
  have complete: "ps2_kbd_scancode_complete b (Suc i) \<longleftrightarrow> Suc i = length (code st)"
    using complete_code [OF st(1) h code_length [OF st(2)]] st(2) by simp
  have key: "Suc i = length (code st) \<Longrightarrow> scancode_key b = key_of st"
    using holds_code_key [of b st] h st(1) by simp
  have read: "ps2_read_data dev (ports (kb s)) = (code st ! i, In PS2_DATA_PORT (code st ! i) # ports (kb s))"
    using read_data_delivers [OF dev, of "ports (kb s)"] m(1) lt nth by simp
  show ?thesis
  proof (cases "i = 0")
    case True
    then show ?thesis
      using st(2,3) complete [unfolded b_def] key [unfolded b_def] True
      by (cases l; cases "Suc 0 = length (code st)") (auto simp: kbd_step_def at_code_def read ps2_kbd_handle_scancode_def Let_def)
  next
    case False
    then show ?thesis
      using st(2,3) complete [unfolded b_def] key [unfolded b_def] False
      by (cases l; cases "Suc i = length (code st)") (auto simp: kbd_step_def at_code_def read ps2_kbd_handle_scancode_def Let_def)
  qed
qed

lemma stroke_loop:
  assumes "delivers dev bs" "reads PS2_DATA_PORT (ports (kb s)) = m + i" "drop m bs = code st @ rest"
    "valid st" "i < length (code st)" "at_code st i l"
  shows "\<exists>l' t. k_state l' = waiting_scancode_start \<and> reads PS2_DATA_PORT t = m + length (code st)
    \<and> kbd_loop dev run past realloc l s =
        krun_bind (handle_key dev past realloc (key_of st) (set_ports t s)) (next_turn dev run past realloc l')"
  using assms(2,5,6)
proof (induction "length (code st) - i" arbitrary: i l s rule: less_induct)
  case less
  let ?b = "code st ! i"
  define l' where "l' = l \<lparr> scancode := (scancode l)(i := ?b), scancode_i := Suc i \<rparr>"
  define t where "t = In PS2_DATA_PORT ?b # ports (kb s)"
  have t: "reads PS2_DATA_PORT t = m + Suc i"
    using less.prems(1) by (simp add: t_def)
  note step = step_code [OF assms(1) less.prems(1) assms(3,4) less.prems(2,3), of run past realloc,
      folded l'_def t_def, unfolded Let_def, folded l'_def t_def]
  show ?case
  proof (cases "Suc i = length (code st)")
    case True
    have "kbd_loop dev run past realloc l s =
        krun_bind (handle_key dev past realloc (key_of st) (set_ports t s))
          (next_turn dev run past realloc (l' \<lparr> k_state := waiting_scancode_start \<rparr>))"
      by (subst kbd_loop_unfold, subst step, cases "handle_key dev past realloc (key_of st) (set_ports t s)" rule: krun_cases)
        (simp_all add: True next_turn_def split: prod.splits)
    then show ?thesis
      using t True by (intro exI [of _ "l' \<lparr> k_state := waiting_scancode_start \<rparr>"] exI [of _ t]) simp
  next
    case False
    define t' where "t' = In PS2_SC_PORT (dev t PS2_SC_PORT) # t"
    have t': "reads PS2_DATA_PORT t' = m + Suc i"
      using t ports_differ by (simp add: t'_def)
    have "m + Suc i < length bs"
      using arg_cong [OF assms(3), of length] less.prems(2) False by simp
    then have "ps2_can_read_data dev t = (True, t')"
      using can_read_delivers [OF assms(1), of t] t by (simp add: t'_def)
    then have loop: "kbd_loop dev run past realloc l s =
        kbd_loop dev run past realloc (l' \<lparr> k_state := waiting_scancode_end \<rparr>) (set_ports t' s)"
      by (subst kbd_loop_unfold, subst step) (simp add: False)
    have "at_code st (Suc i) (l' \<lparr> k_state := waiting_scancode_end \<rparr>)"
      using less.prems(2,3) holds_snoc [of "scancode l" i "code st"]
      by (cases "i = 0") (auto simp: at_code_def l'_def holds_def)
    then show ?thesis
      using less.hyps [of "Suc i" "set_ports t' s" "l' \<lparr> k_state := waiting_scancode_end \<rparr>"] less.prems(2) False t'
      by (auto simp: loop)
  qed
qed

section \<open>What strokes mean\<close>

definition key_effect :: "(bool \<Rightarrow> u8 \<Rightarrow> u8) \<Rightarrow> u32 \<Rightarrow> bool \<times> u8 \<times> bool \<Rightarrow> u32 \<times> tty_key_event option" where
  "key_effect past m what =
     (let (down, key, e0) = what
      in if key = PS2_SC_ALT then (withbit m (if e0 then ps2_kbd_right_alt else ps2_kbd_left_alt) (bit_value down), None)
         else if key = PS2_SC_CTRL then (withbit m (if e0 then ps2_kbd_right_ctrl else ps2_kbd_left_ctrl) (bit_value down), None)
         else if key = PS2_SC_LEFT_SHIFT then (withbit m ps2_kbd_left_shift (bit_value down), None)
         else if key = PS2_SC_RIGHT_SHIFT then (withbit m ps2_kbd_right_shift (bit_value down), None)
         else (m, key_event_of past m down key))"

fun mods_after :: "(bool \<Rightarrow> u8 \<Rightarrow> u8) \<Rightarrow> u32 \<Rightarrow> stroke list \<Rightarrow> u32" where
  "mods_after past m [] = m"
| "mods_after past m (st # sts) = mods_after past (fst (key_effect past m (key_of st))) sts"

text \<open>The characters that strokes type, without the keys that go up or come with control or alt.\<close>

definition typed_char :: "tty_key_event option \<Rightarrow> u8 list" where
  "typed_char ev = (case ev of None \<Rightarrow> [] | Some e \<Rightarrow> if pressed e then [character e] else [])"

fun typed_chars :: "(bool \<Rightarrow> u8 \<Rightarrow> u8) \<Rightarrow> u32 \<Rightarrow> stroke list \<Rightarrow> u8 list" where
  "typed_chars past m [] = []"
| "typed_chars past m (st # sts) =
     (let (m', ev) = key_effect past m (key_of st) in typed_char ev @ typed_chars past m' sts)"

lemma handle_key_effect:
  "handle_key dev past realloc what s =
     (let (m, ev) = key_effect past (ps2_kbd_mod_state s) what in
      case ev of None \<Rightarrow> kret (s \<lparr> ps2_kbd_mod_state := m \<rparr>)
      | Some e \<Rightarrow> krun_bind (tty_send_key_event dev (realloc (kb s)) e (kb s)) (\<lambda>c. kret (s \<lparr> kb := c \<rparr>)))"
  by (cases what) (auto simp: handle_key_def key_effect_def Let_def split: option.splits)

lemma typing_ports [simp]: "typing dev n xs (c \<lparr> ports := t \<rparr>) = typing dev n xs c"
  by (simp add: typing_def displays_def display_ok_def)

lemma typing_Suc: "typing dev n xs c \<Longrightarrow> typing dev (Suc n) xs c"
  by (auto simp: typing_def)

lemma unread_ports [simp]: "unread p (c \<lparr> ports := t \<rparr>) = unread p c"
  by (simp add: unread_def)

lemma effect_Some_mods: "key_effect past m what = (m', Some e) \<Longrightarrow> m' = m"
  by (auto simp: key_effect_def split: prod.splits if_splits)

lemma handle_key_types:
  assumes "typing dev n xs (kb s)" "n < 2 ^ 30" "unread p (kb s)" "\<And>c. grows (realloc c)"
    "key_effect past (ps2_kbd_mod_state s) what = (m, ev)" "10 \<notin> set (typed_char ev)"
  shows "\<exists>s'. handle_key dev past realloc what s = kret s' \<and> typing dev (Suc n) (foldl edit xs (typed_char ev)) (kb s')
    \<and> ps2_kbd_mod_state s' = m \<and> reads p (ports (kb s')) = reads p (ports (kb s)) \<and> unread p (kb s')"
proof (cases ev)
  case None
  then show ?thesis
    using assms(1,3,5) by (simp add: handle_key_effect typed_char_def typing_Suc)
next
  case (Some e)
  have m: "m = ps2_kbd_mod_state s"
    using assms(5) Some by (auto dest: effect_Some_mods)
  show ?thesis
  proof (cases "pressed e")
    case True
    then obtain c where c: "tty_send_key_event dev (realloc (kb s)) e (kb s) = kret c" "typing dev (Suc n) (edit xs (character e)) c"
      using typing_key [OF assms(1,2) True assms(4)] assms(6) Some by (auto simp: typed_char_def)
    have "same_reads p (kb s) c"
      by (rule send_reads [OF c(1) assms(3)])
    then show ?thesis
      using c assms(3,5) Some True m by (auto simp: handle_key_effect typed_char_def same_reads_def unread_def)
  next
    case False
    then have "tty_send_key_event dev (realloc (kb s)) e (kb s) = kret (kb s)"
      by (auto simp: tty_send_key_event_def pressed_def)
    then show ?thesis
      using assms(1,3,5) Some False m by (simp add: handle_key_effect typed_char_def typing_Suc)
  qed
qed

section \<open>A line of strokes\<close>

lemma kb_set_ports [simp]: "kb (set_ports t s) = (kb s) \<lparr> ports := t \<rparr>"
  by (simp add: set_ports_def)

lemma strokes_loop:
  assumes dev: "delivers dev bs" and grow: "\<And>c. grows (realloc c)" and rest: "rest \<noteq> []"
    and "k_state l = waiting_scancode_start" "reads PS2_DATA_PORT (ports (kb s)) = m"
    and "drop m bs = concat (map code sts) @ rest" "list_all valid sts"
    and "typing dev n xs (kb s)" "n + length sts < 2 ^ 30" "unread PS2_DATA_PORT (kb s)"
    and "10 \<notin> set (typed_chars past (ps2_kbd_mod_state s) sts)"
  shows "\<exists>l' s'. kbd_loop dev run past realloc l s = kbd_loop dev run past realloc l' s'
    \<and> k_state l' = waiting_scancode_start \<and> reads PS2_DATA_PORT (ports (kb s')) = m + length (concat (map code sts))
    \<and> typing dev (n + length sts) (foldl edit xs (typed_chars past (ps2_kbd_mod_state s) sts)) (kb s')
    \<and> ps2_kbd_mod_state s' = mods_after past (ps2_kbd_mod_state s) sts \<and> unread PS2_DATA_PORT (kb s')"
  using assms(4-)
proof (induction sts arbitrary: l s m n xs)
  case Nil
  then show ?case
    by auto
next
  case (Cons st sts)
  obtain m' ev where ev: "key_effect past (ps2_kbd_mod_state s) (key_of st) = (m', ev)"
    by fastforce
  obtain l1 t where l1: "k_state l1 = waiting_scancode_start" and t: "reads PS2_DATA_PORT t = m + length (code st)"
    and loop: "kbd_loop dev run past realloc l s =
      krun_bind (handle_key dev past realloc (key_of st) (set_ports t s)) (next_turn dev run past realloc l1)"
    using stroke_loop [OF dev, of s m 0 st "concat (map code sts) @ rest" l run past realloc] Cons.prems
    by (auto simp: at_code_def)
  obtain s1 where s1: "handle_key dev past realloc (key_of st) (set_ports t s) = kret s1"
      "typing dev (Suc n) (foldl edit xs (typed_char ev)) (kb s1)" "ps2_kbd_mod_state s1 = m'"
      "reads PS2_DATA_PORT (ports (kb s1)) = m + length (code st)" "unread PS2_DATA_PORT (kb s1)"
    using handle_key_types [of dev n xs "set_ports t s" PS2_DATA_PORT realloc past "key_of st" m' ev] Cons.prems grow ev t
    by auto
  define t1 where "t1 = In PS2_SC_PORT (dev (ports (kb s1)) PS2_SC_PORT) # ports (kb s1)"
  have drop: "drop (m + length (code st)) bs = concat (map code sts) @ rest"
    using arg_cong [OF Cons.prems(3), of "drop (length (code st))"] by (simp add: add.commute)
  then have "m + length (code st) < length bs"
    using rest by (metis append_is_Nil_conv drop_all not_le)
  then have "next_turn dev run past realloc l1 s1 = kbd_loop dev run past realloc l1 (set_ports t1 s1)"
    using s1(4) by (simp add: next_turn_def can_read_delivers [OF dev] t1_def)
  then have "kbd_loop dev run past realloc l s = kbd_loop dev run past realloc l1 (set_ports t1 s1)"
    using loop s1(1) by simp
  moreover have "reads PS2_DATA_PORT t1 = m + length (code st)"
    using s1(4) ports_differ by (simp add: t1_def)
  moreover have "10 \<notin> set (typed_chars past m' sts)"
    using Cons.prems(8) ev by simp
  ultimately show ?case
    using Cons.IH [of l1 "set_ports t1 s1" "m + length (code st)" "Suc n" "foldl edit xs (typed_char ev)"] l1 s1 drop Cons.prems ev
    by (auto simp: add.assoc)
qed

text \<open>Keys within the tables.\<close>

definition plain :: "stroke \<Rightarrow> bool" where
  "plain st \<longleftrightarrow> fst (snd (key_of st)) \<le> 127"

lemma plain_valid: "plain st \<Longrightarrow> valid st"
  by (cases st) (auto simp: plain_def valid_def)

lemma tables:
  "length ps2_kbd_scancodes_set_2_en_gb = 128" "length ps2_kbd_scancodes_set_2_en_gb_shift = 128"
  "list_all (\<lambda>c. \<not> bit c 7) ps2_kbd_scancodes_set_2_en_gb" "list_all (\<lambda>c. \<not> bit c 7) ps2_kbd_scancodes_set_2_en_gb_shift"
  by (simp_all add: ps2_kbd_scancodes_set_2_en_gb_def ps2_kbd_scancodes_set_2_en_gb_shift_def)

lemma sint_nonneg_u8: "\<not> bit (c :: u8) 7 \<Longrightarrow> 0 \<le> sint c"
  by (simp add: sint_uint signed_take_bit_eq_if_positive bit_uint_iff)

lemma entry_of_nonneg:
  assumes "key \<le> 127" "length table = 128" "list_all (\<lambda>c. \<not> bit c 7) table"
  shows "0 \<le> sint (entry_of table beyond key)"
proof -
  have "unat key < 128"
    using assms(1) by (simp add: word_le_nat_alt)
  then show ?thesis
    using assms by (intro sint_nonneg_u8) (simp add: entry_of_def list_all_length)
qed

lemma key_event_nonneg:
  assumes "key_event_of past m down key = Some e" "key \<le> 127"
  shows "0 \<le> sint (character e)"
  using assms entry_of_nonneg [OF assms(2) tables(1,3)] entry_of_nonneg [OF assms(2) tables(2,4)]
  by (auto simp: key_event_of_def Let_def split: if_splits)

lemma typed_chars_nonneg: "list_all plain sts \<Longrightarrow> c \<in> set (typed_chars past m sts) \<Longrightarrow> 0 \<le> sint c"
proof (induction sts arbitrary: m)
  case (Cons st sts)
  obtain down key e0 where k: "key_of st = (down, key, e0)"
    by (cases "key_of st")
  have "0 \<le> sint (character e)" if "key_effect past m (key_of st) = (m', Some e)" for m' e
    using that key_event_nonneg [of past m down key e] Cons.prems(1)
    by (auto simp: k key_effect_def plain_def split: if_splits)
  then show ?case
    using Cons by (cases "key_effect past m (key_of st)") (auto simp: typed_char_def split: option.splits if_splits)
qed simp

lemma enter_effect:
  assumes "\<not> ps2_kbd_mod_ctrl_pressed m" "\<not> ps2_kbd_mod_alt_pressed m"
  shows "key_effect past m (key_of (Make 0x5A)) = (m, Some \<lparr> event_type = tty_key_down, character = 10, mod_keys = 0 \<rparr>)"
proof -
  have "entry_of ps2_kbd_scancodes_set_2_en_gb b 0x5A = 10" "entry_of ps2_kbd_scancodes_set_2_en_gb_shift b 0x5A = 10" for b
    by (simp_all add: entry_of_def ps2_kbd_scancodes_set_2_en_gb_def ps2_kbd_scancodes_set_2_en_gb_shift_def)
  then show ?thesis
    using assms by (simp add: key_effect_def key_event_of_def PS2_SC_ALT_def PS2_SC_CTRL_def PS2_SC_LEFT_SHIFT_def PS2_SC_RIGHT_SHIFT_def)
qed

text \<open>
  From the keyboard to the reader.  On a fresh console, when the controller delivers the codes of any strokes of
  keys within the tables, with shifts, releases and backspaces, and then that of enter, the loop of the keyboard thread takes all of
  them and ends at the start of a code.  Reading a line from the console then gives the characters
  that the strokes type, after editing, with the newline.
\<close>

theorem keyboard_to_reader:
  assumes "tty_init p c0 = Inr (kb s)" "display_ok dev c0 q" "unread PS2_DATA_PORT (kb s)"
    and "delivers dev bs" "drop (reads PS2_DATA_PORT (ports (kb s))) bs = concat (map code (sts @ [Make 0x5A]))"
    and "list_all plain sts" "length sts < 2 ^ 30" "k_state l = waiting_scancode_start" "\<And>c. grows (realloc c)"
    and "m = mods_after past (ps2_kbd_mod_state s) sts" "\<not> ps2_kbd_mod_ctrl_pressed m" "\<not> ps2_kbd_mod_alt_pressed m"
    and "cs = typed_chars past (ps2_kbd_mod_state s) sts" "10 \<notin> set cs"
    and "line = foldl edit [] cs" "length line < unat maxlength"
  shows "\<exists>l' s1 c. kbd_loop dev run past realloc l s = kret (l', s1) \<and> k_state l' = waiting_scancode_start
    \<and> tty_gets vma_byte now obs maxlength (kb s1) = kret (Read (1 + int (length line)) (line @ [10]), c)"
proof -
  have fresh: "typing dev 0 [] (kb s)"
    by (rule init_typing [OF assms(1,2)])
  define k where "k = reads PS2_DATA_PORT (ports (kb s))"
  have v: "list_all valid sts"
    using assms(6) plain_valid by (auto simp: list_all_iff)
  have d: "drop k bs = concat (map code sts) @ [0x5A]"
    using assms(5) by (simp add: k_def)
  obtain l1 s1 where a: "kbd_loop dev run past realloc l s = kbd_loop dev run past realloc l1 s1"
      "k_state l1 = waiting_scancode_start" "reads PS2_DATA_PORT (ports (kb s1)) = k + length (concat (map code sts))"
      "typing dev (length sts) line (kb s1)" "ps2_kbd_mod_state s1 = m" "unread PS2_DATA_PORT (kb s1)"
    using strokes_loop [where realloc = realloc and past = past and run = run,
        OF assms(4,9) _ assms(8) k_def [symmetric] d v fresh _ assms(3)] assms(7,10,13,14,15) by auto
  have d1: "drop (k + length (concat (map code sts))) bs = code (Make 0x5A) @ []"
    using arg_cong [OF d, of "drop (length (concat (map code sts)))"] by (simp add: add.commute)
  obtain l2 t where b: "k_state l2 = waiting_scancode_start" "reads PS2_DATA_PORT t = k + length (concat (map code sts)) + 1"
    "kbd_loop dev run past realloc l1 s1 =
      krun_bind (handle_key dev past realloc (key_of (Make 0x5A)) (set_ports t s1)) (next_turn dev run past realloc l2)"
    using stroke_loop [OF assms(4) _ d1, of s1 0 l1 run past realloc] a(2,3) by (auto simp: at_code_def valid_def)
  obtain c l3 where e: "tty_line_newline dev (realloc (kb (set_ports t s1))) (kb (set_ports t s1)) = kret (0, c)"
    "tty_lines c = Some l3" "line_ok l3" "pending l3 = line @ [10]"
    using typing_newline [of dev "length sts" line "kb (set_ports t s1)" "realloc (kb (set_ports t s1))"] a(4) assms(7,9) by auto
  then have send: "tty_send_key_event dev (realloc (kb (set_ports t s1)))
      \<lparr> event_type = tty_key_down, character = 10, mod_keys = 0 \<rparr> (kb (set_ports t s1)) = kret c"
    by (simp add: tty_send_key_event_def TTY_NEW_LINE_CHAR_def)
  have "same_reads PS2_DATA_PORT (kb (set_ports t s1)) c"
    by (rule send_reads [OF send]) (use a(6) in simp)
  then have "\<not> reads PS2_DATA_PORT (ports c) < length bs"
    using b(2) arg_cong [OF d, of length] by (simp add: same_reads_def)
  then obtain t' where "kbd_loop dev run past realloc l s = kret (l2, set_ports t' (set_ports t s1 \<lparr> kb := c \<rparr>))"
    using a(1) b(3) send enter_effect [OF assms(11,12), of past] a(5)
    by (simp add: handle_key_effect next_turn_def can_read_delivers [OF assms(4)])
  moreover have "10 \<notin> set line" "list_all (\<lambda>c. 0 \<le> sint c) line"
    using set_edit [of "[]" cs] assms(13-15) typed_chars_nonneg [OF assms(6)] by (auto simp: list_all_iff)
  then have "\<exists>c'. gets_loop vma_byte now obs (unat maxlength) 0 [] (c \<lparr> ports := t' \<rparr>) = kret (Read (1 + int (length line)) (line @ [10]), c')"
    using gets_line [of "c \<lparr> ports := t' \<rparr>" l3 line "[]" "unat maxlength" 0 vma_byte now obs "[]"] e assms(16) by simp
  ultimately show ?thesis
    using b(1) by (auto simp: tty_gets_def)
qed

text \<open>Typing \<open>Hi\<close>, with the shift key and the releases, on the console of the demonstration.\<close>

definition demo_strokes :: "stroke list" where
  "demo_strokes = [Make 0x12, Make 0x33, Break 0x33, Break 0x12, Make 0x43, Break 0x43]"

definition demo_bytes :: "u8 list" where
  "demo_bytes = [0x12, 0x33, 0xF0, 0x33, 0xF0, 0x12, 0x43, 0xF0, 0x43, 0x5A]"

definition demo_kbd :: device where
  "demo_kbd t p =
     (if p = PS2_DATA_PORT then (if reads PS2_DATA_PORT t < 10 then demo_bytes ! reads PS2_DATA_PORT t else 0)
      else if p = PS2_SC_PORT then (if reads PS2_DATA_PORT t < 10 then 1 else 0) else 0x20)"

definition demo_ps2 :: "tty \<Rightarrow> ps2" where
  "demo_ps2 c = \<lparr> kb = c, khal = demo_hal, ps2_available = True, ps2_free_commands = None, ps2_kbd_command_queue = None,
     pc = (\<lambda>_. \<lparr> pc_cmd = 0, pc_data = 0, pc_send_data = False, pc_callback = 0 \<rparr>), pc_next = (\<lambda>_. None), pc_prev = (\<lambda>_. None),
     ps2_kbd_thread_id = None, ps2_kbd_mod_state = 0 \<rparr>"

definition demo_local :: kbd_local where
  "demo_local = \<lparr> k_state = waiting_scancode_start, scancode_i = 0, scancode = (\<lambda>_. 0) \<rparr>"

lemma demo_mods:
  "mods_after past 0 demo_strokes = 0" "typed_chars past 0 demo_strokes = [72, 105]"
proof -
  have w: "withbit 0 (Suc 0) 1 = (2 :: u32)" "withbit 2 (Suc 0) 0 = (0 :: u32)"
    by (simp_all add: withbit_def withbits_def bitmask_def mask_eq_exp_minus_1)
  have p: "ps2_kbd_mod_shift_pressed 2" "\<not> ps2_kbd_mod_shift_pressed 0" "\<not> ps2_kbd_mod_ctrl_pressed 2" "\<not> ps2_kbd_mod_ctrl_pressed 0"
    "\<not> ps2_kbd_mod_alt_pressed 2" "\<not> ps2_kbd_mod_alt_pressed 0"
    by (simp_all add: ps2_kbd_mod_shift_pressed_def ps2_kbd_mod_ctrl_pressed_def ps2_kbd_mod_alt_pressed_def getbit_def getbits_def
        bitmask_def ps2_kbd_left_shift_def ps2_kbd_right_shift_def ps2_kbd_left_ctrl_def ps2_kbd_right_ctrl_def ps2_kbd_left_alt_def
        ps2_kbd_right_alt_def mask_eq_exp_minus_1)
  have e: "entry_of ps2_kbd_scancodes_set_2_en_gb_shift b 0x33 = 72" "entry_of ps2_kbd_scancodes_set_2_en_gb b 0x33 = 104"
    "entry_of ps2_kbd_scancodes_set_2_en_gb b 0x43 = 105" for b
    by (simp_all add: entry_of_def ps2_kbd_scancodes_set_2_en_gb_def ps2_kbd_scancodes_set_2_en_gb_shift_def)
  have ev: "key_event_of past 2 d 0x33 = Some \<lparr> event_type = (if d then tty_key_down else tty_key_up), character = 72, mod_keys = 0 \<rparr>"
    "key_event_of past 0 d 0x43 = Some \<lparr> event_type = (if d then tty_key_down else tty_key_up), character = 105, mod_keys = 0 \<rparr>" for d
    by (simp_all add: key_event_of_def p e)
  have k: "key_effect past 0 (True, 0x12, False) = (2, None)" "key_effect past 2 (False, 0x12, False) = (0, None)"
    "key_effect past 2 (d, 0x33, False) = (2, key_event_of past 2 d 0x33)"
    "key_effect past 0 (d, 0x43, False) = (0, key_event_of past 0 d 0x43)" for d
    by (simp_all add: key_effect_def bit_value_def w PS2_SC_ALT_def PS2_SC_CTRL_def PS2_SC_LEFT_SHIFT_def PS2_SC_RIGHT_SHIFT_def
        ps2_kbd_left_shift_def)
  show "mods_after past 0 demo_strokes = 0" "typed_chars past 0 demo_strokes = [72, 105]"
    by (simp_all add: demo_strokes_def k ev typed_char_def pressed_def)
qed

theorem keyboard_to_reader_witness:
  "\<exists>c0 l s1 c. tty_init 0xC0300000 demo_tty = Inr c0
    \<and> kbd_loop demo_kbd (\<lambda>_ _ _ s. kret s) (\<lambda>_ _. 0) (\<lambda>_. Some (0xD0000000, \<lambda>_. 0)) demo_local (demo_ps2 c0) = kret (l, s1)
    \<and> tty_gets 0 0 0 80 (kb s1) = kret (Read 3 [72, 105, 10], c)"
proof -
  obtain c0 where i: "tty_init 0xC0300000 demo_tty = Inr c0"
    by (simp add: tty_init_def tty_line_alloc_def)
  have port: "serial_console_port demo_tty = 0x3f8" "ports demo_tty = []"
    using initialize_shows [of demo_terminal] by (simp_all add: demo_tty_def terminal.defs) (simp_all add: demo_terminal_def)
  then have c0: "ports c0 = []" "serial_console_port c0 = 0x3f8"
    using i by (auto simp: tty_init_def tty_line_alloc_def)
  have d: "display_ok demo_kbd demo_tty ([], [])"
    using demo_tty_display port
    by (simp add: display_ok_def serial_ok_def eventually_ready_def demo_kbd_def PS2_DATA_PORT_def PS2_SC_PORT_def)
  have del: "delivers demo_kbd demo_bytes"
    by (simp add: delivers_def demo_kbd_def demo_bytes_def PS2_SC_PORT_def PS2_DATA_PORT_def)
  have "\<not> ps2_kbd_mod_ctrl_pressed 0" "\<not> ps2_kbd_mod_alt_pressed 0"
    by (simp_all add: ps2_kbd_mod_ctrl_pressed_def ps2_kbd_mod_alt_pressed_def getbit_def getbits_def)
  then show ?thesis
    using keyboard_to_reader [of "0xC0300000" demo_tty "demo_ps2 c0" demo_kbd "([], [])" demo_bytes demo_strokes demo_local
        "\<lambda>_. Some (0xD0000000, \<lambda>_. 0)" 0 "\<lambda>_ _. 0" "[72, 105]" "[72, 105]" 80 "\<lambda>_ _ _ s. kret s" 0 0 0] i d del c0
    by (simp add: demo_ps2_def demo_local_def demo_mods unread_def grows_def edit_def PS2_DATA_PORT_def)
      (auto simp: demo_bytes_def demo_strokes_def plain_def)
qed

section \<open>The state of the thread\<close>

text \<open>The place where the next byte of a code goes is in the buffer.\<close>

definition local_ok :: "kbd_local \<Rightarrow> bool" where
  "local_ok l \<longleftrightarrow> k_state l = waiting_scancode_start
     \<or> k_state l = waiting_scancode_end \<and> 1 \<le> scancode_i l \<and> scancode_i l < MAX_SCANCODE_BYTES"

lemma step_local_ok:
  assumes "local_ok l" "kbd_step dev run past realloc l s = kret (d, l', s')"
  shows "local_ok l'"
proof -
  have incomplete: "n < 7" if "\<not> ps2_kbd_scancode_complete b (Suc n)" for b n
    using that by (simp add: ps2_kbd_scancode_complete_def split: if_splits)
  show ?thesis
    using assms unfolding local_ok_def
    by (elim disjE conjE) (auto simp: kbd_step_def krun_bind_eq_kret MAX_SCANCODE_BYTES_def Let_def
        ps2_read_data_def ps2_can_read_data_def ps2_read_status_def inb_def dest!: incomplete split: if_splits)
qed

lemma loop_local_ok:
  assumes "local_ok l" "kbd_loop dev run past realloc l s = kret (l', s')"
  shows "local_ok l'"
proof -
  let ?P = "\<lambda>(dev :: device) run (past :: bool \<Rightarrow> u8 \<Rightarrow> u8) realloc l s (z :: (kbd_local \<times> ps2) kres).
    local_ok l \<longrightarrow> (\<forall>l' s'. z = Inr (l', s') \<longrightarrow> local_ok l')"
  have "?P dev run past realloc l s (Inr (l', s'))"
  proof (rule kbd_loop.raw_induct [of ?P])
    fix f :: "device \<Rightarrow> (u32 \<Rightarrow> u8 \<Rightarrow> u8 \<Rightarrow> ps2 \<Rightarrow> ps2 krun) \<Rightarrow> (bool \<Rightarrow> u8 \<Rightarrow> u8) \<Rightarrow> (tty \<Rightarrow> grown)
      \<Rightarrow> kbd_local \<Rightarrow> ps2 \<Rightarrow> (kbd_local \<times> ps2) krun"
    fix dev run past realloc l s z
    assume IH: "\<And>dev run past realloc l s z. f dev run past realloc l s = Some z \<Longrightarrow> ?P dev run past realloc l s z"
      and body: "(case kbd_step dev run past realloc l s of None \<Rightarrow> None | Some (Inl e) \<Rightarrow> kfail e
        | Some (Inr (done, l, s)) \<Rightarrow> if done then kret (l, s) else f dev run past realloc l s) = Some z"
    show "?P dev run past realloc l s z"
    proof (cases "kbd_step dev run past realloc l s" rule: krun_cases)
      case (3 y)
      obtain d l1 s1 where y: "y = (d, l1, s1)"
        by (cases y)
      have ok: "local_ok l \<Longrightarrow> local_ok l1"
        by (erule step_local_ok [OF _ 3 [unfolded y]])
      have z: "(if d then kret (l1, s1) else f dev run past realloc l1 s1) = Some z"
        using body unfolding 3 y kret_def by simp
      show ?thesis
      proof (cases d)
        case True
        then show ?thesis
          using z ok by (auto simp: kret_def)
      next
        case False
        then have "?P dev run past realloc l1 s1 z"
          using z by (intro IH) simp
        then show ?thesis
          using ok by blast
      qed
    qed (use body in \<open>auto simp: kfail_def\<close>)
  qed (use assms in \<open>simp add: kret_def\<close>)
  then show ?thesis
    using assms(1) by simp
qed

text \<open>The turns of the thread; what happens to the state between two of them is open.\<close>

inductive kbd_turns :: "kbd_local \<Rightarrow> kbd_local \<Rightarrow> bool" for l where
  start: "kbd_turns l l"
| turn: "kbd_turns l l1 \<Longrightarrow> kbd_loop dev run past realloc l1 s = kret (l2, s') \<Longrightarrow> kbd_turns l l2"

text \<open>
  The keyboard thread keeps to its buffer.  After any number of turns, whatever bytes the controller gives, it is
  at the start of a code, or inside one with the place for the next byte among the eight of the buffer.  It is never
  in one of the two states in which commands are sent, so that none is.
\<close>

theorem kbd_thread_in_bounds:
  assumes "ps2_kbd_thread_start dev garbage s0 = kret (l0, s)" "kbd_turns l0 l"
  shows "k_state l \<in> {waiting_scancode_start, waiting_scancode_end}
    \<and> (k_state l = waiting_scancode_end \<longrightarrow> 1 \<le> scancode_i l \<and> scancode_i l < MAX_SCANCODE_BYTES)"
proof -
  have "local_ok l0"
    using assms(1) by (auto simp: ps2_kbd_thread_start_def krun_bind_eq_kret local_ok_def)
  with assms(2) have "local_ok l"
    by induction (auto dest: loop_local_ok)
  then show ?thesis
    by (auto simp: local_ok_def)
qed

text \<open>A thread that has read the first byte of the code of the pause key.\<close>

theorem kbd_thread_in_bounds_witness:
  "\<exists>l0 s l s'. ps2_kbd_thread_start (\<lambda>_ _. 0) (\<lambda>_. 0) (demo_ps2 demo_tty) = kret (l0, s)
    \<and> kbd_loop (\<lambda>_ p. if p = PS2_SC_PORT then 0 else 0xE1) (\<lambda>_ _ _ s. kret s) (\<lambda>_ _. 0) (\<lambda>_. None) l0 s = kret (l, s')
    \<and> scancode_i l < MAX_SCANCODE_BYTES"
proof -
  let ?dev = "\<lambda>_ p. if p = PS2_SC_PORT then 0 else (0xE1 :: u8)"
  have st: "PS2_STATUS_GET_OUTPUT_BUFFER_STATUS 0 = 0"
    by (simp add: PS2_STATUS_GET_OUTPUT_BUFFER_STATUS_def getbit_def getbits_def)
  define l0 where "l0 = \<lparr> k_state = waiting_scancode_start, scancode_i = 0, scancode = (\<lambda>_. 0) \<rparr>"
  obtain s where a: "ps2_kbd_thread_start (\<lambda>_ _. 0) (\<lambda>_. 0) (demo_ps2 demo_tty) = kret (l0, s)"
    by (simp add: ps2_kbd_thread_start_def l0_def ps2_flush_output_buffer.simps ps2_can_read_data_def ps2_read_status_def inb_def st Let_def)
  obtain l s' where "kbd_step ?dev (\<lambda>_ _ _ s. kret s) (\<lambda>_ _. 0) (\<lambda>_. None) l0 s = kret (True, l, s')"
    and e: "k_state l = waiting_scancode_end"
    by (simp add: kbd_step_def l0_def ps2_read_data_def ps2_can_read_data_def ps2_read_status_def inb_def st
        ps2_kbd_scancode_complete_def ports_differ [symmetric])
  then have b: "kbd_loop ?dev (\<lambda>_ _ _ s. kret s) (\<lambda>_ _. 0) (\<lambda>_. None) l0 s = kret (l, s')"
    by (subst kbd_loop_unfold) simp
  show ?thesis
    using a b e kbd_thread_in_bounds [OF a kbd_turns.turn [OF kbd_turns.start b]] by auto
qed

text \<open>
  From the code 0x64 on the entries of the tables stand four places too early: the 7 of the number pad, code 0x6c, types a 0, and with
  the shift key held the backspace key, code 0x66, types nothing.
\<close>

theorem kbd_tables_misplaced:
  "typed_chars past 0 [Make 0x6C] = [48] \<and> typed_chars past 0 [Make PS2_SC_LEFT_SHIFT, Make 0x66] = []"
proof -
  have w: "withbit 0 (Suc 0) 1 = (2 :: u32)"
    by (simp add: withbit_def withbits_def bitmask_def mask_eq_exp_minus_1)
  have p: "ps2_kbd_mod_shift_pressed 2" "\<not> ps2_kbd_mod_shift_pressed 0" "\<not> ps2_kbd_mod_ctrl_pressed 2" "\<not> ps2_kbd_mod_ctrl_pressed 0"
    "\<not> ps2_kbd_mod_alt_pressed 2" "\<not> ps2_kbd_mod_alt_pressed 0"
    by (simp_all add: ps2_kbd_mod_shift_pressed_def ps2_kbd_mod_ctrl_pressed_def ps2_kbd_mod_alt_pressed_def getbit_def getbits_def
        bitmask_def ps2_kbd_left_shift_def ps2_kbd_right_shift_def ps2_kbd_left_ctrl_def ps2_kbd_right_ctrl_def ps2_kbd_left_alt_def
        ps2_kbd_right_alt_def mask_eq_exp_minus_1)
  have e: "entry_of ps2_kbd_scancodes_set_2_en_gb b 0x6C = 48" "entry_of ps2_kbd_scancodes_set_2_en_gb_shift b 0x66 = 0" for b
    by (simp_all add: entry_of_def ps2_kbd_scancodes_set_2_en_gb_def ps2_kbd_scancodes_set_2_en_gb_shift_def)
  show ?thesis
    by (simp add: key_effect_def key_event_of_def typed_char_def pressed_def bit_value_def w p e
        PS2_SC_ALT_def PS2_SC_CTRL_def PS2_SC_LEFT_SHIFT_def PS2_SC_RIGHT_SHIFT_def ps2_kbd_left_shift_def)
qed

text \<open>
  The first command that is sent to the keyboard is lost: \<open>ps2_send_command\<close> appends it to its own copy of the pointer to
  the queue, and the queue stays empty.
\<close>

theorem ps2_send_command_lost:
  assumes "ps2_kbd_command_queue s = None" "ps2_free_commands s = None" "p \<noteq> 0"
  shows "\<exists>s'. ps2_send_command p (ps2_kbd_command_queue s) cmd data cb s = kret (p, s') \<and> ps2_kbd_command_queue s' = None"
  using assms by (simp add: ps2_send_command_def ps2_command_alloc_def DL_APPEND2_def)

theorem ps2_send_command_lost_witness:
  "\<exists>s'. ps2_send_command 0xD0000000 None 0xED 7 0xC0100000 (demo_ps2 demo_tty) = kret (0xD0000000, s') \<and> ps2_kbd_command_queue s' = None"
  using ps2_send_command_lost [of "demo_ps2 demo_tty" "0xD0000000" "0xED" 7 "0xC0100000"] by (simp add: demo_ps2_def)

end
