(* ===== verification/Syscall.thy ===== *)
theory Syscall
  imports Tty KString Interrupts
begin

text \<open>
  System calls, kern/syscall.c.  The state is the console with the memory of the caller, which is apart from the structures
  of the console.  The body of a call has the five words that \<open>syscalls_call\<close> pushes as arguments and gives the value
  that it leaves in the accumulator, or stops with the thread that waits for characters; \<open>None\<close> is a call that does not end.
\<close>

section \<open>The calls\<close>

record caller =
  console :: tty
  umem :: memory

text \<open>A call that has returned, or that waits in \<open>tty_getc\<close> or \<open>tty_gets\<close> with what is needed to resume it.\<close>

datatype syscall_result = Result u32 | In_getc u32 | In_gets u32 nat "u8 list"

definition high_five :: "u32 \<Rightarrow> u32 \<Rightarrow> u32 \<Rightarrow> u32 \<Rightarrow> u32 \<Rightarrow> u32" where
  "high_five a b c d e = a + b + c + d + e"

text \<open>Running one of the functions of the console on the console of the caller.\<close>

definition on_console :: "('a \<times> tty) krun \<Rightarrow> caller \<Rightarrow> ('a \<times> caller) krun" where
  "on_console r s = krun_bind r (\<lambda>(x, t). kret (x, s \<lparr> console := t \<rparr>))"

definition got_char :: "int blocking \<Rightarrow> syscall_result" where
  "got_char b = (case b of Now r \<Rightarrow> Result (word_of_int r) | Blocked flags \<Rightarrow> In_getc flags)"

text \<open>The bytes from the \<open>i\<close>-th on are those that this part of the call has stored.\<close>

definition got_line :: "u32 \<Rightarrow> nat \<Rightarrow> gets_result \<Rightarrow> caller \<Rightarrow> (syscall_result \<times> caller) krun" where
  "got_line buffer i r s =
     (case r of
        Read n bs \<Rightarrow> kret (Result (word_of_int n), s \<lparr> umem := put_bytes (umem s) (buffer + of_nat i) (drop i bs) \<rparr>)
      | Stopped flags n bs \<Rightarrow> kret (In_gets flags n bs, s \<lparr> umem := put_bytes (umem s) (buffer + of_nat i) (drop i bs) \<rparr>))"

text \<open>The string that \<open>tty_puts\<close> walks over, up to its zero byte; without one the walk does not end.\<close>

definition string_at :: "memory \<Rightarrow> u32 \<Rightarrow> u8 list option" where
  "string_at m p = (case strlen m p of None \<Rightarrow> None | Some n \<Rightarrow> Some (map (\<lambda>i. m (p + of_nat i)) [0..<unat n]))"

type_synonym syscall = "u32 \<Rightarrow> u32 \<Rightarrow> u32 \<Rightarrow> u32 \<Rightarrow> u32 \<Rightarrow> caller \<Rightarrow> (syscall_result \<times> caller) krun"

definition syscall_handlers :: "device \<Rightarrow> u8 \<Rightarrow> u32 \<Rightarrow> u32 \<Rightarrow> syscall list" where
  "syscall_handlers dev vma_byte now obs =
     [\<lambda>a b c d e s. power_halt,
      \<lambda>a b c d e s. kret (Result (high_five a b c d e), s),
      \<lambda>a b c d e s. krun_bind (on_console (tty_getc vma_byte now obs (console s)) s) (\<lambda>(r, s). kret (got_char r, s)),
      \<lambda>a b c d e s. krun_bind (on_console (tty_putc dev (ucast a) (console s)) s) (\<lambda>(r, s). kret (Result (word_of_int r), s)),
      \<lambda>a b c d e s. krun_bind (on_console (tty_gets vma_byte now obs b (console s)) s) (\<lambda>(r, s). got_line a 0 r s),
      \<lambda>a b c d e s.
        (case string_at (umem s) a of
           None \<Rightarrow> None
         | Some cs \<Rightarrow> krun_bind (on_console (tty_puts dev cs (console s)) s) (\<lambda>(r, s). kret (Result (word_of_int r), s)))]"

definition syscalls_num_syscalls :: u32 where
  "syscalls_num_syscalls = 6"

section \<open>The handler\<close>

text \<open>The accumulator is written when the body has returned.\<close>

definition call_end :: "syscall_result \<Rightarrow> registers \<Rightarrow> registers" where
  "call_end r regs = (case r of Result v \<Rightarrow> regs \<lparr> r_eax := v \<rparr> | _ \<Rightarrow> regs)"

definition syscalls_call :: "syscall list \<Rightarrow> u32 \<Rightarrow> registers \<Rightarrow> caller \<Rightarrow> (syscall_result \<times> registers \<times> caller) krun" where
  "syscalls_call calls num regs s =
     krun_bind ((calls ! unat num) (r_ebx regs) (r_ecx regs) (r_edx regs) (r_esi regs) (r_edi regs) s) (\<lambda>(r, s).
       kret (r, call_end r regs, s))"

definition syscalls_handler :: "syscall list \<Rightarrow> u32 \<Rightarrow> registers \<Rightarrow> u32 \<Rightarrow> caller \<Rightarrow> (syscall_result \<times> registers \<times> caller) krun" where
  "syscalls_handler calls ino regs data s =
     (if r_eax regs < syscalls_num_syscalls then syscalls_call calls (r_eax regs) regs s
      else kfail (Panic ''non-existant syscall''))"

text \<open>The rest of a call whose thread is resumed.\<close>

definition syscalls_resumed :: "u8 \<Rightarrow> u32 \<Rightarrow> u32 \<Rightarrow> syscall_result \<Rightarrow> registers \<Rightarrow> caller \<Rightarrow> (syscall_result \<times> registers \<times> caller) krun" where
  "syscalls_resumed vma_byte now obs r regs s =
     krun_bind
       (case r of
          Result v \<Rightarrow> kret (r, s)
        | In_getc flags \<Rightarrow>
            krun_bind (on_console (tty_getc_resumed vma_byte now flags obs (console s)) s) (\<lambda>(r, s). kret (got_char r, s))
        | In_gets flags n bs \<Rightarrow>
            krun_bind (on_console (tty_gets_resumed vma_byte now flags obs n bs (console s)) s) (\<lambda>(r, s).
              got_line (r_ebx regs) (length bs) r s))
       (\<lambda>(r, s). kret (r, call_end r regs, s))"

definition syscalls_init :: "u32 \<Rightarrow> 'a interrupts_scheme \<Rightarrow> (u32 \<times> 'a interrupts_scheme) krun" where
  "syscalls_init entry s = interrupts_install_handler 0x80 entry 0 s"

section \<open>The stubs of the callers\<close>

text \<open>
  Each stub loads the number and its arguments and raises the interrupt; the other registers are as the caller has them.
\<close>

definition syscall_5 :: "u32 \<Rightarrow> u32 \<Rightarrow> u32 \<Rightarrow> u32 \<Rightarrow> u32 \<Rightarrow> u32 \<Rightarrow> registers \<Rightarrow> registers" where
  "syscall_5 num p1 p2 p3 p4 p5 regs =
     regs \<lparr> int_no := 0x80, r_eax := num, r_ebx := p1, r_ecx := p2, r_edx := p3, r_esi := p4, r_edi := p5 \<rparr>"

definition syscall_2 :: "u32 \<Rightarrow> u32 \<Rightarrow> u32 \<Rightarrow> registers \<Rightarrow> registers" where
  "syscall_2 num p1 p2 regs = regs \<lparr> int_no := 0x80, r_eax := num, r_ebx := p1, r_ecx := p2 \<rparr>"

definition syscall_1 :: "u32 \<Rightarrow> u32 \<Rightarrow> registers \<Rightarrow> registers" where
  "syscall_1 num p1 regs = regs \<lparr> int_no := 0x80, r_eax := num, r_ebx := p1 \<rparr>"

definition syscall_0 :: "u32 \<Rightarrow> registers \<Rightarrow> registers" where
  "syscall_0 num regs = regs \<lparr> int_no := 0x80, r_eax := num \<rparr>"

definition syscall_halt :: "registers \<Rightarrow> registers" where "syscall_halt = syscall_0 0"
definition syscall_high_five :: "u32 \<Rightarrow> u32 \<Rightarrow> u32 \<Rightarrow> u32 \<Rightarrow> u32 \<Rightarrow> registers \<Rightarrow> registers" where "syscall_high_five = syscall_5 1"
definition syscall_tty_getc :: "registers \<Rightarrow> registers" where "syscall_tty_getc = syscall_0 2"
definition syscall_tty_putc :: "u8 \<Rightarrow> registers \<Rightarrow> registers" where "syscall_tty_putc c = syscall_1 3 (scast c)"
definition syscall_tty_gets :: "u32 \<Rightarrow> u32 \<Rightarrow> registers \<Rightarrow> registers" where "syscall_tty_gets = syscall_2 4"
definition syscall_tty_puts :: "u32 \<Rightarrow> registers \<Rightarrow> registers" where "syscall_tty_puts = syscall_1 5"

section \<open>Properties\<close>

lemmas handler_simps = syscalls_handler_def syscalls_num_syscalls_def syscalls_call_def syscall_handlers_def call_end_def on_console_def

lemma put_bytes_nth: "length xs < 2 ^ 32 \<Longrightarrow> i < length xs \<Longrightarrow> put_bytes m a xs (a + of_nat i) = xs ! i"
proof (induction xs arbitrary: m a i)
  case (Cons x xs)
  show ?case
  proof (cases i)
    case 0
    have "a \<notin> span (a + 1) (length xs)"
      using Cons.prems(1) by (simp add: span_def unat_u32_minus_1)
    then show ?thesis
      using Cons.prems(1) 0 put_bytes_other [of xs a "a + 1" "m(a := x)"] by simp
  next
    case (Suc j)
    then have "put_bytes (m(a := x)) (a + 1) xs (a + 1 + of_nat j) = xs ! j"
      using Cons.prems by (intro Cons.IH) simp_all
    then show ?thesis
      by (simp add: Suc add.assoc)
  qed
qed simp

lemma puts_shows:
  assumes "display_ok dev t q" "0 \<notin> set cs"
  shows "\<exists>t'. tty_puts dev cs t = kret (0, t') \<and> display_ok dev t' (foldl teletype q cs) \<and> tty_lines t' = tty_lines t"
  using assms
proof (induction cs arbitrary: t q)
  case (Cons c cs)
  obtain t1 where "tty_put dev c t = kret t1" "display_ok dev t1 (teletype q c)" "tty_lines t1 = tty_lines t"
    using tty_put_ok [OF Cons.prems(1)] by blast
  then show ?case
    using Cons.IH [of t1 "teletype q c"] Cons.prems(2) by (auto simp: tty_putc_def)
qed auto

lemma string_at_cstr:
  assumes "cstr m p cs" "length cs < 2 ^ 32"
  shows "string_at m p = Some cs"
proof -
  have "unat (of_nat (length cs) :: u32) = length cs"
    using assms(2) by simp
  then show ?thesis
    using assms(1) by (auto simp: string_at_def strlen_cstr cstr_nth intro: nth_equalityI)
qed

text \<open>
  A user who asks for a line while a whole one waits gets it: the call returns the length of the line with its newline in the
  accumulator, the bytes of the line are in the buffer of the caller, and no other byte of the caller's memory and no other
  register has changed.
\<close>

theorem syscall_gets_line:
  assumes "tty_lines (console s) = Some l" "line_ok l" "pending l = typed @ 10 # rest" "10 \<notin> set typed"
    and "list_all (\<lambda>c. 0 \<le> sint c) typed" "length typed < unat maxlength"
  shows "\<exists>s'. syscalls_handler (syscall_handlers dev vma_byte now obs) 0x80 (syscall_tty_gets buffer maxlength regs) 0 s =
      kret (Result (of_nat (Suc (length typed))), (syscall_tty_gets buffer maxlength regs) \<lparr> r_eax := of_nat (Suc (length typed)) \<rparr>, s')
    \<and> (\<forall>i < Suc (length typed). umem s' (buffer + of_nat i) = (typed @ [10]) ! i)
    \<and> (\<forall>a. a \<notin> span buffer (Suc (length typed)) \<longrightarrow> umem s' a = umem s a)"
proof -
  obtain t where g: "tty_gets vma_byte now obs maxlength (console s) = kret (Read (int (Suc (length typed))) (typed @ [10]), t)"
    using gets_line [OF assms(1-6), of 0 vma_byte now obs "[]"] by (auto simp: tty_gets_def)
  have "length (typed @ [10]) \<le> unat maxlength"
    using assms(6) by simp
  also have "unat maxlength < 2 ^ 32"
    using unat_bound [of maxlength] by simp
  finally have n: "length (typed @ [10]) < 2 ^ 32" .
  let ?s = "s \<lparr> console := t, umem := put_bytes (umem s) buffer (typed @ [10]) \<rparr>"
  have "syscalls_handler (syscall_handlers dev vma_byte now obs) 0x80 (syscall_tty_gets buffer maxlength regs) 0 s =
      kret (Result (of_nat (Suc (length typed))), (syscall_tty_gets buffer maxlength regs) \<lparr> r_eax := of_nat (Suc (length typed)) \<rparr>, ?s)"
    using g by (simp add: handler_simps syscall_tty_gets_def syscall_2_def got_line_def)
  then show ?thesis
    using put_bytes_nth [OF n, of _ "umem s" buffer] put_bytes_other [OF n, of _ buffer "umem s"] by auto
qed

definition demo_caller :: caller where
  "demo_caller = \<lparr> console = demo_tty \<lparr> tty_lines := Some \<lparr> tl_data = 0xC0400000, tl_bytes = (\<lambda>i. [104, 105, 10] ! i),
       tl_capacity = 3, tl_length = 3, read_pos = 0, write_pos = 3 \<rparr> \<rparr>, umem = (\<lambda>_. 0) \<rparr>"

theorem syscall_gets_line_witness:
  "\<exists>s regs. syscalls_handler (syscall_handlers (\<lambda>_ _. 0x20) 0 0 0) 0x80 (syscall_tty_gets 0x1000 80 registers0) 0 demo_caller =
     kret (Result 3, regs, s) \<and> umem s 0x1001 = 105"
proof -
  let ?l = "\<lparr> tl_data = 0xC0400000, tl_bytes = (\<lambda>i. [104, 105, 10] ! i), tl_capacity = 3, tl_length = 3, read_pos = 0, write_pos = 3 \<rparr>"
  have "pending ?l = [104, 105] @ 10 # []"
    by (simp add: pending_def upt_rec)
  then show ?thesis
    using syscall_gets_line [of demo_caller ?l "[104, 105]" "[]" 80 "\<lambda>_ _. 0x20" 0 0 0 "0x1000" registers0]
    by (force simp: demo_caller_def line_ok_def)
qed

text \<open>
  The arguments of a call arrive in the order of the stub, and its result in the accumulator: the sum of the five words,
  modulo 2^32, with nothing else changed.  A string in the caller's memory goes to the screen.  A number without a call stops
  the kernel.
\<close>

theorem syscall_arguments:
  fixes dev vma_byte now obs
  defines "run \<equiv> \<lambda>regs. syscalls_handler (syscall_handlers dev vma_byte now obs) 0x80 regs 0"
  assumes "cstr (umem s) p cs" "length cs < 2 ^ 32" "display_ok dev (console s) q" "6 \<le> n"
  shows "run (syscall_high_five a b c d e regs) s =
      kret (Result (a + b + c + d + e), (syscall_high_five a b c d e regs) \<lparr> r_eax := a + b + c + d + e \<rparr>, s)
    \<and> (\<exists>t. run (syscall_tty_puts p regs) s = kret (Result 0, (syscall_tty_puts p regs) \<lparr> r_eax := 0 \<rparr>, s \<lparr> console := t \<rparr>)
      \<and> display_ok dev t (foldl teletype q cs))
    \<and> run (regs \<lparr> r_eax := n \<rparr>) s = kfail (Panic ''non-existant syscall'')"
proof (intro conjI)
  obtain t where "tty_puts dev cs (console s) = kret (0, t)" "display_ok dev t (foldl teletype q cs)"
    using puts_shows [OF assms(4) cstr_nonzero [OF assms(2)]] by blast
  then show "\<exists>t. run (syscall_tty_puts p regs) s = kret (Result 0, (syscall_tty_puts p regs) \<lparr> r_eax := 0 \<rparr>, s \<lparr> console := t \<rparr>)
      \<and> display_ok dev t (foldl teletype q cs)"
    using string_at_cstr [OF assms(2,3)] by (auto simp: run_def handler_simps syscall_tty_puts_def syscall_1_def)
  show "run (regs \<lparr> r_eax := n \<rparr>) s = kfail (Panic ''non-existant syscall'')"
    using assms(5) by (simp add: run_def handler_simps not_less)
qed (simp add: run_def handler_simps syscall_high_five_def syscall_5_def high_five_def)

theorem syscall_arguments_witness:
  "\<exists>regs. syscalls_handler (syscall_handlers (\<lambda>_ _. 0x20) 0 0 0) 0x80 (syscall_high_five 1 2 3 4 0xFFFFFFFF registers0) 0 demo_caller =
     kret (Result 9, regs, demo_caller)"
proof -
  have "display_ok (\<lambda>_ _. 0x20) (console demo_caller) ([], [])"
    using demo_tty_display by (simp add: demo_caller_def display_ok_def shows_paper_def entries_show_def entry_at_def)
  then show ?thesis
    using syscall_arguments [of demo_caller 0 "[]" "\<lambda>_ _. 0x20" "([], [])" 6 0 0 0 1 2 3 4 "0xFFFFFFFF" registers0]
    by (simp add: demo_caller_def)
qed

end
