(* ===== verification/Spec2Isabelle.thy ===== *)
theory Spec2Isabelle
  imports Allocator VmMap KSort KString Kprintf Paging Mutex Process Timers Malloc Uart Pit Cmdline Descriptors Keyboard Syscall
begin

text \<open>
  Verification of the ChrisOS kernel.
\<close>

end
